(* ===== verification/Prelude.thy ===== *)
theory Prelude
  imports Complex_Main "HOL-Library.Word" "HOL-Library.AList" "HOL-Library.Code_Target_Numeral"
    "HOL-Library.Char_ord" "HOL-Library.List_Lexorder" "HOL-Library.Product_Lexorder"
    "HOL-Library.Option_ord"
begin

text \<open>
  Shared vocabulary of the development: the result type of the server's operations, the
  insertion-ordered maps and sets the code keeps its state in (\<open>IndexMap\<close>, \<open>IndexSet\<close>),
  byte strings with their big-endian integers, and the lemma collections the component
  theories use.
\<close>

named_theorems frame "what an operation leaves unchanged"
named_theorems wf_intro "operations that keep the well-formedness invariant"

section \<open>Bytes\<close>

type_synonym byte = "8 word"
type_synonym bytes = "byte list"

text \<open>The unsigned big-endian encodings (\<open>to_be_bytes\<close>, \<open>from_be_bytes\<close>).\<close>

fun be_bytes :: "nat \<Rightarrow> nat \<Rightarrow> bytes" where
  "be_bytes 0 n = []"
| "be_bytes (Suc w) n = be_bytes w (n div 256) @ [of_nat (n mod 256)]"

definition be_nat :: "bytes \<Rightarrow> nat" where
  "be_nat bs = foldl (\<lambda>n b. n * 256 + unat b) 0 bs"

lemma length_be_bytes [simp]: "length (be_bytes w n) = w"
  by (induction w arbitrary: n) auto

lemma be_nat_snoc: "be_nat (bs @ [b]) = be_nat bs * 256 + unat b"
  by (simp add: be_nat_def)

lemma be_nat_be_bytes: "be_nat (be_bytes w n) = n mod 256 ^ w"
proof (induction w arbitrary: n)
  case 0
  then show ?case by (simp add: be_nat_def)
next
  case (Suc w)
  have "unat (of_nat (n mod 256) :: byte) = n mod 256"
    by (simp add: unat_of_nat)
  with Suc show ?case
    by (simp add: be_nat_snoc mod_mult2_eq)
qed

lemma be_nat_roundtrip: "n < 256 ^ w \<Longrightarrow> be_nat (be_bytes w n) = n"
  by (simp add: be_nat_be_bytes)

lemma be_nat_less: "be_nat bs < 256 ^ length bs"
proof (induction bs rule: rev_induct)
  case Nil
  then show ?case by (simp add: be_nat_def)
next
  case (snoc b bs)
  have "unat b < 2 ^ LENGTH(8)" by (rule unsigned_less)
  with snoc show ?case by (simp add: be_nat_snoc)
qed

text \<open>\<open>usize\<close> and \<open>u64\<close> values are natural numbers; the bound is written where code saturates.\<close>

definition usize_max :: nat where
  "usize_max = 2 ^ 64 - 1"

text \<open>A slice \<open>bytes[a..b]\<close>; the code's bounds are checked before each use.\<close>

definition slice :: "nat \<Rightarrow> nat \<Rightarrow> 'a list \<Rightarrow> 'a list" where
  "slice a b xs = take (b - a) (drop a xs)"

lemma length_slice [simp]: "b \<le> length xs \<Longrightarrow> length (slice a b xs) = b - a"
  by (simp add: slice_def)

lemma slice_append_left: "b \<le> length xs \<Longrightarrow> slice a b (xs @ ys) = slice a b xs"
  by (simp add: slice_def)

lemma slice_middle:
  "a = length xs \<Longrightarrow> b = length xs + length ys \<Longrightarrow> slice a b (xs @ ys @ zs) = ys"
  by (simp add: slice_def)

section \<open>Results\<close>

text \<open>
  A Rust operation with signature \<open>Result<T>\<close> that works on a state either returns
  \<open>Ok\<close> (\<open>Ret\<close>), returns \<open>Err\<close> (\<open>Fail\<close>, the state as it was when the error was raised), or
  panics (\<open>Panic\<close>: an \<open>unwrap\<close> of \<open>None\<close> or an index that is out of range, which ends the
  process). \<open>andthen\<close> is the \<open>?\<close> operator.
\<close>

datatype 'a outcome = Panic | Fail 'a | Ret 'a

fun andthen :: "'a outcome \<Rightarrow> ('a \<Rightarrow> 'a outcome) \<Rightarrow> 'a outcome" where
  "andthen Panic f = Panic"
| "andthen (Fail s) f = Fail s"
| "andthen (Ret s) f = f s"

text \<open>The state after the operation, whatever it returned.\<close>

fun after :: "('a \<Rightarrow> bool) \<Rightarrow> 'a outcome \<Rightarrow> bool" where
  "after P Panic = False"
| "after P (Fail s) = P s"
| "after P (Ret s) = P s"

lemma after_mono: "after P r \<Longrightarrow> (\<And>s. P s \<Longrightarrow> Q s) \<Longrightarrow> after Q r"
  by (cases r) auto

lemma after_andthen:
  "after P r \<Longrightarrow> (\<And>s. P s \<Longrightarrow> r = Ret s \<Longrightarrow> after Q (f s)) \<Longrightarrow>
   (\<And>s. P s \<Longrightarrow> r = Fail s \<Longrightarrow> Q s) \<Longrightarrow> after Q (andthen r f)"
  by (cases r) auto

lemma after_no_panic: "after P r \<Longrightarrow> r \<noteq> Panic"
  by (cases r) auto

lemma after_conj: "after P r \<Longrightarrow> after Q r \<Longrightarrow> after (\<lambda>s. P s \<and> Q s) r"
  by (cases r) auto

section \<open>Insertion-ordered maps and sets\<close>

text \<open>
  An \<open>IndexMap\<close> is an association list with distinct keys, in insertion order: \<open>get\<close> is
  \<^const>\<open>map_of\<close>, \<open>insert\<close> is \<^const>\<open>AList.update\<close> (an existing key keeps its place, a new
  one goes to the end), \<open>shift_remove\<close> is \<^const>\<open>AList.delete\<close> and \<open>get_mut\<close> with an
  assignment is \<^const>\<open>AList.map_entry\<close>. \<open>swap_remove\<close> puts the last entry in the place of
  the removed one.
\<close>

type_synonym ('k, 'v) imap = "('k \<times> 'v) list"

declare map_of_eq_Some_iff [simp del] Some_eq_map_of_iff [simp del]

abbreviation keys :: "('k, 'v) imap \<Rightarrow> 'k list" where
  "keys m \<equiv> map fst m"

abbreviation imap_ok :: "('k, 'v) imap \<Rightarrow> bool" where
  "imap_ok m \<equiv> distinct (keys m)"

definition last_first :: "'a list \<Rightarrow> 'a list" where
  "last_first m = (if m = [] then [] else last m # butlast m)"

fun swap_remove :: "'k \<Rightarrow> ('k, 'v) imap \<Rightarrow> ('k, 'v) imap" where
  "swap_remove k [] = []"
| "swap_remove k (e # m) = (if fst e = k then last_first m else e # swap_remove k m)"

definition map_values :: "('v \<Rightarrow> 'v) \<Rightarrow> ('k, 'v) imap \<Rightarrow> ('k, 'v) imap" where
  "map_values f m = map (\<lambda>(k, v). (k, f v)) m"

lemma keys_map_values [simp]: "keys (map_values f m) = keys m"
  by (induction m) (auto simp: map_values_def)

lemma map_of_map_values [simp]: "map_of (map_values f m) k = map_option f (map_of m k)"
  by (induction m) (auto simp: map_values_def)

lemma map_values_id [simp]: "map_values (\<lambda>v. v) m = m"
  by (simp add: map_values_def)

lemma set_last_first [simp]: "set (last_first m) = set m"
  by (cases m rule: rev_cases) (auto simp: last_first_def)

lemma distinct_last_first [simp]: "distinct (map f (last_first m)) \<longleftrightarrow> distinct (map f m)"
  by (cases m rule: rev_cases) (auto simp: last_first_def)

lemma set_swap_remove:
  "imap_ok m \<Longrightarrow> set (swap_remove k m) = {e \<in> set m. fst e \<noteq> k}"
  by (induction m) (auto simp: image_iff)

lemma imap_ok_swap_remove: "imap_ok m \<Longrightarrow> imap_ok (swap_remove k m)"
  by (induction m) (auto simp: set_swap_remove image_iff)

lemma map_of_swap_remove:
  assumes "imap_ok m"
  shows "map_of (swap_remove k m) = (map_of m)(k := None)"
proof
  fix j
  have ok: "imap_ok (swap_remove k m)"
    using assms by (rule imap_ok_swap_remove)
  show "map_of (swap_remove k m) j = ((map_of m)(k := None)) j"
  proof (cases "map_of (swap_remove k m) j")
    case None
    then have "j \<notin> fst ` set (swap_remove k m)" by (simp add: map_of_eq_None_iff)
    then have "j = k \<or> j \<notin> fst ` set m"
      using set_swap_remove [OF assms, of k] by (auto simp: image_iff)
    with None show ?thesis by (metis fun_upd_apply map_of_eq_None_iff)
  next
    case (Some v)
    with ok have "(j, v) \<in> set (swap_remove k m)" by (simp add: map_of_eq_Some_iff)
    with Some assms show ?thesis by (auto simp: set_swap_remove map_of_eq_Some_iff)
  qed
qed

lemma imap_ok_update [simp]: "imap_ok m \<Longrightarrow> imap_ok (AList.update k v m)"
  by (rule distinct_update)

lemma imap_ok_delete [simp]: "imap_ok m \<Longrightarrow> imap_ok (AList.delete k m)"
  by (rule distinct_delete)

lemma map_of_map_entry:
  "map_of (AList.map_entry k f m) j = (if j = k then map_option f (map_of m k) else map_of m j)"
  by (induction m) auto

lemma keys_map_entry [simp]: "keys (AList.map_entry k f m) = keys m"
  by (induction m) auto

text \<open>
  What the server relies on when it takes an entry out of a map, works on it and puts it
  back: whichever of the two removals is used, the lookups are those of an update. The
  order of the entries is what differs.
\<close>

locale removal_map =
  fixes remove :: "'k \<Rightarrow> ('k, 'v) imap \<Rightarrow> ('k, 'v) imap"
  assumes lookup_remove: "imap_ok m \<Longrightarrow> map_of (remove k m) = (map_of m)(k := None)"
    and ok_remove: "imap_ok m \<Longrightarrow> imap_ok (remove k m)"
begin

lemma ok_put_back: "imap_ok m \<Longrightarrow> imap_ok (AList.update k v (remove k m))"
  by (simp add: ok_remove)

lemma lookup_put_back:
  "imap_ok m \<Longrightarrow> map_of (AList.update k v (remove k m)) = (map_of m)(k \<mapsto> v)"
  by (simp add: update_conv' lookup_remove)

lemma removed_notin: "imap_ok m \<Longrightarrow> k \<notin> fst ` set (remove k m)"
  using lookup_remove [of m k] by (simp flip: map_of_eq_None_iff)

end

interpretation shift: removal_map AList.delete
  by unfold_locales (simp_all add: delete_conv')

interpretation swap: removal_map swap_remove
  by unfold_locales (simp_all add: map_of_swap_remove imap_ok_swap_remove)

text \<open>An \<open>IndexSet\<close> is a list without repetitions; \<open>shift_remove\<close> is \<^const>\<open>removeAll\<close>.\<close>

definition set_insert :: "'a \<Rightarrow> 'a list \<Rightarrow> 'a list" where
  "set_insert x xs = (if x \<in> set xs then xs else xs @ [x])"

lemma set_set_insert [simp]: "set (set_insert x xs) = insert x (set xs)"
  by (auto simp: set_insert_def)

lemma distinct_set_insert [simp]: "distinct xs \<Longrightarrow> distinct (set_insert x xs)"
  by (auto simp: set_insert_def)

lemma length_set_insert_le: "length (set_insert x xs) \<le> Suc (length xs)"
  by (simp add: set_insert_def)

lemma set_insert_not_Nil [simp]: "set_insert x xs \<noteq> []"
  by (auto simp: set_insert_def)

lemma length_removeAll_le: "length (removeAll x xs) \<le> length xs"
  by (simp add: removeAll_filter_not_eq)

lemma map_of_filter_fst:
  "map_of (filter (\<lambda>e. P (fst e)) m) k = (if P k then map_of m k else None)"
  by (induction m) auto

lemma imap_ok_filter [simp]: "imap_ok m \<Longrightarrow> imap_ok (filter P m)"
  by (simp add: distinct_map_filter)

section \<open>Decimal numbers\<close>

text \<open>Decimal text of a number (\<open>u64::to_string\<close>).\<close>

fun dec :: "nat \<Rightarrow> string" where
  "dec n = (if n < 10 then [char_of (48 + n)] else dec (n div 10) @ [char_of (48 + n mod 10)])"

declare dec.simps [simp del]

text \<open>Every character of it is a digit.\<close>

lemma dec_not_Nil [simp]: "dec n \<noteq> []"
  by (subst dec.simps) simp

end
