(* ===== verification/Json.thy ===== *)
theory Json
  imports Prelude
begin

text \<open>
  JSON values as the code handles them (\<open>serde_json::Value\<close> with \<open>preserve_order\<close>), their
  accessors, and the functions of third-party packages that the code calls on them, as
  fields of one record of parameters.

  A string is its UTF-8 text, one \<^typ>\<open>char\<close> per byte, as in a Rust \<open>String\<close>. A finite
  double is the rational it denotes, so that comparisons, \<open>fract\<close> and the casts to the
  integer types are exact; \<open>-0.0\<close> and \<open>0.0\<close>, which the code never tells apart, are both 0.
\<close>

datatype jnum = PosInt nat | NegInt int | Flt rat

datatype json =
    JNull
  | JBool bool
  | JNum jnum
  | JStr string
  | JArr "json list"
  | JObj "(string \<times> json) list"

section \<open>Numbers\<close>

text \<open>Rounding of an integer to the nearest double, ties to even (the \<open>as f64\<close> cast).\<close>

fun bit_width :: "nat \<Rightarrow> nat" where
  "bit_width n = (if n = 0 then 0 else Suc (bit_width (n div 2)))"

declare bit_width.simps [simp del]

definition round_even :: "nat \<Rightarrow> nat \<Rightarrow> nat" where
  "round_even k n =
     (let q = n div 2 ^ k; r = n mod 2 ^ k; half = 2 ^ (k - 1)
      in if r > half \<or> (r = half \<and> odd q) then q + 1 else q)"

definition f64_of_nat :: "nat \<Rightarrow> nat" where
  "f64_of_nat n =
     (if n < 2 ^ 53 then n
      else let k = bit_width n - 53 in if k = 0 then n else round_even k n * 2 ^ k)"

definition num_f64 :: "jnum \<Rightarrow> rat" where
  "num_f64 n = (case n of
       PosInt m \<Rightarrow> of_nat (f64_of_nat m)
     | NegInt i \<Rightarrow> - of_nat (f64_of_nat (nat (- i)))
     | Flt q \<Rightarrow> q)"

text \<open>\<open>f.fract() == 0.0\<close>\<close>

definition whole :: "rat \<Rightarrow> bool" where
  "whole q \<longleftrightarrow> of_int \<lfloor>q\<rfloor> = q"

lemma whole_of_int [simp]: "whole (of_int i)"
  by (simp add: whole_def)

lemma whole_of_nat [simp]: "whole (of_nat n)"
  by (simp add: whole_def)

lemma whole_minus_of_nat [simp]: "whole (- of_nat n)"
  using whole_of_int [of "- int n"] by (simp only: of_int_minus of_int_of_nat_eq)

section \<open>Accessors\<close>

text \<open>
  \<open>as_u64\<close> reads an integer stored as one; \<open>as_f64\<close> any number. \<open>v["k"]\<close> is \<^const>\<open>JNull\<close>
  where \<open>v\<close> is not an object or has no such key (\<open>idx\<close>); \<open>v.get("k")\<close> tells the two apart
  (\<open>getk\<close>).
\<close>

fun as_u64 :: "json \<Rightarrow> nat option" where
  "as_u64 (JNum (PosInt n)) = Some n"
| "as_u64 _ = None"

fun as_f64 :: "json \<Rightarrow> rat option" where
  "as_f64 (JNum n) = Some (num_f64 n)"
| "as_f64 _ = None"

fun as_str :: "json \<Rightarrow> string option" where
  "as_str (JStr s) = Some s"
| "as_str _ = None"

fun as_bool :: "json \<Rightarrow> bool option" where
  "as_bool (JBool b) = Some b"
| "as_bool _ = None"

fun as_array :: "json \<Rightarrow> json list option" where
  "as_array (JArr a) = Some a"
| "as_array _ = None"

fun as_object :: "json \<Rightarrow> (string \<times> json) list option" where
  "as_object (JObj m) = Some m"
| "as_object _ = None"

definition is_object :: "json \<Rightarrow> bool" where
  "is_object v \<longleftrightarrow> as_object v \<noteq> None"

definition is_number :: "json \<Rightarrow> bool" where
  "is_number v \<longleftrightarrow> as_f64 v \<noteq> None"

definition is_boolean :: "json \<Rightarrow> bool" where
  "is_boolean v \<longleftrightarrow> as_bool v \<noteq> None"

definition is_string :: "json \<Rightarrow> bool" where
  "is_string v \<longleftrightarrow> as_str v \<noteq> None"

fun getk :: "json \<Rightarrow> string \<Rightarrow> json option" where
  "getk (JObj m) k = map_of m k"
| "getk _ k = None"

definition idx :: "json \<Rightarrow> string \<Rightarrow> json" where
  "idx v k = (case getk v k of Some w \<Rightarrow> w | None \<Rightarrow> JNull)"

text \<open>\<open>v["k"] = w\<close>, used by the code on objects only.\<close>

fun setk :: "string \<Rightarrow> json \<Rightarrow> json \<Rightarrow> json" where
  "setk k w (JObj m) = JObj (AList.update k w m)"
| "setk k w JNull = JObj [(k, w)]"
| "setk k w v = v"

abbreviation jnat :: "nat \<Rightarrow> json" where
  "jnat n \<equiv> JNum (PosInt n)"

fun jopt :: "nat option \<Rightarrow> json" where
  "jopt None = JNull"
| "jopt (Some n) = jnat n"

definition jstrs :: "string list \<Rightarrow> json" where
  "jstrs xs = JArr (map JStr xs)"

lemma as_u64_Some [simp]: "as_u64 v = Some n \<longleftrightarrow> v = jnat n"
  by (cases v rule: as_u64.cases) auto

lemma as_str_Some [simp]: "as_str v = Some s \<longleftrightarrow> v = JStr s"
  by (cases v) auto

lemma as_array_Some [simp]: "as_array v = Some a \<longleftrightarrow> v = JArr a"
  by (cases v) auto

lemma as_object_Some [simp]: "as_object v = Some m \<longleftrightarrow> v = JObj m"
  by (cases v) auto

lemma as_bool_Some [simp]: "as_bool v = Some b \<longleftrightarrow> v = JBool b"
  by (cases v) auto

lemma as_f64_Some: "as_f64 v = Some q \<longleftrightarrow> (\<exists>n. v = JNum n \<and> num_f64 n = q)"
  by (cases v) auto

lemma idx_JObj [simp]: "idx (JObj m) k = (case map_of m k of Some w \<Rightarrow> w | None \<Rightarrow> JNull)"
  by (simp add: idx_def)

lemma idx_not_object: "\<not> is_object v \<Longrightarrow> idx v k = JNull"
  by (cases v) (auto simp: idx_def is_object_def)

lemma idx_setk_same: "is_object v \<Longrightarrow> idx (setk k w v) k = w"
  by (cases v) (auto simp: is_object_def update_conv')

section \<open>Third-party functions\<close>

text \<open>
  Parameters of the model: the number formatter of \<open>ryu_js\<close>, the string quoting, display,
  parser and byte encoder of \<open>serde_json\<close>, the text form of UUIDs (\<open>uuid\<close>), HMAC-SHA256
  (\<open>hmac\<close>, \<open>sha2\<close>), the two base64 alphabets (\<open>base64\<close>) and the time format of \<open>chrono\<close>.
\<close>

record externals =
  x_num :: "rat \<Rightarrow> string"            \<comment> \<open>\<open>ryu_js::Buffer::format\<close>\<close>
  x_quote :: "string \<Rightarrow> string"       \<comment> \<open>\<open>serde_json::to_string\<close> of a string\<close>
  x_display :: "json \<Rightarrow> string"       \<comment> \<open>\<open>Value::to_string\<close>\<close>
  x_from_str :: "string \<Rightarrow> json option" \<comment> \<open>\<open>serde_json::from_str\<close>\<close>
  x_to_vec :: "json \<Rightarrow> bytes"         \<comment> \<open>\<open>serde_json::to_vec\<close>\<close>
  x_from_slice :: "bytes \<Rightarrow> json option" \<comment> \<open>\<open>serde_json::from_slice\<close>\<close>
  x_uuid_parse :: "string \<Rightarrow> bytes option" \<comment> \<open>\<open>Uuid::parse_str\<close>, the 16 bytes\<close>
  x_uuid_text :: "bytes \<Rightarrow> string"    \<comment> \<open>\<open>Uuid::to_string\<close>\<close>
  x_hmac :: "bytes \<Rightarrow> bytes \<Rightarrow> bytes"  \<comment> \<open>key, message: the 32-byte tag\<close>
  x_b64 :: "bytes \<Rightarrow> string"          \<comment> \<open>standard base64\<close>
  x_b64url :: "bytes \<Rightarrow> string"       \<comment> \<open>URL-safe base64 without padding\<close>
  x_time :: "nat \<Rightarrow> string"           \<comment> \<open>RFC 3339 text of a clock reading\<close>

text \<open>The bytes of a text.\<close>

definition text_bytes :: "string \<Rightarrow> bytes" where
  "text_bytes s = map (\<lambda>c. of_nat (of_char c)) s"

lemma length_text_bytes [simp]: "length (text_bytes s) = length s"
  by (simp add: text_bytes_def)

end
