(* ===== verification/Protocol.thy ===== *)
theory Protocol
  imports Json
begin

text \<open>
  The wire protocol's values (\<open>rust/protocol.rs\<close>): the normalisation of parsed JSON to
  IEEE numbers, the serialiser whose length the byte quotas count, and the validation of
  every client message before it reaches a handler.

  The regular expressions of the source are written as predicates on the characters they
  describe; \<open>$\<close> is the end of the text.
\<close>

section \<open>Normalisation and serialisation\<close>

definition normalize_num :: "jnum \<Rightarrow> jnum" where
  "normalize_num n =
     (let f = num_f64 n in
      if whole f \<and> f \<ge> 0 \<and> f < 2 ^ 64 then PosInt (nat \<lfloor>f\<rfloor>)
      else if whole f \<and> f \<ge> - (2 ^ 63) \<and> f < 0 then NegInt \<lfloor>f\<rfloor>
      else Flt f)"

primrec normalize :: "json \<Rightarrow> json" where
  "normalize JNull = JNull"
| "normalize (JBool b) = JBool b"
| "normalize (JNum n) = JNum (normalize_num n)"
| "normalize (JStr s) = JStr s"
| "normalize (JArr a) = JArr (map normalize a)"
| "normalize (JObj m) = JObj (map (map_prod id normalize) m)"

definition parse :: "externals \<Rightarrow> string \<Rightarrow> json option" where
  "parse X text = map_option normalize (x_from_str X text)"

text \<open>\<open>write\<close>: items separated by commas; the elements of a container in order.\<close>

fun join :: "string list \<Rightarrow> string" where
  "join [] = []"
| "join [s] = s"
| "join (s # t # ss) = s @ '','' @ join (t # ss)"

primrec stringify :: "externals \<Rightarrow> json \<Rightarrow> string" where
  "stringify X JNull = x_display X JNull"
| "stringify X (JBool b) = x_display X (JBool b)"
| "stringify X (JNum n) = x_num X (num_f64 n)"
| "stringify X (JStr s) = x_display X (JStr s)"
| "stringify X (JArr a) = ''['' @ join (map (stringify X) a) @ '']''"
| "stringify X (JObj m) =
     ''{'' @ join (map (\<lambda>(k, t). x_quote X k @ '':'' @ t) (map (map_prod id (stringify X)) m))
     @ ''}''"

section \<open>Text\<close>

text \<open>The characters of a Rust string (\<open>str::chars\<close>), as code points.\<close>

definition cont :: "nat list \<Rightarrow> nat \<Rightarrow> nat" where
  "cont bs i = (if i < length bs then bs ! i - 128 else 0)"

fun utf8_decode :: "nat list \<Rightarrow> nat list" where
  "utf8_decode [] = []"
| "utf8_decode (b # bs) =
     (if b < 128 then b # utf8_decode bs
      else if b < 224 then ((b - 192) * 64 + cont bs 0) # utf8_decode (drop 1 bs)
      else if b < 240
      then ((b - 224) * 4096 + cont bs 0 * 64 + cont bs 1) # utf8_decode (drop 2 bs)
      else ((b - 240) * 262144 + cont bs 0 * 4096 + cont bs 1 * 64 + cont bs 2)
             # utf8_decode (drop 3 bs))"

definition chars :: "string \<Rightarrow> nat list" where
  "chars s = utf8_decode (map of_char s)"

text \<open>\<open>len\<close>: the number of UTF-16 units, as JavaScript counts.\<close>

definition utf16_units :: "nat list \<Rightarrow> nat" where
  "utf16_units cs = sum_list (map (\<lambda>c. if c < 65536 then 1 else 2) cs)"

definition len :: "string \<Rightarrow> nat" where
  "len s = utf16_units (chars s)"

definition js_whitespace :: "nat \<Rightarrow> bool" where
  "js_whitespace c \<longleftrightarrow>
     (9 \<le> c \<and> c \<le> 13) \<or> c = 32 \<or> c = 160 \<or> c = 5760 \<or> (8192 \<le> c \<and> c \<le> 8202) \<or>
     c = 8232 \<or> c = 8233 \<or> c = 8239 \<or> c = 8287 \<or> c = 12288 \<or> c = 65279"

definition trim_matches :: "(nat \<Rightarrow> bool) \<Rightarrow> nat list \<Rightarrow> nat list" where
  "trim_matches P cs = rev (dropWhile P (rev (dropWhile P cs)))"

definition string_ok :: "json \<Rightarrow> nat \<Rightarrow> nat \<Rightarrow> bool \<Rightarrow> bool" where
  "string_ok v lo hi trim =
     (case as_str v of None \<Rightarrow> False
      | Some s \<Rightarrow> len s \<le> hi \<and>
          utf16_units (if trim then trim_matches js_whitespace (chars s) else chars s) \<ge> lo)"

section \<open>Identifiers\<close>

definition in_range :: "char \<Rightarrow> char \<Rightarrow> char \<Rightarrow> bool" where
  "in_range lo hi c \<longleftrightarrow> (of_char lo :: nat) \<le> of_char c \<and> (of_char c :: nat) \<le> of_char hi"

definition is_digit :: "char \<Rightarrow> bool" where
  "is_digit = in_range (CHR ''0'') (CHR ''9'')"

definition is_lower :: "char \<Rightarrow> bool" where
  "is_lower = in_range (CHR ''a'') (CHR ''z'')"

definition is_upper :: "char \<Rightarrow> bool" where
  "is_upper = in_range (CHR ''A'') (CHR ''Z'')"

definition is_alnum :: "char \<Rightarrow> bool" where
  "is_alnum c \<longleftrightarrow> is_digit c \<or> is_lower c \<or> is_upper c"

definition is_hex :: "char \<Rightarrow> bool" where
  "is_hex c \<longleftrightarrow> is_digit c \<or> in_range (CHR ''a'') (CHR ''f'') c \<or> in_range (CHR ''A'') (CHR ''F'') c"

text \<open>Lower case of an ASCII text (UUIDs, JSON keys).\<close>

definition ascii_lower :: "string \<Rightarrow> string" where
  "ascii_lower s = map (\<lambda>c. if is_upper c then char_of (of_char c + 32 :: nat) else c) s"

text \<open>
  \<open>(?i)^[0-9a-f]{8}-[0-9a-f]{4}-[1-8][0-9a-f]{3}-[89ab][0-9a-f]{3}-[0-9a-f]{12}$\<close>, position
  by position.
\<close>

definition uuid_text :: "string \<Rightarrow> bool" where
  "uuid_text s \<longleftrightarrow> length s = 36 \<and>
     list_all (\<lambda>(i, c).
        if i = 8 \<or> i = 13 \<or> i = 18 \<or> i = 23 then c = CHR ''-''
        else if i = 14 then in_range (CHR ''1'') (CHR ''8'') c
        else if i = 19 then c \<in> set ''89abAB''
        else is_hex c) (enumerate 0 s)"

definition uuid :: "json \<Rightarrow> bool" where
  "uuid v = (case as_str v of None \<Rightarrow> False | Some s \<Rightarrow> uuid_text s)"

fun split_on :: "char \<Rightarrow> string \<Rightarrow> string list" where
  "split_on d [] = [[]]"
| "split_on d (c # s) =
     (if c = d then [] # split_on d s
      else (case split_on d s of [] \<Rightarrow> [[c]] | p # ps \<Rightarrow> (c # p) # ps))"

text \<open>\<open>^[a-z]{2,3}(?:-[A-Za-z0-9]{2,8}){0,2}$\<close>\<close>

definition lang_text :: "string \<Rightarrow> bool" where
  "lang_text s =
     (case split_on (CHR ''-'') s of [] \<Rightarrow> False
      | p # ps \<Rightarrow> 2 \<le> length p \<and> length p \<le> 3 \<and> list_all is_lower p \<and> length ps \<le> 2 \<and>
          list_all (\<lambda>q. 2 \<le> length q \<and> length q \<le> 8 \<and> list_all is_alnum q) ps)"

text \<open>\<open>^[A-Za-z0-9_.:-]{1,128}$\<close> and \<open>^[A-Za-z0-9_:-]{20,4096}$\<close>\<close>

definition event_text :: "string \<Rightarrow> bool" where
  "event_text s \<longleftrightarrow> 1 \<le> length s \<and> length s \<le> 128 \<and>
     list_all (\<lambda>c. is_alnum c \<or> c \<in> set ''_.:-'') s"

definition token_text :: "string \<Rightarrow> bool" where
  "token_text s \<longleftrightarrow> 20 \<le> length s \<and> length s \<le> 4096 \<and>
     list_all (\<lambda>c. is_alnum c \<or> c \<in> set ''_:-'') s"

section \<open>Field validators\<close>

definition str_such :: "(string \<Rightarrow> bool) \<Rightarrow> json \<Rightarrow> bool" where
  "str_such P v = (case as_str v of None \<Rightarrow> False | Some s \<Rightarrow> P s)"

definition optional :: "json \<Rightarrow> string \<Rightarrow> (json \<Rightarrow> bool) \<Rightarrow> bool" where
  "optional v k f = (case getk v k of None \<Rightarrow> True | Some w \<Rightarrow> f w)"

definition required :: "json \<Rightarrow> string \<Rightarrow> (json \<Rightarrow> bool) \<Rightarrow> bool" where
  "required v k f = (case getk v k of None \<Rightarrow> False | Some w \<Rightarrow> f w)"

definition password_ok :: "json \<Rightarrow> bool" where
  "password_ok v \<longleftrightarrow> v = JNull \<or> string_ok v 0 128 False"

definition integer :: "json \<Rightarrow> bool" where
  "integer v = (case as_f64 v of None \<Rightarrow> False
     | Some n \<Rightarrow> 0 \<le> n \<and> n \<le> 9007199254740991 \<and> whole n)"

definition ids_ok :: "json \<Rightarrow> nat \<Rightarrow> bool \<Rightarrow> bool" where
  "ids_ok v cap unique = (case as_array v of None \<Rightarrow> False
     | Some a \<Rightarrow> length a \<le> cap \<and> list_all uuid a \<and> (\<not> unique \<or> length (remdups a) = length a))"

definition translations_ok :: "json \<Rightarrow> bool" where
  "translations_ok v = (case as_object v of None \<Rightarrow> False
     | Some m \<Rightarrow> length m \<le> 20 \<and>
         list_all (\<lambda>(k, w). lang_text k \<and> string_ok (idx w ''title'') 1 100 True \<and>
                             string_ok (idx w ''body'') 1 500 True) m)"

definition notice :: "json \<Rightarrow> bool" where
  "notice v \<longleftrightarrow> v = JNull \<or>
     (is_object v \<and> str_such event_text (idx v ''eventId'') \<and> integer (idx v ''at'') \<and>
      ids_ok (idx v ''to'') 64 False \<and> string_ok (idx v ''title'') 1 100 False \<and>
      string_ok (idx v ''body'') 1 500 False \<and> optional v ''translations'' translations_ok)"

primrec bounded :: "json \<Rightarrow> nat \<Rightarrow> bool" where
  "bounded JNull d = (d \<le> 32)"
| "bounded (JBool b) d = (d \<le> 32)"
| "bounded (JNum n) d = (d \<le> 32)"
| "bounded (JStr s) d = (d \<le> 32)"
| "bounded (JArr a) d = (d \<le> 32 \<and> list_all (\<lambda>f. f (d + 1)) (map bounded a))"
| "bounded (JObj m) d =
     (d \<le> 32 \<and> list_all (\<lambda>(k, f). f (d + 1)) (map (map_prod id bounded) m))"

section \<open>Messages\<close>

definition name_ok :: "json \<Rightarrow> bool" where
  "name_ok v = string_ok v 1 64 True"

definition cap_ok :: "nat \<Rightarrow> json \<Rightarrow> bool" where
  "cap_ok room_max v \<longleftrightarrow> integer v \<and>
     (case as_f64 v of None \<Rightarrow> False | Some n \<Rightarrow> 1 \<le> n \<and> n \<le> of_nat (f64_of_nat room_max))"

definition positive :: "json \<Rightarrow> bool" where
  "positive v = (case as_f64 v of None \<Rightarrow> False | Some n \<Rightarrow> n > 0)"

definition method_of :: "json \<Rightarrow> string" where
  "method_of v = (case as_str (idx v ''method'') of None \<Rightarrow> '''' | Some m \<Rightarrow> m)"

text \<open>The match on the method: what its \<open>data\<close> must be.\<close>

definition data_ok :: "json \<Rightarrow> string \<Rightarrow> json \<Rightarrow> nat \<Rightarrow> nat \<Rightarrow> bool" where
  "data_ok v m d room_max accounts =
     (let obj = is_object d in
      if m = ''getModerationTicket'' then
        obj \<and> uuid (idx d ''requestId'') \<and> uuid (idx d ''target'') \<and> uuid (idx d ''room'')
      else if m = ''getSavedRooms'' then obj \<and> ids_ok (idx d ''ids'') 20 False
      else if m = ''getSession'' then obj \<and> uuid (idx d ''requestId'')
      else if m = ''getSessionChunk'' then
        obj \<and> uuid (idx d ''requestId'') \<and> integer (idx d ''revision'') \<and> integer (idx d ''offset'')
      else if m = ''beginSession'' then
        obj \<and> uuid (idx d ''requestId'') \<and> integer (idx d ''revision'') \<and>
        integer (idx d ''generation'') \<and> integer (idx d ''size'') \<and> positive (idx d ''size'')
      else if m = ''commitSession'' then
        obj \<and> uuid (idx d ''requestId'') \<and> required d ''scheduled'' notice \<and>
        required d ''immediate'' notice
      else if m = ''authenticate'' then
        obj \<and> optional d ''name'' name_ok \<and> optional d ''playerId'' uuid \<and>
        optional d ''password'' (\<lambda>w. string_ok w 0 128 False)
      else if m = ''Pong'' then is_number d
      else if m = ''setPushDevice'' then
        obj \<and> uuid (idx d ''deviceId'') \<and> optional d ''language'' (str_such lang_text) \<and>
        is_boolean (idx d ''foreground'') \<and> getk d ''token'' \<noteq> None \<and>
        (idx d ''token'' = JNull \<or> str_such token_text (idx d ''token''))
      else if m = ''notifyPlayers'' then
        obj \<and> ids_ok (idx d ''to'') accounts True \<and> idx d ''to'' \<noteq> JArr [] \<and>
        str_such event_text (idx d ''eventId'') \<and> string_ok (idx d ''title'') 1 100 True \<and>
        string_ok (idx d ''body'') 1 500 True \<and> optional d ''translations'' translations_ok
      else if m = ''getRooms'' then d = JNull \<or> (obj \<and> optional d ''after'' uuid)
      else if m \<in> {''leaveRoom'', ''requestGameState'', ''openUdp'', ''closeUdp''} then d = JNull
      else if m = ''getPlayers'' then d = JNull \<or> ids_ok d accounts True
      else if m = ''changeName'' then name_ok d
      else if m = ''sendChatMsg'' then string_ok d 0 2048 False
      else if m = ''enterRoom'' then obj \<and> uuid (idx d ''roomId'') \<and> password_ok (idx d ''password'')
      else if m = ''createRoom'' then
        obj \<and> optional d ''binaryRelay'' is_boolean \<and> name_ok (idx d ''name'') \<and>
        cap_ok room_max (idx d ''maxPlayers'') \<and> password_ok (idx d ''password'')
      else if m = ''updateRoom'' then
        obj \<and> list_ex (\<lambda>k. getk d k \<noteq> None) [''name'', ''maxPlayers'', ''password'', ''joinClosed''] \<and>
        optional d ''joinClosed'' is_boolean \<and> optional d ''name'' name_ok \<and>
        optional d ''maxPlayers'' (cap_ok room_max) \<and> password_ok (idx d ''password'')
      else if m = ''shareGameState'' then
        obj \<and> getk d ''gamestate'' \<noteq> None \<and> optional d ''to'' (\<lambda>w. ids_ok w accounts True)
      else if m = ''sendTo'' then
        obj \<and> ids_ok (idx d ''to'') accounts True \<and> getk d ''msg'' \<noteq> None
      else if m \<in> {''startGame'', ''sendToRoom'', ''setRoomMeta''} then getk v ''data'' \<noteq> None
      else False)"

definition validate :: "json \<Rightarrow> nat \<Rightarrow> nat \<Rightarrow> bool" where
  "validate v room_max accounts \<longleftrightarrow>
     is_object v \<and> bounded v 0 \<and>
     data_ok v (method_of v) (idx v ''data'') room_max accounts"

section \<open>Numbers\<close>

lemma bit_width_bounds:
  "n > 0 \<Longrightarrow> 2 ^ (bit_width n - 1) \<le> n \<and> n < 2 ^ bit_width n \<and> bit_width n > 0"
proof (induction n rule: bit_width.induct)
  case (1 n)
  show ?case
  proof (cases "n div 2 = 0")
    case True
    with 1(2) have "n = 1" by simp
    then show ?thesis by (simp add: bit_width.simps)
  next
    case False
    with 1 have IH: "2 ^ (bit_width (n div 2) - 1) \<le> n div 2" "n div 2 < 2 ^ bit_width (n div 2)"
      "bit_width (n div 2) > 0" by simp_all
    from IH(3) obtain m where "bit_width (n div 2) = Suc m" by (cases "bit_width (n div 2)") auto
    with IH 1(2) show ?thesis by (subst (1 2 3) bit_width.simps) auto
  qed
qed

lemma bit_width_unique: "2 ^ m \<le> n \<Longrightarrow> n < 2 ^ Suc m \<Longrightarrow> bit_width n = Suc m"
proof -
  assume n: "2 ^ m \<le> n" "n < 2 ^ Suc m"
  then have "n > 0" using less_le_trans [of 0 "2 ^ m" n] by simp
  from bit_width_bounds [OF this] obtain w where
    w: "bit_width n = Suc w" "2 ^ w \<le> n" "n < 2 ^ Suc w" by (cases "bit_width n") auto
  from w n have "2 ^ m < (2::nat) ^ Suc w" "2 ^ w < (2::nat) ^ Suc m" by (auto intro: le_less_trans)
  then have "m < Suc w" "w < Suc m" by (simp_all only: power_strict_increasing_iff one_less_numeral_iff
        semiring_norm)
  with w show ?thesis by simp
qed

text \<open>
  An integer from \<open>2\<^sup>5\<^sup>3\<close> on is rounded to a multiple \<open>r * 2\<^sup>k\<close> with a 53-bit \<open>r\<close>; rounding
  such a multiple again changes nothing.
\<close>

lemma round_even_exact: "k > 0 \<Longrightarrow> round_even k (r * 2 ^ k) = r"
  by (simp add: round_even_def Let_def)

lemma f64_of_nat_shape:
  assumes "2 ^ 53 \<le> n"
  obtains k r where "k > 0" "2 ^ 52 \<le> r" "r \<le> 2 ^ 53" "f64_of_nat n = r * 2 ^ k"
proof -
  have "n > 0" using assms less_le_trans [of 0 "2 ^ 53" n] by simp
  from bit_width_bounds [OF this] obtain w where
    w: "bit_width n = Suc w" "2 ^ w \<le> n" "n < 2 ^ Suc w" by (cases "bit_width n") auto
  from assms w(3) have "(2::nat) ^ 53 < 2 ^ Suc w" by (rule le_less_trans)
  then have "53 < Suc w" by (rule power_less_imp_less_exp [rotated]) simp
  then obtain k where k: "w = 52 + k" "k > 0" by (metis Suc_less_eq add_Suc_right
        add_Suc less_imp_add_positive numeral_eq_Suc pred_numeral_simps(2,3) semiring_norm(26,27,28))
  let ?r = "round_even k n"
  have lo: "2 ^ 52 \<le> n div 2 ^ k" using w(2) k by (simp add: less_eq_div_iff_mult_less_eq power_add)
  have hi: "n div 2 ^ k < 2 ^ 53" using w(3) k by (simp add: div_less_iff_less_mult power_add)
  from lo hi have "2 ^ 52 \<le> ?r" "?r \<le> 2 ^ 53" by (auto simp: round_even_def Let_def)
  moreover from assms w(1) k have "f64_of_nat n = ?r * 2 ^ k"
    by (simp add: f64_of_nat_def Let_def)
  ultimately show thesis using k(2) that by blast
qed

lemma f64_of_nat_multiple:
  assumes "k > 0" "2 ^ 52 \<le> r" "r \<le> 2 ^ 53"
  shows "f64_of_nat (r * 2 ^ k) = r * 2 ^ k"
proof -
  have big: "\<not> r * 2 ^ k < 2 ^ 53"
  proof -
    from assms have "(2::nat) ^ 52 * 2 \<le> r * 2 ^ k"
      by (intro mult_le_mono) (auto simp: self_le_power)
    then show ?thesis by simp
  qed
  show ?thesis
  proof (cases "r = 2 ^ 53")
    case True
    have "bit_width (r * 2 ^ k) = Suc (53 + k)"
      by (rule bit_width_unique) (simp_all add: True power_add)
    moreover have "round_even (Suc k) (r * 2 ^ k) = 2 ^ 52"
      using round_even_exact [of "Suc k" "2 ^ 52"] by (simp add: True mult.commute)
    ultimately show ?thesis using big True by (simp add: f64_of_nat_def Let_def)
  next
    case False
    with assms have "r < 2 ^ 53" by simp
    with assms have "bit_width (r * 2 ^ k) = Suc (52 + k)"
      by (intro bit_width_unique) (simp_all add: power_add)
    with big assms show ?thesis by (simp add: f64_of_nat_def Let_def round_even_exact)
  qed
qed

lemma f64_of_nat_idem [simp]: "f64_of_nat (f64_of_nat n) = f64_of_nat n"
proof (cases "n < 2 ^ 53")
  case True
  then show ?thesis by (simp add: f64_of_nat_def)
next
  case False
  then obtain k r where "k > 0" "2 ^ 52 \<le> r" "r \<le> 2 ^ 53" "f64_of_nat n = r * 2 ^ k"
    by (metis f64_of_nat_shape not_less)
  then show ?thesis by (metis f64_of_nat_multiple)
qed

lemma f64_of_nat_small: "f64_of_nat n < 2 ^ 53 \<Longrightarrow> n < 2 ^ 53"
proof (rule ccontr)
  assume less: "f64_of_nat n < 2 ^ 53" and "\<not> n < 2 ^ 53"
  then obtain k r where kr: "k > 0" "2 ^ 52 \<le> r" "f64_of_nat n = r * 2 ^ k"
    by (metis f64_of_nat_shape not_less)
  then have "(2::nat) ^ 52 * 2 \<le> r * 2 ^ k"
    by (intro mult_le_mono) (auto simp: self_le_power)
  with less kr show False by simp
qed

lemma f64_of_nat_exact: "n < 2 ^ 53 \<Longrightarrow> f64_of_nat n = n"
  by (simp add: f64_of_nat_def)

text \<open>
  The numbers a parser can produce: integers of 64 bits, and doubles. A double that is a
  whole number is one that rounding leaves alone.
\<close>

fun num_wf :: "jnum \<Rightarrow> bool" where
  "num_wf (PosInt n) = (n < 2 ^ 64)"
| "num_wf (NegInt i) = (- (2 ^ 63) \<le> i \<and> i < 0)"
| "num_wf (Flt q) = (whole q \<longrightarrow> f64_of_nat (nat \<bar>\<lfloor>q\<rfloor>\<bar>) = nat \<bar>\<lfloor>q\<rfloor>\<bar>)"

primrec json_wf :: "json \<Rightarrow> bool" where
  "json_wf JNull = True"
| "json_wf (JBool b) = True"
| "json_wf (JNum n) = num_wf n"
| "json_wf (JStr s) = True"
| "json_wf (JArr a) = list_all id (map json_wf a)"
| "json_wf (JObj m) = list_all snd (map (map_prod id json_wf) m)"

lemma whole_floor: "whole q \<Longrightarrow> of_int \<lfloor>q\<rfloor> = q"
  by (simp add: whole_def)

lemma of_nat_nat_floor: "whole q \<Longrightarrow> 0 \<le> q \<Longrightarrow> of_nat (nat \<lfloor>q\<rfloor>) = q"
  by (metis of_int_of_nat_eq int_nat_eq whole_floor zero_le_floor)

lemma num_f64_normalize_num: "num_wf n \<Longrightarrow> num_f64 (normalize_num n) = num_f64 n"
proof (cases n)
  case (PosInt a)
  show ?thesis
  proof (cases "(of_nat (f64_of_nat a) :: rat) < 2 ^ 64")
    case True
    with PosInt show ?thesis by (simp add: normalize_num_def num_f64_def Let_def)
  next
    case False
    with PosInt show ?thesis by (simp add: normalize_num_def num_f64_def Let_def)
  qed
next
  case (NegInt i)
  let ?m = "f64_of_nat (nat (- i))"
  have fl: "\<lfloor>- (of_nat ?m :: rat)\<rfloor> = - int ?m"
    by (metis floor_of_int of_int_minus of_int_of_nat_eq)
  show ?thesis
  proof (cases "?m = 0")
    case True
    with NegInt show ?thesis by (simp add: normalize_num_def num_f64_def Let_def f64_of_nat_def)
  next
    case False
    with NegInt fl show ?thesis by (simp add: normalize_num_def num_f64_def Let_def)
  qed
next
  case (Flt q)
  assume wf: "num_wf n"
  show ?thesis
  proof (cases "whole q")
    case True
    define i where "i = \<lfloor>q\<rfloor>"
    with True have q: "q = of_int i" by (simp add: whole_floor)
    with wf Flt have r: "f64_of_nat (nat \<bar>i\<bar>) = nat \<bar>i\<bar>" by simp
    show ?thesis
    proof (cases "0 \<le> i")
      case True
      with r q Flt show ?thesis by (auto simp: normalize_num_def num_f64_def Let_def)
    next
      case False
      with r have "f64_of_nat (nat (- i)) = nat (- i)" by simp
      with False q Flt show ?thesis by (auto simp: normalize_num_def num_f64_def Let_def)
    qed
  next
    case False
    with Flt show ?thesis by (simp add: normalize_num_def num_f64_def Let_def)
  qed
qed

lemma normalize_num_cong: "num_f64 m = num_f64 n \<Longrightarrow> normalize_num m = normalize_num n"
  by (simp add: normalize_num_def)

lemma normalize_num_idem: "num_wf n \<Longrightarrow> normalize_num (normalize_num n) = normalize_num n"
  by (rule normalize_num_cong) (rule num_f64_normalize_num)

lemma normalize_idem: "json_wf v \<Longrightarrow> normalize (normalize v) = normalize v"
proof (induction v)
  case (JObj m)
  then have "normalize (normalize w) = normalize w" if "(k, w) \<in> set m" for k w
    using that by (fastforce simp: list_all_iff)
  then show ?case by auto
qed (auto simp: normalize_num_idem list_all_iff)

lemma getk_normalize: "getk (normalize v) k = map_option normalize (getk v k)"
proof (cases v)
  case (JObj m)
  have "map_of (map (map_prod id normalize) m) k = map_option normalize (map_of m k)"
    by (induction m) auto
  with JObj show ?thesis by simp
qed auto

lemma idx_normalize: "idx (normalize v) k = normalize (idx v k)"
  by (simp add: idx_def getk_normalize split: option.splits)

lemma is_object_normalize [simp]: "is_object (normalize v) = is_object v"
  by (cases v) (auto simp: is_object_def)

text \<open>
  In a parsed message every value that passes \<^const>\<open>integer\<close> is stored as an integer below
  \<open>2\<^sup>5\<^sup>3\<close>, so the handlers' \<open>as_u64().unwrap()\<close> cannot fail on it.
\<close>

lemma integer_normalize:
  assumes "integer (normalize v)"
  obtains n where "normalize v = jnat n" "n < 2 ^ 53"
proof -
  from assms obtain a where v: "v = JNum a" by (cases v) (auto simp: integer_def)
  let ?f = "num_f64 a"
  show thesis
  proof (cases "normalize_num a")
    case (PosInt n)
    with v assms have "(of_nat (f64_of_nat n) :: rat) \<le> of_nat 9007199254740991"
      by (simp add: integer_def num_f64_def)
    then have "f64_of_nat n \<le> 9007199254740991" by (simp only: of_nat_le_iff)
    then have "n < 2 ^ 53" by (rule f64_of_nat_small [OF le_less_trans]) simp
    with v PosInt that show thesis by simp
  next
    case (NegInt i)
    then have "i < 0"
      by (auto simp: normalize_num_def Let_def split: if_splits)
    from NegInt v assms have "f64_of_nat (nat (- i)) = 0"
      by (auto simp: integer_def num_f64_def)
    then have "nat (- i) = 0"
      by (metis f64_of_nat_exact f64_of_nat_small zero_less_numeral zero_less_power)
    with \<open>i < 0\<close> show thesis by simp
  next
    case (Flt q)
    with v assms have q: "0 \<le> q" "q \<le> 9007199254740991" "whole q"
      by (simp_all add: integer_def num_f64_def)
    from Flt have "q = ?f" "\<not> (whole ?f \<and> ?f \<ge> 0 \<and> ?f < 2 ^ 64)"
      by (auto simp: normalize_num_def Let_def split: if_splits)
    with q show thesis by simp
  qed
qed

section \<open>Nesting depth\<close>

text \<open>\<open>bounded\<close> against the nesting depth of the value.\<close>

primrec nesting :: "json \<Rightarrow> nat" where
  "nesting JNull = 0"
| "nesting (JBool b) = 0"
| "nesting (JNum n) = 0"
| "nesting (JStr s) = 0"
| "nesting (JArr a) = foldr max (map (\<lambda>n. Suc n) (map nesting a)) 0"
| "nesting (JObj m) = foldr max (map (\<lambda>(k, n). Suc n) (map (map_prod id nesting) m)) 0"

lemma foldr_max_le: "foldr max ns 0 \<le> b \<longleftrightarrow> (\<forall>n \<in> set ns. n \<le> (b :: nat))"
  by (induction ns) auto

lemma bounded_nesting: "bounded v d \<longleftrightarrow> d + nesting v \<le> 32"
proof (induction v arbitrary: d)
  case (JArr a)
  then have "bounded (JArr a) d \<longleftrightarrow> d \<le> 32 \<and> (\<forall>v \<in> set a. d + 1 + nesting v \<le> 32)"
    by (auto simp: list_all_iff)
  also have "\<dots> \<longleftrightarrow> d \<le> 32 \<and> nesting (JArr a) \<le> 32 - d"
    by (auto simp: foldr_max_le)
  finally show ?case by auto
next
  case (JObj m)
  have IH: "bounded v (d + 1) \<longleftrightarrow> d + 1 + nesting v \<le> 32" if "(k, v) \<in> set m" for k v
    using that JObj.IH by fastforce
  have "bounded (JObj m) d \<longleftrightarrow> d \<le> 32 \<and> (\<forall>(k, v) \<in> set m. bounded v (d + 1))"
    by (auto simp: list_all_iff)
  also have "\<dots> \<longleftrightarrow> d \<le> 32 \<and> (\<forall>(k, v) \<in> set m. d + 1 + nesting v \<le> 32)"
    using IH by auto
  also have "\<dots> \<longleftrightarrow> d \<le> 32 \<and> nesting (JObj m) \<le> 32 - d"
    by (fastforce simp: foldr_max_le)
  finally show ?case by auto
qed auto

section \<open>Lengths\<close>

text \<open>
  \<open>len\<close> counts what it should: for the UTF-8 text of any code points it is the number of
  their UTF-16 units.
\<close>

definition utf8_encode :: "nat \<Rightarrow> nat list" where
  "utf8_encode c =
     (if c < 128 then [c]
      else if c < 2048 then [192 + c div 64, 128 + c mod 64]
      else if c < 65536 then [224 + c div 4096, 128 + c div 64 mod 64, 128 + c mod 64]
      else [240 + c div 262144, 128 + c div 4096 mod 64, 128 + c div 64 mod 64, 128 + c mod 64])"

lemma cont_Cons [simp]:
  "cont (b # bs) 0 = b - 128" "cont (b # bs) 1 = cont bs 0" "cont (b # bs) 2 = cont bs 1"
  "cont (b # bs) (Suc 0) = cont bs 0"
  by (simp_all add: cont_def)

lemma utf8_decode_encode_append:
  assumes "c < 1114112"
  shows "utf8_decode (utf8_encode c @ bs) = c # utf8_decode bs"
proof -
  have 1: "c div 64 * 64 + c mod 64 = c" by simp
  have 2: "c div 4096 * 4096 + c div 64 mod 64 * 64 + c mod 64 = c"
  proof -
    have "c div 4096 = c div 64 div 64" by (simp add: div_mult2_eq [symmetric])
    then show ?thesis using div_mult_mod_eq [of "c div 64" 64] div_mult_mod_eq [of c 64] by linarith
  qed
  have 3: "c div 262144 * 262144 + c div 4096 mod 64 * 4096 + c div 64 mod 64 * 64 + c mod 64 = c"
  proof -
    have "c div 262144 = c div 4096 div 64" by (simp add: div_mult2_eq [symmetric])
    then show ?thesis using div_mult_mod_eq [of "c div 4096" 64] 2 by linarith
  qed
  consider "c < 128" | "128 \<le> c" "c < 2048" | "2048 \<le> c" "c < 65536" | "65536 \<le> c" by linarith
  then show ?thesis
  proof cases
    case 2
    then have "c div 64 < 32" by simp
    with 2 show ?thesis by (simp add: utf8_encode_def 1)
  next
    case 3
    then have "c div 4096 < 16" by simp
    with 3 show ?thesis by (simp add: utf8_encode_def 2)
  next
    case 4
    have "c div 262144 < 8" using assms by simp
    with 4 show ?thesis by (simp add: utf8_encode_def 3)
  qed (simp add: utf8_encode_def)
qed

lemma utf8_decode_encode:
  "list_all (\<lambda>c. c < 1114112) cs \<Longrightarrow> utf8_decode (concat (map utf8_encode cs)) = cs"
  by (induction cs) (auto simp: utf8_decode_encode_append)

end
