(* ===== verification/Model.thy ===== *)
theory Model
  imports Protocol
begin

text \<open>
  The data model (\<open>rust/model.rs\<close>), the configuration's accessors (\<open>rust/config.rs\<close>) and the
  outside world the code reads from.

  The world is a record of streams: the readings of the clock, the UUIDs and random bytes
  the generators return, and whether each file-system call succeeds. An operation that reads
  one takes the next element and advances the position, so nothing is assumed about the
  clock's progress, about randomness or about the disk; what a theorem needs of them is a
  hypothesis on the streams.
\<close>

section \<open>The world\<close>

record world =
  w_clock :: "nat \<Rightarrow> nat"
  w_ticks :: nat
  w_ids :: "nat \<Rightarrow> string"
  w_drawn :: nat
  w_random :: "nat \<Rightarrow> bytes"
  w_rolls :: nat
  w_disk :: "nat \<Rightarrow> bool"
  w_calls :: nat

definition now :: "world \<Rightarrow> nat \<times> world" where
  "now w = (w_clock w (w_ticks w), w\<lparr>w_ticks := Suc (w_ticks w)\<rparr>)"

definition new_id :: "world \<Rightarrow> string \<times> world" where
  "new_id w = (w_ids w (w_drawn w), w\<lparr>w_drawn := Suc (w_drawn w)\<rparr>)"

definition random_bytes :: "world \<Rightarrow> bytes \<times> world" where
  "random_bytes w = (w_random w (w_rolls w), w\<lparr>w_rolls := Suc (w_rolls w)\<rparr>)"

definition disk :: "world \<Rightarrow> bool \<times> world" where
  "disk w = (w_disk w (w_calls w), w\<lparr>w_calls := Suc (w_calls w)\<rparr>)"

text \<open>The ids not drawn yet, from a given position of the stream on.\<close>

definition future_ids :: "world \<Rightarrow> string set" where
  "future_ids w = {w_ids w n | n. n \<ge> w_drawn w}"

lemma future_ids_frame [simp]:
  "future_ids (snd (now w)) = future_ids w"
  "future_ids (snd (random_bytes w)) = future_ids w"
  "future_ids (snd (disk w)) = future_ids w"
  by (simp_all add: future_ids_def now_def random_bytes_def disk_def)

lemma future_ids_new_id: "future_ids (snd (new_id w)) \<subseteq> future_ids w"
  by (auto simp: future_ids_def new_id_def intro: Suc_leD)

lemma new_id_future: "fst (new_id w) \<in> future_ids w"
  by (auto simp: future_ids_def new_id_def)

section \<open>Configuration\<close>

type_synonym config = json

definition cfg_n :: "config \<Rightarrow> string \<Rightarrow> nat" where
  "cfg_n c k = (case as_u64 (idx c k) of Some n \<Rightarrow> n | None \<Rightarrow> 0)"

definition cfg_b :: "config \<Rightarrow> string \<Rightarrow> bool" where
  "cfg_b c k = (case as_bool (idx c k) of Some b \<Rightarrow> b | None \<Rightarrow> False)"

definition cfg_s :: "config \<Rightarrow> string \<Rightarrow> string" where
  "cfg_s c k = (case as_str (idx c k) of Some s \<Rightarrow> s | None \<Rightarrow> '''')"

section \<open>Players\<close>

record player =
  p_id :: string
  p_name :: string
  p_password :: string
  p_connection :: "nat option"
  p_room :: "string option"
  p_entered :: "nat option"
  p_rtt :: "nat option"
  p_offline :: "nat option"
  p_version :: nat
  p_devices :: "(string, json) imap"

definition player_new :: "externals \<Rightarrow> string \<Rightarrow> world \<Rightarrow> player \<times> world" where
  "player_new X name w0 =
     (let (secret, w1) = random_bytes w0; (i, w2) = new_id w1; (t, w3) = now w2
      in (\<lparr>p_id = i, p_name = name, p_password = x_b64url X secret, p_connection = None,
           p_room = None, p_entered = None, p_rtt = None, p_offline = Some t,
           p_version = 0, p_devices = []\<rparr>, w3))"

definition player_dto :: "player \<Rightarrow> json" where
  "player_dto p = JObj [(''playerId'', JStr (p_id p)), (''name'', JStr (p_name p)),
     (''rtt'', jopt (p_rtt p)), (''roomEntryTimestamp'', jopt (p_entered p))]"

section \<open>Rooms\<close>

record upload =
  u_id :: string
  u_owner :: string
  u_generation :: nat
  u_revision :: nat
  u_bytes :: bytes
  u_offset :: nat
  u_at :: nat

record room =
  r_id :: string
  r_name :: string
  r_owner :: string
  r_max :: nat
  r_password :: json
  r_game :: json
  r_meta :: json
  r_active :: "string list"
  r_reservations :: "string list"
  r_players :: "string list"
  r_events :: "string list"
  r_started :: bool
  r_closed :: bool
  r_fixed :: bool
  r_migration :: bool
  r_generation :: nat
  r_binary :: bool
  r_persistent :: bool
  r_start :: json
  r_state :: bytes
  r_revision :: nat
  r_updated :: nat
  r_upload :: "upload option"
  r_last_push :: nat

definition room_new ::
  "string \<Rightarrow> string \<Rightarrow> nat \<Rightarrow> json \<Rightarrow> json \<Rightarrow> world \<Rightarrow> room \<times> world" where
  "room_new name owner cap password game w0 =
     (let (i, w1) = new_id w0; (t, w2) = now w1
      in (\<lparr>r_id = i, r_name = name, r_owner = owner, r_max = cap, r_password = password,
           r_game = game, r_meta = JNull, r_active = [], r_reservations = [], r_players = [],
           r_events = [], r_started = False, r_closed = False, r_fixed = False,
           r_migration = False, r_generation = 0, r_binary = False, r_persistent = False,
           r_start = JNull, r_state = [], r_revision = 0, r_updated = t, r_upload = None,
           r_last_push = 0\<rparr>, w2))"

definition rejoin :: "room \<Rightarrow> string \<Rightarrow> bool" where
  "rejoin r p = (if r_fixed r then p \<in> set (r_players r) else p \<in> set (r_reservations r))"

definition room_dto :: "room \<Rightarrow> nat option \<Rightarrow> json" where
  "room_dto r rtt =
     (let v0 = JObj [(''roomId'', JStr (r_id r)), (''ownerId'', JStr (r_owner r)),
                (''name'', JStr (r_name r)), (''players'', jstrs (r_active r)),
                (''maxPlayers'', jnat (r_max r)), (''hasPassword'', JBool (r_password r \<noteq> JNull)),
                (''gameData'', r_game r), (''gameStarted'', JBool (r_started r)),
                (''joinClosed'', JBool (r_closed r)), (''rtt'', jopt rtt), (''metaData'', r_meta r)];
          v1 = (if r_migration r then setk ''hostGeneration'' (jnat (r_generation r)) v0 else v0);
          v2 = (if r_binary r then setk ''binaryRelay'' (JBool True) v1 else v1)
      in if r_persistent r
         then setk ''participants'' (jstrs (r_players r)) (setk ''persistent'' (JBool True) v2)
         else v2)"

definition header :: "room \<Rightarrow> json" where
  "header r = JObj [(''version'', jnat 1), (''roomId'', JStr (r_id r)), (''name'', JStr (r_name r)),
     (''ownerId'', JStr (r_owner r)), (''maxPlayers'', jnat (r_max r)),
     (''password'', r_password r), (''gameData'', r_game r), (''metaData'', r_meta r),
     (''startData'', r_start r), (''players'', jstrs (r_players r)),
     (''generation'', jnat (r_generation r)), (''binaryRelay'', JBool (r_binary r)),
     (''revision'', jnat (r_revision r)), (''updatedAt'', jnat (r_updated r)),
     (''events'', jstrs (r_events r))]"

text \<open>
  A room keeps its own books: no member twice, no more members than its capacity, an owner
  who is a member while it has any, the original roster behind a fixed one, and the flags
  set by starting a game in the order in which they imply one another.
\<close>

definition room_ok :: "room \<Rightarrow> bool" where
  "room_ok r \<longleftrightarrow>
     distinct (r_active r) \<and> length (r_active r) \<le> r_max r \<and>
     (r_active r \<noteq> [] \<longrightarrow> r_owner r \<in> set (r_active r)) \<and>
     (r_persistent r \<longrightarrow> r_migration r) \<and> (r_migration r \<longrightarrow> r_fixed r) \<and>
     (r_fixed r \<longrightarrow> r_started r \<and> set (r_active r) \<subseteq> set (r_players r))"

text \<open>No client-visible view of a room carries its password, and none of a player its secret.\<close>

lemma room_dto_password_independent:
  "room_dto (r\<lparr>r_password := JStr a\<rparr>) rtt = room_dto (r\<lparr>r_password := JStr b\<rparr>) rtt"
  by (simp add: room_dto_def Let_def)

lemma player_dto_secret_independent:
  "player_dto (p\<lparr>p_password := a, p_devices := ds\<rparr>) = player_dto p"
  by (simp add: player_dto_def)

end
