(* ===== verification/Admission.thy ===== *)
theory Admission
  imports Model
begin

text \<open>
  Admission control of TCP connections (\<open>rust/admission.rs\<close>). The tracker is shared behind a
  mutex, so its operations are atomic; a \<open>Permit\<close> is the right to one connection and gives
  its slot back when it is dropped. A run of the listener is a sequence of \<open>acquire\<close> and
  \<open>drop\<close> calls in any order, with the permits that are outstanding.
\<close>

record admission =
  a_active :: "(string, nat) imap"
  a_total :: nat
  a_attempts :: "(string, nat \<times> nat) imap"

definition admission_default :: admission where
  "admission_default = \<lparr>a_active = [], a_total = 0, a_attempts = []\<rparr>"

definition count_of :: "(string, nat) imap \<Rightarrow> string \<Rightarrow> nat" where
  "count_of m ip = (case map_of m ip of Some n \<Rightarrow> n | None \<Rightarrow> 0)"

text \<open>\<open>acquire\<close> at time \<open>t\<close>: the new tracker and whether a permit is granted.\<close>

definition acquire :: "config \<Rightarrow> nat \<Rightarrow> string \<Rightarrow> admission \<Rightarrow> bool \<times> admission" where
  "acquire cfg t ip s =
     (let att = filter (\<lambda>(_, since, _). t - since < 60000) (a_attempts s) in
      if map_of att ip = None \<and> length att \<ge> cfg_n cfg ''maxConnections'' * 4
      then (False, s\<lparr>a_attempts := att\<rparr>)
      else
        let (since, n) = (case map_of att ip of Some e \<Rightarrow> e | None \<Rightarrow> (t, 0));
            n' = min (n + 1) usize_max;
            s1 = s\<lparr>a_attempts := AList.update ip (since, n') att\<rparr>
        in if n' > cfg_n cfg ''maxConnectionsPerMinute'' \<or>
              a_total s1 \<ge> cfg_n cfg ''maxConnections'' \<or>
              count_of (a_active s1) ip \<ge> cfg_n cfg ''maxConnectionsPerIp''
           then (False, s1)
           else (True, s1\<lparr>a_total := a_total s1 + 1,
                          a_active := AList.update ip (count_of (a_active s1) ip + 1)
                                        (a_active s1)\<rparr>))"

definition drop_permit :: "string \<Rightarrow> admission \<Rightarrow> admission" where
  "drop_permit ip s =
     (let s1 = s\<lparr>a_total := a_total s - 1\<rparr> in
      case map_of (a_active s1) ip of
        None \<Rightarrow> s1
      | Some n \<Rightarrow>
          if n - 1 = 0 then s1\<lparr>a_active := AList.delete ip (a_active s1)\<rparr>
          else s1\<lparr>a_active := AList.update ip (n - 1) (a_active s1)\<rparr>)"

text \<open>The tracker together with the addresses of the permits in existence.\<close>

inductive admits :: "config \<Rightarrow> admission \<times> string list \<Rightarrow> bool" for cfg where
  start: "admits cfg (admission_default, [])"
| granted: "admits cfg (s, ps) \<Longrightarrow> acquire cfg t ip s = (True, s') \<Longrightarrow> admits cfg (s', ip # ps)"
| refused: "admits cfg (s, ps) \<Longrightarrow> acquire cfg t ip s = (False, s') \<Longrightarrow> admits cfg (s', ps)"
| dropped: "admits cfg (s, ps) \<Longrightarrow> ip \<in> set ps \<Longrightarrow> admits cfg (drop_permit ip s, remove1 ip ps)"

text \<open>
  What the tracker knows of the permits: \<open>total\<close> is their number, \<open>active\<close> counts them by
  address with no zero entry, and the limits hold.
\<close>

definition admission_inv :: "config \<Rightarrow> admission \<Rightarrow> string list \<Rightarrow> bool" where
  "admission_inv cfg s ps \<longleftrightarrow>
     imap_ok (a_active s) \<and> imap_ok (a_attempts s) \<and>
     a_total s = length ps \<and> a_total s \<le> cfg_n cfg ''maxConnections'' \<and>
     (\<forall>ip. map_of (a_active s) ip = (if ip \<in> set ps then Some (count_list ps ip) else None)) \<and>
     (\<forall>ip. count_list ps ip \<le> cfg_n cfg ''maxConnectionsPerIp'') \<and>
     length (a_attempts s) \<le> cfg_n cfg ''maxConnections'' * 4"

lemma length_update:
  "length (AList.update k v m) = (if map_of m k = None then Suc (length m) else length m)"
  by (induction m) auto

lemma count_of_inv:
  "admission_inv cfg s ps \<Longrightarrow> count_of (a_active s) ip = count_list ps ip"
  by (auto simp: admission_inv_def count_of_def count_list_0_iff split: option.splits)

lemma count_list_remove1:
  "x \<in> set xs \<Longrightarrow> count_list (remove1 x xs) y = count_list xs y - (if x = y then 1 else 0)"
proof (induction xs)
  case (Cons a xs)
  then show ?case using count_list_0_iff [of xs y] by (auto simp: not_less)
qed simp

lemma set_remove1_count: "y \<in> set (remove1 x xs) \<longleftrightarrow> count_list (remove1 x xs) y \<noteq> 0"
  by (metis count_list_0_iff)

lemma acquire_inv:
  assumes inv: "admission_inv cfg s ps" and acq: "acquire cfg t ip s = (ok, s')"
  shows "admission_inv cfg s' (if ok then ip # ps else ps)"
proof -
  let ?att = "filter (\<lambda>(_, since, _). t - since < 60000) (a_attempts s)"
  have len: "length ?att \<le> cfg_n cfg ''maxConnections'' * 4"
    using inv length_filter_le order_trans unfolding admission_inv_def by blast
  have ok: "imap_ok ?att"
    using inv by (auto simp: admission_inv_def case_prod_unfold)
  show ?thesis
  proof (cases "map_of ?att ip = None \<and> length ?att \<ge> cfg_n cfg ''maxConnections'' * 4")
    case True
    with acq inv len ok show ?thesis by (auto simp: acquire_def Let_def admission_inv_def)
  next
    case False
    obtain since n where e: "(case map_of ?att ip of Some e \<Rightarrow> e | None \<Rightarrow> (t, 0)) = (since, n)"
      by fastforce
    let ?att' = "AList.update ip (since, min (n + 1) usize_max) ?att"
    have len': "length ?att' \<le> cfg_n cfg ''maxConnections'' * 4"
      using False len by (auto simp: length_update)
    have cnt: "count_of (a_active s) ip = count_list ps ip" using inv by (rule count_of_inv)
    from False acq e cnt have "s' = s\<lparr>a_attempts := ?att'\<rparr> \<and> \<not> ok \<or>
        s' = s\<lparr>a_attempts := ?att', a_total := a_total s + 1,
               a_active := AList.update ip (count_list ps ip + 1) (a_active s)\<rparr> \<and> ok \<and>
        a_total s < cfg_n cfg ''maxConnections'' \<and>
        count_list ps ip < cfg_n cfg ''maxConnectionsPerIp''"
      by (auto simp: acquire_def Let_def split: if_splits)
    then show ?thesis
      using inv len' ok by (auto simp: admission_inv_def update_conv' count_list_0_iff)
  qed
qed

lemma drop_permit_inv:
  assumes inv: "admission_inv cfg s ps" and ip: "ip \<in> set ps"
  shows "admission_inv cfg (drop_permit ip s) (remove1 ip ps)"
proof -
  let ?n = "count_list ps ip"
  have act: "map_of (a_active s) ip = Some ?n" using inv ip by (auto simp: admission_inv_def)
  have cnt: "count_list (remove1 ip ps) y = count_list ps y - (if ip = y then 1 else 0)" for y
    using ip by (rule count_list_remove1)
  have pos: "?n \<noteq> 0" using ip by (simp add: count_list_0_iff)
  then have mem: "y \<in> set (remove1 ip ps) \<longleftrightarrow> (if y = ip then ?n \<noteq> 1 else y \<in> set ps)" for y
    using count_list_0_iff [of ps y] by (auto simp: set_remove1_count cnt)
  have len: "length (remove1 ip ps) = length ps - 1" using ip by (simp add: length_remove1)
  have bound: "count_list (remove1 ip ps) y \<le> cfg_n cfg ''maxConnectionsPerIp''" for y
    using inv cnt [of y] by (auto simp: admission_inv_def intro: le_trans [OF diff_le_self])
  have active: "map_of (a_active (drop_permit ip s)) y =
      (if y \<in> set (remove1 ip ps) then Some (count_list (remove1 ip ps) y) else None)" for y
    using inv act pos by (auto simp: drop_permit_def Let_def admission_inv_def mem cnt
        update_conv' delete_conv')
  from inv act len bound active show ?thesis
    by (auto simp: admission_inv_def drop_permit_def Let_def)
qed

lemma admits_inv: "admits cfg (s, ps) \<Longrightarrow> admission_inv cfg s ps"
proof (induction "(s, ps)" arbitrary: s ps rule: admits.induct)
  case start
  then show ?case by (simp add: admission_inv_def admission_default_def)
next
  case (granted s ps t ip s')
  then show ?case using acquire_inv [of cfg s ps t ip True s'] by simp
next
  case (refused s ps t ip s')
  then show ?case using acquire_inv [of cfg s ps t ip False s'] by simp
next
  case (dropped s ps ip)
  then show ?case using drop_permit_inv by blast
qed

end
