(* ===== verification/Udp.thy ===== *)
theory Udp
  imports Model
begin

text \<open>
  The building blocks of the datagram channel (\<open>rust/udp.rs\<close>): the replay window, the
  one-second packet budgets, the UDP session and the wire format. The handler of incoming
  datagrams, which needs the whole server, is in theory \<open>Datagram\<close>.
\<close>

unbundle bit_operations_syntax

type_synonym u64 = "64 word"

section \<open>Replay window\<close>

record replay =
  rp_highest :: u64
  rp_bits :: u64

definition replay_default :: replay where
  "replay_default = \<lparr>rp_highest = 0, rp_bits = 0\<rparr>"

text \<open>\<open>1 << n\<close>\<close>

definition one_shl :: "nat \<Rightarrow> u64" where
  "one_shl n = push_bit n 1"

definition replay_accept :: "u64 \<Rightarrow> replay \<Rightarrow> bool \<times> replay" where
  "replay_accept sequence r =
     (if sequence = 0 then (False, r)
      else if sequence > rp_highest r then
        let shift = sequence - rp_highest r in
        (True, \<lparr>rp_highest = sequence,
                rp_bits = (if shift \<ge> 64 then 1 else push_bit (unat shift) (rp_bits r) OR 1)\<rparr>)
      else
        let distance = rp_highest r - sequence in
        if distance \<ge> 64 \<or> rp_bits r AND one_shl (unat distance) \<noteq> 0 then (False, r)
        else (True, r\<lparr>rp_bits := rp_bits r OR one_shl (unat distance)\<rparr>))"

fun replay_run :: "replay \<Rightarrow> u64 list \<Rightarrow> bool list" where
  "replay_run r [] = []"
| "replay_run r (n # ns) = (let (b, r') = replay_accept n r in b # replay_run r' ns)"

text \<open>
  The specification: the set of numbers accepted so far. A number is accepted when it is
  not zero, was not accepted before and is at most 63 below the highest accepted one.
\<close>

definition newest :: "nat set \<Rightarrow> nat" where
  "newest S = Max (insert 0 S)"

definition spec_accepts :: "nat set \<Rightarrow> nat \<Rightarrow> bool" where
  "spec_accepts S n \<longleftrightarrow> n \<noteq> 0 \<and> n \<notin> S \<and> newest S < n + 64"

fun spec_run :: "nat set \<Rightarrow> nat list \<Rightarrow> bool list" where
  "spec_run S [] = []"
| "spec_run S (n # ns) =
     spec_accepts S n # spec_run (if spec_accepts S n then insert n S else S) ns"

definition replay_rel :: "replay \<Rightarrow> nat set \<Rightarrow> bool" where
  "replay_rel r S \<longleftrightarrow> finite S \<and> 0 \<notin> S \<and> unat (rp_highest r) = newest S \<and>
     (\<forall>d < 64. bit (rp_bits r) d \<longleftrightarrow> d \<le> newest S \<and> newest S - d \<in> S)"

lemma newest_ge: "finite S \<Longrightarrow> n \<in> S \<Longrightarrow> n \<le> newest S"
  by (simp add: newest_def)

lemma newest_insert: "finite S \<Longrightarrow> newest (insert n S) = max n (newest S)"
  by (simp add: newest_def insert_commute [of 0 n])

lemma newest_insert_above: "finite S \<Longrightarrow> newest S < n \<Longrightarrow> newest (insert n S) = n"
  by (simp add: newest_insert)

lemma newest_insert_below: "finite S \<Longrightarrow> n \<le> newest S \<Longrightarrow> newest (insert n S) = newest S"
  by (simp add: newest_insert max_def)

lemma bit_one_shl: "d < 64 \<Longrightarrow> bit (one_shl n) d \<longleftrightarrow> d = n"
  by (auto simp: one_shl_def bit_push_bit_iff bit_1_iff simp del: push_bit_of_1)

lemma and_one_shl: "n < 64 \<Longrightarrow> w AND one_shl n \<noteq> 0 \<longleftrightarrow> bit w n"
proof -
  assume n: "n < 64"
  have "w AND one_shl n = 0 \<longleftrightarrow> (\<forall>d < 64. \<not> (bit w d \<and> d = n))"
    by (auto simp: bit_eq_iff bit_and_iff bit_one_shl)
  with n show ?thesis by auto
qed

lemma replay_above:
  assumes rel: "replay_rel r S" and gt: "rp_highest r < sequence"
  defines "shift \<equiv> sequence - rp_highest r"
  shows "replay_rel \<lparr>rp_highest = sequence,
     rp_bits = (if shift \<ge> 64 then 1 else push_bit (unat shift) (rp_bits r) OR 1)\<rparr>
     (insert (unat sequence) S)"
proof -
  let ?h = "newest S" and ?n = "unat sequence"
  from rel have fin: "finite S" and h: "unat (rp_highest r) = ?h" and z: "0 \<notin> S"
    and bits: "\<And>d. d < 64 \<Longrightarrow> bit (rp_bits r) d \<longleftrightarrow> d \<le> ?h \<and> ?h - d \<in> S"
    by (simp_all add: replay_rel_def)
  from gt h have less: "?h < ?n" by (simp add: word_less_nat_alt)
  from gt h have sh: "unat shift = ?n - ?h"
    by (simp add: shift_def unat_sub order_less_imp_le)
  have big: "64 \<le> shift \<longleftrightarrow> 64 \<le> ?n - ?h" by (simp add: word_le_nat_alt sh)
  have new: "newest (insert ?n S) = ?n" using fin less by (rule newest_insert_above)
  have notin: "m \<notin> S" if "?h < m" for m using newest_ge [OF fin, of m] that by auto
  have "bit (if shift \<ge> 64 then 1 else push_bit (unat shift) (rp_bits r) OR 1) d \<longleftrightarrow>
      d \<le> ?n \<and> ?n - d \<in> insert ?n S" if d: "d < 64" for d
  proof (cases "d < ?n - ?h")
    case True
    then have "?n - d \<notin> S" using notin by simp
    with True d less big sh show ?thesis
      by (cases "d = 0") (auto simp: bit_or_iff bit_push_bit_iff bit_1_iff)
  next
    case False
    with d less have small: "\<not> 64 \<le> shift" and eq: "?n - d = ?h - (d - (?n - ?h))"
      and le: "d - (?n - ?h) \<le> ?h \<longleftrightarrow> d \<le> ?n" and d0: "d \<noteq> 0"
      using big by auto
    have "bit (push_bit (unat shift) (rp_bits r) OR 1) d \<longleftrightarrow> bit (rp_bits r) (d - (?n - ?h))"
      using False d d0 by (simp add: bit_or_iff bit_push_bit_iff bit_1_iff sh)
    also have "\<dots> \<longleftrightarrow> d \<le> ?n \<and> ?n - d \<in> S"
      using bits [of "d - (?n - ?h)"] d le by (simp add: eq [symmetric])
    finally show ?thesis using small d0 less by auto
  qed
  moreover have "?n \<noteq> 0" using less by simp
  ultimately show ?thesis using fin z new by (simp add: replay_rel_def)
qed

lemma replay_accept_refines:
  assumes rel: "replay_rel r S"
  shows "fst (replay_accept n r) = spec_accepts S (unat n) \<and>
     replay_rel (snd (replay_accept n r))
       (if spec_accepts S (unat n) then insert (unat n) S else S)"
proof -
  let ?h = "newest S" and ?n = "unat n"
  from rel have fin: "finite S" and h: "unat (rp_highest r) = ?h" and z: "0 \<notin> S"
    and bits: "\<And>d. d < 64 \<Longrightarrow> bit (rp_bits r) d \<longleftrightarrow> d \<le> ?h \<and> ?h - d \<in> S"
    by (simp_all add: replay_rel_def)
  consider (zero) "n = 0" | (above) "n \<noteq> 0" "rp_highest r < n" | (below) "n \<noteq> 0" "n \<le> rp_highest r"
    by fastforce
  then show ?thesis
  proof cases
    case zero
    with rel show ?thesis by (simp add: replay_accept_def spec_accepts_def)
  next
    case above
    then have "?h < ?n" using h by (simp add: word_less_nat_alt)
    then have "spec_accepts S ?n" using newest_ge [OF fin, of ?n] by (auto simp: spec_accepts_def)
    with above replay_above [OF rel above(2)] show ?thesis
      by (simp add: replay_accept_def Let_def)
  next
    case below
    let ?d = "unat (rp_highest r - n)"
    have le: "?n \<le> ?h" using below h by (simp add: word_le_nat_alt)
    have d: "?d = ?h - ?n" using below h by (simp add: unat_sub)
    have far: "64 \<le> rp_highest r - n \<longleftrightarrow> 64 \<le> ?h - ?n" by (simp add: word_le_nat_alt d)
    have n0: "?n \<noteq> 0" using below by (simp add: unat_eq_0)
    show ?thesis
    proof (cases "64 \<le> ?h - ?n")
      case True
      with below far rel le show ?thesis
        by (auto simp: replay_accept_def spec_accepts_def Let_def)
    next
      case False
      then have "rp_bits r AND one_shl ?d \<noteq> 0 \<longleftrightarrow> ?n \<in> S"
        using bits [of ?d] le d by (subst and_one_shl) auto
      moreover have "replay_rel (r\<lparr>rp_bits := rp_bits r OR one_shl ?d\<rparr>) (insert ?n S)"
        using fin z h le d n0 False bits
        by (auto simp: replay_rel_def newest_insert_below bit_or_iff bit_one_shl)
      ultimately show ?thesis
        using below far rel le False n0
        by (auto simp: replay_accept_def spec_accepts_def Let_def)
    qed
  qed
qed

lemma replay_rel_default: "replay_rel replay_default {}"
  by (simp add: replay_rel_def replay_default_def newest_def)

lemma replay_run_refines:
  "replay_rel r S \<Longrightarrow> replay_run r ns = spec_run S (map unat ns)"
proof (induction ns arbitrary: r S)
  case (Cons n ns)
  from replay_accept_refines [OF Cons.prems, of n] Cons.IH show ?case
    by (auto simp: case_prod_unfold Let_def)
qed simp

text \<open>The accepted numbers of a run.\<close>

definition accepted :: "bool list \<Rightarrow> 'a list \<Rightarrow> 'a list" where
  "accepted bs ns = map snd (filter fst (zip bs ns))"

lemma accepted_Cons [simp]:
  "accepted (b # bs) (n # ns) = (if b then n # accepted bs ns else accepted bs ns)"
  "accepted [] ns = []"
  by (simp_all add: accepted_def)

lemma spec_run_fresh:
  "distinct (accepted (spec_run S ns) ns) \<and> set (accepted (spec_run S ns) ns) \<inter> S = {} \<and>
   0 \<notin> set (accepted (spec_run S ns) ns)"
proof (induction ns arbitrary: S)
  case (Cons n ns)
  from Cons.IH [of S] Cons.IH [of "insert n S"] show ?case by (auto simp: spec_accepts_def)
qed (simp add: accepted_def)

lemma accepted_map: "accepted bs (map f ns) = map f (accepted bs ns)"
proof (induction ns arbitrary: bs)
  case (Cons n ns)
  then show ?case by (cases bs) (simp_all add: accepted_def)
qed (simp add: accepted_def)

section \<open>Packet budgets\<close>

record rate =
  rt_at :: nat
  rt_count :: nat

definition rate_default :: rate where
  "rate_default = \<lparr>rt_at = 0, rt_count = 0\<rparr>"

definition rate_accept :: "nat \<Rightarrow> nat \<Rightarrow> rate \<Rightarrow> bool \<times> rate" where
  "rate_accept t limit r =
     (let r1 = (if t - rt_at r \<ge> 1000 then r\<lparr>rt_at := t, rt_count := 0\<rparr> else r) in
      if rt_count r1 \<ge> limit then (False, r1)
      else (True, r1\<lparr>rt_count := rt_count r1 + 1\<rparr>))"

fun rate_run :: "nat \<Rightarrow> rate \<Rightarrow> nat list \<Rightarrow> bool list" where
  "rate_run limit r [] = []"
| "rate_run limit r (t # ts) = (let (b, r') = rate_accept t limit r in b # rate_run limit r' ts)"

lemma rate_count_le: "rt_count r \<le> limit \<Longrightarrow> rt_count (snd (rate_accept t limit r)) \<le> limit"
  by (simp add: rate_accept_def Let_def)

lemma rate_run_same_window:
  "\<forall>t \<in> set ts. t - rt_at r < 1000 \<Longrightarrow>
   count_list (rate_run limit r ts) True \<le> limit - rt_count r"
proof (induction ts arbitrary: r)
  case (Cons t ts)
  let ?r = "snd (rate_accept t limit r)"
  from Cons.prems have at: "rt_at ?r = rt_at r" by (simp add: rate_accept_def Let_def)
  have "count_list (rate_run limit ?r ts) True \<le> limit - rt_count ?r"
    using Cons.prems by (intro Cons.IH) (simp add: at)
  with Cons.prems show ?case by (auto simp: rate_accept_def Let_def)
qed simp

text \<open>
  Within any interval of one second at most two windows are open, whatever the clock does
  inside it.
\<close>

lemma rate_run_any_second:
  assumes "\<forall>t \<in> set ts. a \<le> t \<and> t < a + 1000"
  shows "count_list (rate_run limit r ts) True \<le> (limit - rt_count r) + limit"
  using assms
proof (induction ts arbitrary: r)
  case (Cons t ts)
  let ?r = "snd (rate_accept t limit r)"
  show ?case
  proof (cases "t - rt_at r \<ge> 1000")
    case True
    then have at: "rt_at (r\<lparr>rt_at := t, rt_count := 0\<rparr>) = t" by simp
    have "\<forall>u \<in> set (t # ts). u - t < 1000" using Cons.prems by auto
    then have "count_list (rate_run limit (r\<lparr>rt_at := t, rt_count := 0\<rparr>) (t # ts)) True \<le> limit"
      using rate_run_same_window [of "t # ts" "r\<lparr>rt_at := t, rt_count := 0\<rparr>" limit] by simp
    moreover have "rate_run limit r (t # ts) = rate_run limit (r\<lparr>rt_at := t, rt_count := 0\<rparr>) (t # ts)"
      using True by (simp add: rate_accept_def Let_def)
    ultimately show ?thesis by simp
  next
    case False
    from Cons have "count_list (rate_run limit ?r ts) True \<le> (limit - rt_count ?r) + limit" by simp
    with False show ?thesis by (auto simp: rate_accept_def Let_def)
  qed
qed simp

text \<open>The budget is also granted: the first calls of a window are accepted up to the limit.\<close>

lemma rate_run_grants:
  assumes "\<forall>t \<in> set ts. t - rt_at r < 1000"
  shows "rate_run limit r ts =
    replicate (min (length ts) (limit - rt_count r)) True @
    replicate (length ts - (limit - rt_count r)) False"
  using assms
proof (induction ts arbitrary: r)
  case (Cons t ts)
  let ?r = "snd (rate_accept t limit r)"
  from Cons.prems have at: "rt_at ?r = rt_at r" by (simp add: rate_accept_def Let_def)
  have IH: "rate_run limit ?r ts = replicate (min (length ts) (limit - rt_count ?r)) True @
      replicate (length ts - (limit - rt_count ?r)) False"
    using Cons.prems by (intro Cons.IH) (simp add: at)
  show ?case
  proof (cases "rt_count r < limit")
    case True
    with Cons.prems IH have "limit - rt_count r = Suc (limit - rt_count ?r)"
      by (simp add: rate_accept_def Let_def)
    with True Cons.prems IH show ?thesis by (simp add: rate_accept_def Let_def case_prod_unfold)
  next
    case False
    with Cons.prems IH show ?thesis by (simp add: rate_accept_def Let_def case_prod_unfold)
  qed
qed simp

section \<open>Sessions and packets\<close>

type_synonym addr = "string \<times> nat"

record session =
  s_secret :: bytes
  s_version :: nat
  s_replay :: replay
  s_outgoing :: u64
  s_endpoint :: "(addr \<times> nat) option"
  s_challenge :: "(addr \<times> bytes \<times> nat) option"

definition session_new :: "nat \<Rightarrow> world \<Rightarrow> session \<times> world" where
  "session_new version w =
     (let (secret, w1) = random_bytes w
      in (\<lparr>s_secret = secret, s_version = version, s_replay = replay_default, s_outgoing = 0,
           s_endpoint = None, s_challenge = None\<rparr>, w1))"

definition HEADER :: nat where "HEADER = 37"

definition TAG :: nat where "TAG = 32"

definition magic :: bytes where
  "magic = text_bytes ''NLU1''"

definition signed_part :: "byte \<Rightarrow> nat \<Rightarrow> u64 \<Rightarrow> bytes \<Rightarrow> bytes \<Rightarrow> bytes" where
  "signed_part kind cid sequence address payload =
     magic @ [kind] @ be_bytes 8 cid @ be_bytes 8 (unat sequence) @ address @ payload"

definition encode ::
  "externals \<Rightarrow> bytes \<Rightarrow> byte \<Rightarrow> nat \<Rightarrow> u64 \<Rightarrow> bytes \<Rightarrow> bytes \<Rightarrow> bytes" where
  "encode X secret kind cid sequence address payload =
     (let body = signed_part kind cid sequence address payload in body @ x_hmac X secret body)"

definition packet ::
  "externals \<Rightarrow> nat \<Rightarrow> byte \<Rightarrow> bytes \<Rightarrow> bytes \<Rightarrow> session \<Rightarrow> (session \<times> bytes) option" where
  "packet X cid kind sender payload u =
     (if s_outgoing u = - 1 then None
      else let u' = u\<lparr>s_outgoing := s_outgoing u + 1\<rparr>
           in Some (u', encode X (s_secret u') kind cid (s_outgoing u') sender payload))"

text \<open>The fields the handler reads from a datagram.\<close>

definition dg_kind :: "bytes \<Rightarrow> byte" where
  "dg_kind bs = bs ! 4"

definition dg_cid :: "bytes \<Rightarrow> nat" where
  "dg_cid bs = be_nat (slice 5 13 bs)"

definition dg_sequence :: "bytes \<Rightarrow> u64" where
  "dg_sequence bs = of_nat (be_nat (slice 13 21 bs))"

definition dg_address :: "bytes \<Rightarrow> bytes" where
  "dg_address bs = slice 21 37 bs"

definition dg_payload :: "bytes \<Rightarrow> bytes" where
  "dg_payload bs = slice HEADER (length bs - TAG) bs"

definition dg_signed :: "bytes \<Rightarrow> bytes" where
  "dg_signed bs = take (length bs - TAG) bs"

definition dg_tag :: "bytes \<Rightarrow> bytes" where
  "dg_tag bs = drop (length bs - TAG) bs"

lemma length_magic [simp]: "length magic = 4"
  by (simp add: magic_def)

lemma length_signed_part: "length address = 16 \<Longrightarrow>
  length (signed_part kind cid sequence address payload) = HEADER + length payload"
  by (simp add: signed_part_def HEADER_def)

lemma encode_fields:
  assumes addr: "length address = 16" and tag: "\<And>m. length (x_hmac X secret m) = TAG"
    and cid: "cid < 2 ^ 64" and bs_def: "bs = encode X secret kind cid sequence address payload"
  shows "length bs = HEADER + length payload + TAG" "take 4 bs = magic" "dg_kind bs = kind"
    "dg_cid bs = cid" "dg_sequence bs = sequence" "dg_address bs = address"
    "dg_payload bs = payload" "dg_tag bs = x_hmac X secret (dg_signed bs)"
proof -
  let ?body = "signed_part kind cid sequence address payload"
  have bs: "bs = ?body @ x_hmac X secret ?body" by (simp add: bs_def encode_def Let_def)
  have lbody: "length ?body = HEADER + length payload" using addr by (rule length_signed_part)
  show len: "length bs = HEADER + length payload + TAG" by (simp add: bs lbody tag)
  show "take 4 bs = magic" by (simp add: bs signed_part_def)
  show "dg_kind bs = kind" by (simp add: dg_kind_def bs signed_part_def nth_append)
  have "slice 5 13 bs = be_bytes 8 cid"
    using slice_middle [of 5 "magic @ [kind]" 13 "be_bytes 8 cid"] by (simp add: bs signed_part_def)
  with cid show "dg_cid bs = cid" by (simp add: dg_cid_def be_nat_be_bytes)
  have "slice 13 21 bs = be_bytes 8 (unat sequence)"
    using slice_middle [of 13 "magic @ [kind] @ be_bytes 8 cid" 21 "be_bytes 8 (unat sequence)"]
    by (simp add: bs signed_part_def)
  moreover have "unat sequence < 2 ^ LENGTH(64)" by (rule unsigned_less)
  ultimately show "dg_sequence bs = sequence" by (simp add: dg_sequence_def be_nat_be_bytes)
  show "dg_address bs = address"
    using slice_middle [of 21 "magic @ [kind] @ be_bytes 8 cid @ be_bytes 8 (unat sequence)" 37 address]
      addr by (simp add: dg_address_def bs signed_part_def)
  have "dg_payload bs = slice HEADER (HEADER + length payload) bs"
    by (simp add: dg_payload_def len)
  also have "\<dots> = payload"
    using slice_middle [of 37 "magic @ [kind] @ be_bytes 8 cid @ be_bytes 8 (unat sequence) @ address"
        "37 + length payload" payload "x_hmac X secret ?body"] addr
    by (simp add: bs signed_part_def HEADER_def)
  finally show "dg_payload bs = payload" .
  show "dg_tag bs = x_hmac X secret (dg_signed bs)"
    using lbody by (simp add: dg_tag_def dg_signed_def bs tag)
qed

end
