(* ===== verification/Diagnostics.thy ===== *)
theory Diagnostics
  imports Model
begin

text \<open>
  Operational counters and the detailed log (\<open>rust/diagnostics.rs\<close>): the redaction of secrets,
  and \<open>event\<close>, which every component calls. The rotation of the log files by the writer thread
  is not part of this theory.
\<close>

section \<open>Redaction\<close>

fun contains_text :: "string \<Rightarrow> string \<Rightarrow> bool" where
  "contains_text sub [] = (sub = [])"
| "contains_text sub (c # s) = (take (length sub) (c # s) = sub \<or> contains_text sub s)"

definition secret_words :: "string list" where
  "secret_words = [''password'', ''passwd'', ''secret'', ''token'', ''authorization'', ''cookie'',
     ''apikey'', ''api_key'', ''api-key'', ''signingkey'', ''ticket'']"

definition secret_key :: "string \<Rightarrow> bool" where
  "secret_key k = list_ex (\<lambda>s. contains_text s (ascii_lower k)) secret_words"

definition redacted :: json where
  "redacted = JStr ''[REDACTED]''"

primrec redact :: "json \<Rightarrow> json" where
  "redact JNull = JNull"
| "redact (JBool b) = JBool b"
| "redact (JNum n) = JNum n"
| "redact (JStr s) = JStr s"
| "redact (JArr a) = JArr (map redact a)"
| "redact (JObj m) =
     JObj (map (\<lambda>(k, v). (k, if secret_key k then redacted else v)) (map (map_prod id redact) m))"

text \<open>
  Two values an observer of the log may not tell apart: they agree but for what stands under
  secret keys.
\<close>

inductive same_public :: "json \<Rightarrow> json \<Rightarrow> bool" where
  null: "same_public JNull JNull"
| bool: "same_public (JBool b) (JBool b)"
| num: "same_public (JNum n) (JNum n)"
| str: "same_public (JStr s) (JStr s)"
| arr: "list_all2 same_public xs ys \<Longrightarrow> same_public (JArr xs) (JArr ys)"
| obj: "list_all2 (\<lambda>e f. fst e = fst f \<and> (secret_key (fst e) \<or> same_public (snd e) (snd f))) m n \<Longrightarrow>
    same_public (JObj m) (JObj n)"

inductive_cases same_public_arrE: "same_public (JArr xs) v"
inductive_cases same_public_objE: "same_public (JObj m) v"

lemma redact_same_public: "same_public v w \<Longrightarrow> redact v = redact w"
proof (induction rule: same_public.induct)
  case (arr xs ys)
  then have "map redact xs = map redact ys"
    by (induction rule: list_all2_induct) auto
  then show ?case by simp
next
  case (obj m n)
  then show ?case by (simp, induction rule: list_all2_induct) auto
qed auto

text \<open>What is left in a redacted value: nothing but the placeholder under a secret key.\<close>

primrec clean :: "json \<Rightarrow> bool" where
  "clean JNull = True"
| "clean (JBool b) = True"
| "clean (JNum n) = True"
| "clean (JStr s) = True"
| "clean (JArr a) = list_all id (map clean a)"
| "clean (JObj m) =
     list_all2 (\<lambda>(k, v) (_, c). if secret_key k then v = redacted else c) m
       (map (map_prod id clean) m)"

lemma clean_JObj: "clean (JObj m) \<longleftrightarrow>
    (\<forall>(k, v) \<in> set m. if secret_key k then v = redacted else clean v)"
  by (induction m) auto

lemma clean_redact: "clean (redact v)"
proof (induction v)
  case (JObj m)
  then have "clean (redact w)" if "(k, w) \<in> set m" for k w
    using that by fastforce
  then show ?case by (auto simp: clean_JObj redact.simps simp del: clean.simps)
qed (auto simp: list_all_iff)

section \<open>Events\<close>

record diag =
  d_verbose :: bool
  d_tx :: bool                \<comment> \<open>whether there is a writer thread\<close>
  d_lines :: "string list"    \<comment> \<open>its bounded channel\<close>
  d_queued :: nat
  d_dropped :: nat
  d_activity :: json
  d_errors :: "json list"

definition activity_key :: "string \<Rightarrow> string" where
  "activity_key e =
     (case map_of
        [(''connection.connected'', ''connections''), (''connection.disconnected'', ''disconnects''),
         (''connection.terminate'', ''terminated''), (''authentication.failed'', ''authFailures''),
         (''authentication.succeeded'', ''authSuccesses''), (''protocol.error'', ''protocolErrors''),
         (''room.created'', ''roomsCreated''), (''room.deleted'', ''roomsDeleted''),
         (''room.entered'', ''roomEntries''), (''room.left'', ''roomLeaves''),
         (''room.owner_changed'', ''ownerChanges''), (''room.game_started'', ''gamesStarted''),
         (''connection.error'', ''socketErrors''), (''transport.rejected'', ''transportRejected''),
         (''transport.error'', ''transportErrors''), (''transport.timeout'', ''transportTimeouts''),
         (''upgrade.rejected'', ''upgradeRejected''), (''upgrade.error'', ''upgradeErrors''),
         (''message.discarded'', ''messagesDiscarded''), (''message.not_sent'', ''messagesNotSent''),
         (''account.expired'', ''accountsExpired'')] e of
        Some k \<Rightarrow> k | None \<Rightarrow> '''')"

definition u64_or_zero :: "json \<Rightarrow> nat" where
  "u64_or_zero v = (case as_u64 v of Some n \<Rightarrow> n | None \<Rightarrow> 0)"

definition bump :: "string \<Rightarrow> json \<Rightarrow> json" where
  "bump k a = setk k (jnat (min (u64_or_zero (idx a k) + 1) (2 ^ 64 - 1))) a"

definition error_name :: "string \<Rightarrow> string option" where
  "error_name e =
     (if e = ''http server error'' then Some ''server.http_error''
      else if e = ''websocket server error'' then Some ''server.websocket_error''
      else if e \<in> {''server.start_failed'', ''server.fatal'', ''server.shutdown_failed''} then Some e
      else None)"

definition event_activity :: "string \<Rightarrow> json \<Rightarrow> diag \<Rightarrow> diag" where
  "event_activity e details d =
     (let k = activity_key e in
      if k = '''' then d
      else
        let a = bump k (d_activity d);
            reason = (case as_str (idx details ''reason'') of Some r \<Rightarrow> r | None \<Rightarrow> '''')
        in d\<lparr>d_activity :=
             (if e = ''connection.terminate'' \<and>
                 reason \<in> {''message_rate_limit'', ''output_buffer_limit''}
              then bump ''rateLimits'' a else a)\<rparr>)"

definition event_errors :: "string \<Rightarrow> diag \<times> world \<Rightarrow> diag \<times> world" where
  "event_errors e = (\<lambda>(d, w).
     case error_name e of
       None \<Rightarrow> (d, w)
     | Some name \<Rightarrow>
         let (t, w1) = now w in
         if list_ex (\<lambda>v. idx v ''name'' = JStr name \<and> t - u64_or_zero (idx v ''at'') < 60000)
              (d_errors d)
         then (d, w1)
         else
           let es = d_errors d @ [JObj [(''name'', JStr name), (''at'', jnat t)]]
           in (d\<lparr>d_errors := (if length es > 16 then tl es else es)\<rparr>, w1))"

definition LOG_CHANNEL :: nat where "LOG_CHANNEL = 256"

definition LOG_BYTES :: nat where "LOG_BYTES = 8 * 1024 * 1024"

definition event_log :: "externals \<Rightarrow> string \<Rightarrow> json \<Rightarrow> diag \<times> world \<Rightarrow> diag \<times> world" where
  "event_log X e details = (\<lambda>(d, w).
     if \<not> d_verbose d then (d, w)
     else
       let (t, w1) = now w;
           line = x_display X (setk ''event'' (JStr e) (setk ''time'' (JStr (x_time X t)) details));
           n = length line
       in if \<not> d_tx d then (d, w1)
          else if d_queued d + n > LOG_BYTES then (d\<lparr>d_dropped := d_dropped d + 1\<rparr>, w1)
          else if length (d_lines d) \<ge> LOG_CHANNEL then (d\<lparr>d_dropped := d_dropped d + 1\<rparr>, w1)
          else (d\<lparr>d_lines := d_lines d @ [line], d_queued := d_queued d + n\<rparr>, w1))"

definition event :: "externals \<Rightarrow> string \<Rightarrow> json \<Rightarrow> diag \<times> world \<Rightarrow> diag \<times> world" where
  "event X e details = (\<lambda>(d, w).
     event_log X e details (event_errors e (event_activity e details d, w)))"

text \<open>The bounds on what diagnostics may hold in memory.\<close>

definition diag_bounded :: "diag \<Rightarrow> bool" where
  "diag_bounded d \<longleftrightarrow> d_queued d = sum_list (map length (d_lines d)) \<and>
     d_queued d \<le> LOG_BYTES \<and> length (d_lines d) \<le> LOG_CHANNEL \<and> length (d_errors d) \<le> 16"

lemma event_activity_frame [simp]:
  "d_lines (event_activity e v d) = d_lines d" "d_queued (event_activity e v d) = d_queued d"
  "d_errors (event_activity e v d) = d_errors d" "d_verbose (event_activity e v d) = d_verbose d"
  by (simp_all add: event_activity_def Let_def)

lemma event_bounded:
  assumes "diag_bounded d"
  shows "diag_bounded (fst (event X e v (d, w)))"
proof -
  let ?d1 = "event_activity e v d"
  obtain d2 w2 where 2: "event_errors e (?d1, w) = (d2, w2)" by fastforce
  have "diag_bounded ?d1" using assms by (simp add: diag_bounded_def)
  then have "diag_bounded d2"
    using 2 by (auto simp: event_errors_def diag_bounded_def Let_def now_def
        split: option.splits if_splits)
  then have "diag_bounded (fst (event_log X e v (d2, w2)))"
    by (auto simp: event_log_def diag_bounded_def Let_def now_def)
  then show ?thesis by (simp add: event_def 2)
qed

lemma event_future_ids [simp]: "future_ids (snd (event X e v (d, w))) = future_ids w"
  by (auto simp: event_def event_log_def event_errors_def Let_def now_def future_ids_def
      split: option.splits prod.splits)

end
