(* ===== verification/Store.thy ===== *)
theory Store
  imports Model
begin

text \<open>
  The session store (\<open>rust/store.rs\<close>): the files under the session directory, by folder and
  name, and the notification jobs held in memory. Every call to the file system takes its
  outcome from the world's stream; an operation that returns \<open>Result\<close> gives back whether it
  returned \<open>Ok\<close>, or \<^const>\<open>None\<close> for \<open>Err\<close>, with the store and the world as they are then.
  A write that fails half-way leaves the temporary file with the parts written before.
\<close>

type_synonym fname = "string \<times> string"

record store =
  st_enabled :: bool
  st_max :: nat
  st_jobs :: "(string, json list) imap"
  st_files :: "(fname, bytes) imap"

type_synonym sw = "store \<times> world"

section \<open>Files\<close>

definition path :: "string \<Rightarrow> string \<Rightarrow> fname option" where
  "path folder i =
     (if uuid_text i
      then Some (folder, ascii_lower i @ (if folder = ''rooms'' then ''.bin'' else ''.json''))
      else None)"

definition put_file :: "fname \<Rightarrow> bytes \<Rightarrow> store \<Rightarrow> store" where
  "put_file f b st = st\<lparr>st_files := AList.update f b (st_files st)\<rparr>"

definition contents :: "store \<Rightarrow> fname \<Rightarrow> bytes" where
  "contents st f = (case map_of (st_files st) f of Some b \<Rightarrow> b | None \<Rightarrow> [])"

definition tmp_of :: "fname \<Rightarrow> fname" where
  "tmp_of f = (fst f, snd f @ ''.tmp'')"

fun write_parts :: "fname \<Rightarrow> bytes list \<Rightarrow> sw \<Rightarrow> bool \<times> sw" where
  "write_parts f [] (st, w) = (True, st, w)"
| "write_parts f (b # bs) (st, w) =
     (let (ok, w1) = disk w in
      if ok then write_parts f bs (put_file f (contents st f @ b) st, w1) else (False, st, w1))"

text \<open>\<open>atomic\<close>: open the temporary file, write, sync, rename.\<close>

definition atomic :: "fname \<Rightarrow> bytes list \<Rightarrow> sw \<Rightarrow> bool \<times> sw" where
  "atomic f parts = (\<lambda>(st, w).
     let tmp = tmp_of f; (opened, w1) = disk w in
     if \<not> opened then (False, st, w1)
     else
       let (written, st2, w2) = write_parts tmp parts (put_file tmp [] st, w1) in
       if \<not> written then (False, st2, w2)
       else
         let (synced, w3) = disk w2 in
         if \<not> synced then (False, st2, w3)
         else
           let (renamed, w4) = disk w3 in
           if \<not> renamed then (False, st2, w4)
           else (True, st2\<lparr>st_files := AList.delete tmp
                              (AList.update f (contents st2 tmp) (st_files st2))\<rparr>, w4))"

definition exists_file :: "fname \<Rightarrow> sw \<Rightarrow> bool \<times> world" where
  "exists_file f = (\<lambda>(st, w).
     let (ok, w1) = disk w in (ok \<and> map_of (st_files st) f \<noteq> None, w1))"

definition remove_file :: "fname \<Rightarrow> sw \<Rightarrow> bool \<times> sw" where
  "remove_file f = (\<lambda>(st, w).
     let (ok, w1) = disk w in
     if ok \<and> map_of (st_files st) f \<noteq> None
     then (True, st\<lparr>st_files := AList.delete f (st_files st)\<rparr>, w1)
     else (False, st, w1))"

section \<open>Accounts\<close>

definition str_or :: "string \<Rightarrow> json \<Rightarrow> string" where
  "str_or d v = (case as_str v of Some s \<Rightarrow> s | None \<Rightarrow> d)"

definition nat_or :: "nat \<Rightarrow> json \<Rightarrow> nat" where
  "nat_or d v = (case as_u64 v of Some n \<Rightarrow> n | None \<Rightarrow> d)"

definition elems :: "json \<Rightarrow> json list" where
  "elems v = (case as_array v of Some a \<Rightarrow> a | None \<Rightarrow> [])"

text \<open>\<open>v[i]\<close> for a position \<open>i\<close>.\<close>

definition nth_json :: "json \<Rightarrow> nat \<Rightarrow> json" where
  "nth_json v i = (if i < length (elems v) then elems v ! i else JNull)"

definition account_json :: "player \<Rightarrow> json" where
  "account_json p = JObj [(''id'', JStr (p_id p)), (''name'', JStr (p_name p)),
     (''password'', JStr (p_password p)),
     (''devices'', JArr (map (\<lambda>(i, d). JArr [JStr i, setk ''foreground'' (JBool False) d])
                          (p_devices p)))]"

definition save_account :: "externals \<Rightarrow> player \<Rightarrow> sw \<Rightarrow> bool \<times> sw" where
  "save_account X p = (\<lambda>(st, w).
     if \<not> st_enabled st then (True, st, w)
     else case path ''accounts'' (p_id p) of
         None \<Rightarrow> (False, st, w)
       | Some f \<Rightarrow> atomic f [x_to_vec X (account_json p)] (st, w))"

definition add_device :: "json \<Rightarrow> (string, json) imap \<Rightarrow> (string, json) imap" where
  "add_device d ds = (case as_str (nth_json d 0) of
      Some i \<Rightarrow> AList.update i (nth_json d 1) ds | None \<Rightarrow> ds)"

definition account :: "externals \<Rightarrow> string \<Rightarrow> sw \<Rightarrow> player option option \<times> world" where
  "account X i = (\<lambda>(st, w).
     if \<not> st_enabled st then (Some None, w)
     else case path ''accounts'' i of
         None \<Rightarrow> (None, w)
       | Some f \<Rightarrow>
           let (ex, w1) = exists_file f (st, w) in
           if \<not> ex then (Some None, w1)
           else
             let (ok, w2) = disk w1 in
             if \<not> ok then (None, w2)
             else case x_from_slice X (contents st f) of
                 None \<Rightarrow> (None, w2)
               | Some v \<Rightarrow>
                   let (p, w3) = player_new X (str_or ''Player'' (idx v ''name'')) w2 in
                   (Some (Some (p\<lparr>p_id := str_or i (idx v ''id''),
                                  p_password := str_or '''' (idx v ''password''),
                                  p_devices := fold add_device (elems (idx v ''devices''))
                                                 (p_devices p)\<rparr>)), w3))"

section \<open>Rooms\<close>

definition save :: "externals \<Rightarrow> room \<Rightarrow> sw \<Rightarrow> bool \<times> sw" where
  "save X r = (\<lambda>(st, w).
     let h = x_to_vec X (header r) in
     case path ''rooms'' (r_id r) of
       None \<Rightarrow> (False, st, w)
     | Some f \<Rightarrow> atomic f [be_bytes 4 (length h), h, r_state r] (st, w))"

definition HEADER_MAX :: nat where "HEADER_MAX = 1024 * 1024"

text \<open>\<open>v["version"] != 1\<close>, \<open>v["roomId"] != id\<close>\<close>

definition header_for :: "json \<Rightarrow> string \<Rightarrow> bool" where
  "header_for v i \<longleftrightarrow> idx v ''version'' = jnat 1 \<and> idx v ''roomId'' = JStr i"

definition string_set :: "json \<Rightarrow> string list \<Rightarrow> string list" where
  "string_set v xs = fold set_insert (List.map_filter as_str (elems v)) xs"

definition room_of :: "json \<Rightarrow> string \<Rightarrow> world \<Rightarrow> room \<times> world" where
  "room_of v i w =
     (let (r, w1) = room_new (str_or '''' (idx v ''name'')) (str_or '''' (idx v ''ownerId''))
                      (nat_or 1 (idx v ''maxPlayers'')) (idx v ''password'') (idx v ''gameData'') w
      in (r\<lparr>r_id := i, r_meta := idx v ''metaData'', r_start := idx v ''startData'',
            r_generation := nat_or 0 (idx v ''generation''),
            r_binary := (idx v ''binaryRelay'' = JBool True),
            r_revision := nat_or 0 (idx v ''revision''),
            r_updated := nat_or 0 (idx v ''updatedAt''),
            r_started := True, r_fixed := True, r_migration := True, r_persistent := True,
            r_players := string_set (idx v ''players'') (r_players r),
            r_events := string_set (idx v ''events'') (r_events r)\<rparr>, w1))"

definition load :: "externals \<Rightarrow> string \<Rightarrow> bool \<Rightarrow> sw \<Rightarrow> room option option \<times> world" where
  "load X i body = (\<lambda>(st, w).
     if \<not> st_enabled st then (Some None, w)
     else case path ''rooms'' i of
         None \<Rightarrow> (None, w)
       | Some f \<Rightarrow>
           let (ex, w1) = exists_file f (st, w) in
           if \<not> ex then (Some None, w1)
           else
             let b = contents st f;
                 (opened, w2) = disk w1;
                 (read1, w3) = disk w2;
                 n = be_nat (take 4 b)
             in if \<not> opened then (None, w2)
                else if \<not> read1 \<or> length b < 4 then (None, w3)
                else if n > HEADER_MAX then (None, w3)
                else
                  let (read2, w4) = disk w3 in
                  if \<not> read2 \<or> length b < 4 + n then (None, w4)
                  else case x_from_slice X (slice 4 (4 + n) b) of
                      None \<Rightarrow> (None, w4)
                    | Some v \<Rightarrow>
                        if \<not> header_for v i then (None, w4)
                        else
                          let (r, w5) = room_of v i w4 in
                          if \<not> body then (Some (Some r), w5)
                          else
                            let (read3, w6) = disk w5 in
                            if \<not> read3 then (None, w6)
                            else (Some (Some (r\<lparr>r_state := drop (4 + n) b\<rparr>)), w6))"

section \<open>Notification jobs\<close>

definition set_jobs :: "externals \<Rightarrow> string \<Rightarrow> json list \<Rightarrow> sw \<Rightarrow> bool \<times> sw" where
  "set_jobs X i jobs = (\<lambda>(st, w).
     case path ''notifications'' i of
       None \<Rightarrow> (False, st, w)
     | Some f \<Rightarrow>
         if jobs = [] then
           let (ex, w1) = exists_file f (st, w);
               (ok, st2, w2) = (if ex then remove_file f (st, w1) else (True, st, w1))
           in if \<not> ok then (False, st2, w2)
              else (True, st2\<lparr>st_jobs := AList.delete i (st_jobs st2)\<rparr>, w2)
         else
           let (ok, st2, w2) = atomic f [x_to_vec X (JArr jobs)] (st, w) in
           if \<not> ok then (False, st2, w2)
           else (True, st2\<lparr>st_jobs := AList.update i jobs (st_jobs st2)\<rparr>, w2))"

definition NEVER :: nat where "NEVER = 9007199254740991"

definition job_new :: "json \<Rightarrow> bool \<Rightarrow> json" where
  "job_new n scheduled =
     setk ''scheduled'' (JBool scheduled) (setk ''retryAt'' (jnat 0) (setk ''done'' (JArr []) n))"

definition same_event :: "json \<Rightarrow> json \<Rightarrow> bool" where
  "same_event j n \<longleftrightarrow> idx j ''eventId'' = idx n ''eventId''"

text \<open>One round of the loop over the scheduled and the immediate notice.\<close>

definition add_job :: "string list \<Rightarrow> json list \<Rightarrow> json \<Rightarrow> bool \<Rightarrow> json list \<Rightarrow> json list" where
  "add_job events previous n scheduled jobs =
     (if n = JNull \<or> str_or '''' (idx n ''eventId'') \<in> set events \<or> list_ex (\<lambda>j. same_event j n) jobs
      then jobs
      else jobs @ [case find (\<lambda>j. same_event j n \<and> idx j ''at'' = idx n ''at'') previous of
                     Some j \<Rightarrow> j | None \<Rightarrow> job_new n scheduled])"

definition retained :: "json list \<Rightarrow> json list" where
  "retained previous =
     filter (\<lambda>j. idx j ''scheduled'' \<noteq> JBool True \<and> idx j ''retryAt'' \<noteq> jnat NEVER) previous"

definition committed_jobs :: "string list \<Rightarrow> json list \<Rightarrow> json \<Rightarrow> json \<Rightarrow> json list" where
  "committed_jobs events previous scheduled immediate =
     add_job events previous immediate False
       (add_job events previous scheduled True (retained previous))"

definition commit :: "externals \<Rightarrow> room \<Rightarrow> json \<Rightarrow> json \<Rightarrow> sw \<Rightarrow> bool \<times> sw" where
  "commit X r scheduled immediate = (\<lambda>(st, w).
     let previous = (case map_of (st_jobs st) (r_id r) of Some js \<Rightarrow> js | None \<Rightarrow> [])
     in set_jobs X (r_id r) (committed_jobs (r_events r) previous scheduled immediate) (st, w))"

section \<open>The quota\<close>

definition extension :: "string \<Rightarrow> string option" where
  "extension name =
     (let e = takeWhile (\<lambda>c. c \<noteq> CHR ''.'') (rev name) in
      if length e + 1 \<ge> length name then None else Some (rev e))"

definition file_stem :: "string \<Rightarrow> string" where
  "file_stem name = (case extension name of
      None \<Rightarrow> name | Some e \<Rightarrow> take (length name - length e - 1) name)"

type_synonym prune_entry = "nat option \<times> string \<times> nat"

fun prune_scan :: "externals \<Rightarrow> string list \<Rightarrow> store \<Rightarrow> (fname, bytes) imap \<Rightarrow>
    nat \<times> prune_entry list \<Rightarrow> world \<Rightarrow> (nat \<times> prune_entry list) option \<times> world" where
  "prune_scan X active st [] acc w = (Some acc, w)"
| "prune_scan X active st (((folder, name), b) # fs) (tot, entries) w =
     (if folder \<noteq> ''rooms'' then prune_scan X active st fs (tot, entries) w
      else
        let (ok, w1) = disk w; i = file_stem name in
        if \<not> ok then (None, w1)
        else if extension name \<noteq> Some ''bin'' \<or> \<not> uuid_text i
        then prune_scan X active st fs (tot, entries) w1
        else
          let (sized, w2) = disk w1 in
          if \<not> sized then (None, w2)
          else if i \<in> set active then prune_scan X active st fs (tot + length b, entries) w2
          else
            let (r, w3) = load X i False (st, w2);
                stamp = (case r of Some (Some r) \<Rightarrow> Some (r_updated r) | _ \<Rightarrow> None)
            in prune_scan X active st fs (tot + length b, entries @ [(stamp, i, length b)]) w3)"

fun prune_remove ::
  "externals \<Rightarrow> prune_entry list \<Rightarrow> nat \<Rightarrow> string list \<Rightarrow> sw \<Rightarrow> string list option \<times> sw" where
  "prune_remove X [] tot removed (st, w) = (Some removed, st, w)"
| "prune_remove X ((_, i, sz) # es) tot removed (st, w) =
     (if tot \<le> st_max st then (Some removed, st, w)
      else case path ''rooms'' i of
          None \<Rightarrow> (None, st, w)
        | Some f \<Rightarrow>
            let (gone, st1, w1) = remove_file f (st, w) in
            if \<not> gone then (None, st1, w1)
            else
              let (ok, st2, w2) = set_jobs X i [] (st1, w1) in
              if \<not> ok then (None, st2, w2)
              else prune_remove X es (tot - sz) (removed @ [i]) (st2, w2))"

definition prune :: "externals \<Rightarrow> string list \<Rightarrow> sw \<Rightarrow> string list option \<times> sw" where
  "prune X active = (\<lambda>(st, w).
     if \<not> st_enabled st then (Some [], st, w)
     else
       let (listed, w1) = disk w in
       if \<not> listed then (None, st, w1)
       else case prune_scan X active st (st_files st) (0, []) w1 of
           (None, w2) \<Rightarrow> (None, st, w2)
         | (Some (tot, entries), w2) \<Rightarrow> prune_remove X (sort entries) tot [] (st, w2))"

end
