(* ===== verification/Server.thy ===== *)
theory Server
  imports Admission Udp Diagnostics Store
begin

text \<open>
  The state of the relay and the way every component sends to clients (\<open>rust/server.rs\<close>:
  \<open>Connection\<close>, \<open>Delayed\<close>, \<open>Server\<close> and the functions from \<open>frame\<close> to \<open>relay\<close>). The
  channel of a connection is the list of the frames sent and not yet taken by its socket
  task; the atomics the two share are fields of the connection.
\<close>

section \<open>State\<close>

datatype message =
    Text string
  | Binary bytes
  | Ping bytes
  | Pong bytes
  | Close "(nat \<times> string) option"

fun msg_len :: "message \<Rightarrow> nat" where
  "msg_len (Text s) = length s"
| "msg_len (Binary b) = length b"
| "msg_len (Ping b) = length b"
| "msg_len (Pong b) = length b"
| "msg_len (Close None) = 0"
| "msg_len (Close (Some (_, reason))) = length reason"

fun is_close :: "message \<Rightarrow> bool" where
  "is_close (Close _) = True"
| "is_close _ = False"

fun is_ping_pong :: "message \<Rightarrow> bool" where
  "is_ping_pong (Ping _) = True"
| "is_ping_pong (Pong _) = True"
| "is_ping_pong _ = False"

record connection =
  c_udp :: "session option"
  c_udp_in :: rate
  c_udp_out :: rate
  c_outbox :: "message list"
  c_open :: bool
  c_queued :: nat
  c_player :: "string option"
  c_created :: nat
  c_activity :: nat
  c_ping :: "nat option"
  c_last_ping :: nat
  c_rate_at :: nat
  c_messages :: nat
  c_delayed :: nat
  c_pending :: nat
  c_closing :: bool
  c_abort :: bool

record delayed_frame =
  dl_at :: nat
  dl_cid :: nat
  dl_version :: nat
  dl_scoped :: bool
  dl_frame :: message
  dl_size :: nat

record legacy_push =
  lp_player :: string
  lp_device :: string
  lp_token :: string
  lp_notice :: json

record server =
  diagnostics :: diag
  config :: config
  players :: "(string, player) imap"
  rooms :: "(string, room) imap"
  connections :: "(nat, connection) imap"
  store :: store
  delayed :: "delayed_frame list"
  push :: bool
  pushes_in_flight :: nat
  legacy_pushes :: "legacy_push list"
  notice_wake :: bool
  legacy_wake :: bool
  world :: world

abbreviation limit :: "server \<Rightarrow> string \<Rightarrow> nat" where
  "limit s k \<equiv> cfg_n (config s) k"

abbreviation player_of :: "server \<Rightarrow> string \<Rightarrow> player option" where
  "player_of s \<equiv> map_of (players s)"

abbreviation room_at :: "server \<Rightarrow> string \<Rightarrow> room option" where
  "room_at s \<equiv> map_of (rooms s)"

abbreviation conn_of :: "server \<Rightarrow> nat \<Rightarrow> connection option" where
  "conn_of s \<equiv> map_of (connections s)"

abbreviation put_player :: "string \<Rightarrow> player \<Rightarrow> server \<Rightarrow> server" where
  "put_player p pl s \<equiv> s\<lparr>players := AList.update p pl (players s)\<rparr>"

abbreviation put_room :: "string \<Rightarrow> room \<Rightarrow> server \<Rightarrow> server" where
  "put_room i r s \<equiv> s\<lparr>rooms := AList.update i r (rooms s)\<rparr>"

abbreviation put_conn :: "nat \<Rightarrow> connection \<Rightarrow> server \<Rightarrow> server" where
  "put_conn cid c s \<equiv> s\<lparr>connections := AList.update cid c (connections s)\<rparr>"

text \<open>A reading of the clock, and an operation of the store, on the server's own world.\<close>

definition clock :: "server \<Rightarrow> nat \<times> server" where
  "clock s = (let (t, w) = now (world s) in (t, s\<lparr>world := w\<rparr>))"

definition with_store :: "(sw \<Rightarrow> 'a \<times> sw) \<Rightarrow> server \<Rightarrow> 'a \<times> server" where
  "with_store f s = (let (a, st, w) = f (store s, world s) in (a, s\<lparr>store := st, world := w\<rparr>))"

definition with_world :: "(world \<Rightarrow> 'a \<times> world) \<Rightarrow> server \<Rightarrow> 'a \<times> server" where
  "with_world f s = (let (a, w) = f (world s) in (a, s\<lparr>world := w\<rparr>))"

definition emit :: "externals \<Rightarrow> string \<Rightarrow> json \<Rightarrow> server \<Rightarrow> server" where
  "emit X e details s =
     (let (d, w) = event X e details (diagnostics s, world s)
      in s\<lparr>diagnostics := d, world := w\<rparr>)"

section \<open>Connections\<close>

definition connected :: "externals \<Rightarrow> nat \<Rightarrow> server \<Rightarrow> server" where
  "connected X cid s =
     (let s1 = emit X ''transport.connected'' (JObj [(''connectionId'', jnat cid)]) s;
          s2 = emit X ''connection.connected'' (JObj [(''connectionId'', jnat cid)]) s1;
          (t, s3) = clock s2
      in put_conn cid
           \<lparr>c_udp = None, c_udp_in = rate_default, c_udp_out = rate_default, c_outbox = [],
            c_open = True, c_queued = 0, c_player = None, c_created = t, c_activity = t,
            c_ping = None, c_last_ping = t, c_rate_at = t, c_messages = 0, c_delayed = 0,
            c_pending = 0, c_closing = False, c_abort = False\<rparr> s3)"

definition online :: "server \<Rightarrow> nat" where
  "online s = length (filter (\<lambda>(_, p). p_connection p \<noteq> None) (players s))"

definition stats :: "server \<Rightarrow> json" where
  "stats s = JObj [(''accounts'', jnat (length (players s))), (''online'', jnat (online s)),
     (''rooms'', jnat (length (rooms s))),
     (''pendingConnections'',
        jnat (length (filter (\<lambda>(_, c). c_player c = None) (connections s))))]"

section \<open>Sending\<close>

text \<open>The detailed log of a frame; text is logged as redacted JSON.\<close>

definition frame_payload :: "externals \<Rightarrow> message \<Rightarrow> (string \<times> json) option" where
  "frame_payload X msg = (case msg of
       Text t \<Rightarrow> Some (''text'', redact (case x_from_str X t of
           Some v \<Rightarrow> v | None \<Rightarrow> JStr ''[omitted: invalid JSON]''))
     | Binary b \<Rightarrow> Some (''binary'', JStr (x_b64 X b))
     | Ping b \<Rightarrow> Some (''ping'', JStr (x_b64 X b))
     | Pong b \<Rightarrow> Some (''pong'', JStr (x_b64 X b))
     | Close _ \<Rightarrow> None)"

definition log_frame :: "externals \<Rightarrow> nat \<Rightarrow> string \<Rightarrow> message \<Rightarrow> server \<Rightarrow> server" where
  "log_frame X cid direction msg s =
     (if \<not> d_verbose (diagnostics s) then s
      else case frame_payload X msg of
          None \<Rightarrow> s
        | Some (kind, payload) \<Rightarrow>
            emit X ''message'' (JObj [(''connectionId'', jnat cid), (''direction'', JStr direction),
              (''type'', JStr kind), (''bytes'', jnat (msg_len msg)),
              (''encoding'', JStr (if kind = ''text'' then ''json'' else ''base64'')),
              (''payload'', payload)]) s)"

definition fits :: "server \<Rightarrow> nat \<Rightarrow> bool" where
  "fits s n \<longleftrightarrow> n \<le> limit s ''maxPayloadBytes'' \<and> n + 10 \<le> limit s ''maxBufferedBytes''"

definition encoded :: "externals \<Rightarrow> server \<Rightarrow> json \<Rightarrow> message option" where
  "encoded X s v = (let t = stringify X v in if fits s (length t) then Some (Text t) else None)"

text \<open>What a frame counts in the output budget.\<close>

definition cost :: "message \<Rightarrow> nat" where
  "cost msg = msg_len msg + (if is_ping_pong msg then 2 else 10)"

definition raw :: "externals \<Rightarrow> nat \<Rightarrow> message \<Rightarrow> server \<Rightarrow> server" where
  "raw X cid msg s =
     (case conn_of s cid of
        None \<Rightarrow> s
      | Some c \<Rightarrow>
          if c_closing c then s
          else
            let c1 = (if is_close msg then c\<lparr>c_closing := True\<rparr> else c); n = cost msg in
            if c_queued c1 + n > limit s ''maxBufferedBytes'' then
              let s1 = emit X ''connection.terminate''
                         (JObj [(''connectionId'', jnat cid),
                                (''reason'', JStr ''output_buffer_limit'')])
                         (put_conn cid (c1\<lparr>c_closing := True\<rparr>) s)
              in put_conn cid (c1\<lparr>c_closing := True, c_abort := True\<rparr>) s1
            else
              let s1 = log_frame X cid ''out'' msg s in
              if c_open c1
              then put_conn cid (c1\<lparr>c_queued := c_queued c1 + n, c_outbox := c_outbox c1 @ [msg]\<rparr>) s1
              else put_conn cid c1 s1)"

definition error_msg :: "string \<Rightarrow> json" where
  "error_msg code = JObj [(''method'', JStr ''error''),
     (''data'', JObj [(''code'', JStr code), (''text'', JStr code)])]"

definition send_c :: "externals \<Rightarrow> nat \<Rightarrow> json \<Rightarrow> server \<Rightarrow> server" where
  "send_c X cid v s =
     (case encoded X s v of
        Some msg \<Rightarrow> raw X cid msg s
      | None \<Rightarrow> (case encoded X s (error_msg ''response_too_large'') of
            Some msg \<Rightarrow> raw X cid msg s | None \<Rightarrow> s))"

definition connection_of :: "server \<Rightarrow> string \<Rightarrow> nat option" where
  "connection_of s p = Option.bind (player_of s p) p_connection"

definition send :: "externals \<Rightarrow> string \<Rightarrow> json \<Rightarrow> server \<Rightarrow> server" where
  "send X p v s = (case connection_of s p of Some cid \<Rightarrow> send_c X cid v s | None \<Rightarrow> s)"

definition send_bytes :: "externals \<Rightarrow> string \<Rightarrow> bytes \<Rightarrow> server \<Rightarrow> server" where
  "send_bytes X p b s =
     (if fits s (length b)
      then (case connection_of s p of Some cid \<Rightarrow> raw X cid (Binary b) s | None \<Rightarrow> s)
      else s)"

definition error :: "externals \<Rightarrow> nat \<Rightarrow> string \<Rightarrow> server \<Rightarrow> server" where
  "error X cid code s =
     send_c X cid (error_msg code)
       (emit X ''protocol.error'' (JObj [(''connectionId'', jnat cid), (''code'', JStr code)]) s)"

definition err :: "externals \<Rightarrow> string \<Rightarrow> string \<Rightarrow> server \<Rightarrow> server" where
  "err X p code s =
     send X p (error_msg code)
       (emit X ''protocol.error'' (JObj [(''playerId'', JStr p), (''code'', JStr code)]) s)"

definition close :: "externals \<Rightarrow> nat \<Rightarrow> nat \<Rightarrow> string \<Rightarrow> server \<Rightarrow> server" where
  "close X cid code reason s = raw X cid (Close (Some (code, reason))) s"

text \<open>Whether a member is skipped: the excluded one, or one outside the target list.\<close>

definition skipped :: "string option \<Rightarrow> json option \<Rightarrow> string \<Rightarrow> bool" where
  "skipped except targets i \<longleftrightarrow> except = Some i \<or>
     (case targets of None \<Rightarrow> False
      | Some a \<Rightarrow> \<not> (case as_array a of None \<Rightarrow> False | Some xs \<Rightarrow> JStr i \<in> set xs))"

definition member_connection :: "server \<Rightarrow> room \<Rightarrow> string \<Rightarrow> nat option" where
  "member_connection s r i =
     (case player_of s i of
        Some p \<Rightarrow> if p_room p = Some (r_id r) then p_connection p else None
      | None \<Rightarrow> None)"

definition broadcast_frame ::
  "externals \<Rightarrow> room \<Rightarrow> message \<Rightarrow> string option \<Rightarrow> json option \<Rightarrow> server \<Rightarrow> server" where
  "broadcast_frame X r msg except targets s =
     fold (\<lambda>i s. if skipped except targets i then s
                 else case member_connection s r i of Some c \<Rightarrow> raw X c msg s | None \<Rightarrow> s)
       (r_active r) s"

definition broadcast ::
  "externals \<Rightarrow> room \<Rightarrow> json \<Rightarrow> string option \<Rightarrow> json option \<Rightarrow> server \<Rightarrow> server" where
  "broadcast X r v except targets s =
     (case encoded X s v of Some msg \<Rightarrow> broadcast_frame X r msg except targets s | None \<Rightarrow> s)"

definition lobby :: "externals \<Rightarrow> json \<Rightarrow> server \<Rightarrow> server" where
  "lobby X v s =
     (case encoded X s v of
        Some msg \<Rightarrow>
          fold (\<lambda>(_, p) s. if p_room p = None
                  then (case p_connection p of Some c \<Rightarrow> raw X c msg s | None \<Rightarrow> s) else s)
            (players s) s
      | None \<Rightarrow> s)"

definition dto :: "server \<Rightarrow> room \<Rightarrow> json" where
  "dto s r = room_dto r (Option.bind (player_of s (r_owner r)) p_rtt)"

definition room_fits :: "externals \<Rightarrow> server \<Rightarrow> room \<Rightarrow> bool" where
  "room_fits X s r \<longleftrightarrow>
     fits s ((min usize_max (r_max r * (length (r_owner r) + 3)) + 1) mod 2 ^ 64) \<and>
     encoded X s (JObj [(''method'', JStr ''onGetRooms''),
       (''data'', JArr [setk ''gameStarted'' (JBool False)
          (setk ''rtt'' (jnat NEVER)
            (setk ''players'' (jstrs (replicate (r_max r) (r_owner r))) (dto s r)))]),
       (''nextCursor'', JStr (r_id r))]) \<noteq> None"

definition relay :: "externals \<Rightarrow> string \<Rightarrow> json \<Rightarrow> server \<Rightarrow> message option \<times> server" where
  "relay X p v s =
     (case encoded X s v of
        None \<Rightarrow> (None, err X p ''payload_too_large'' s)
      | Some msg \<Rightarrow> (Some msg, s))"

definition msg :: "string \<Rightarrow> json \<Rightarrow> json" where
  "msg m d = JObj [(''method'', JStr m), (''data'', d)]"

definition reply :: "externals \<Rightarrow> string \<Rightarrow> json \<Rightarrow> json \<Rightarrow> server \<Rightarrow> server" where
  "reply X p request data s =
     send X p (msg ''sessionReply'' (setk ''requestId'' request data)) s"

end
