(* ===== verification/Transport.thy ===== *)
theory Transport
  imports Server
begin

text \<open>
  What sending may change. Every function of the transport group only appends frames to the
  outboxes of open connections and writes diagnostics: \<open>quiet\<close> states it once, the locale
  \<open>transport_op\<close> derives from it the frame equations a caller needs, and an interpretation for
  each function makes them simplification rules of the theories above.
\<close>

section \<open>One connection\<close>

text \<open>
  The output budget: what waits in the outbox is covered by the counter the connection shares
  with its socket task, the counter is within \<open>maxBufferedBytes\<close>, and a close frame is the last
  one and marks the connection as closing.
\<close>

definition waiting :: "connection \<Rightarrow> nat" where
  "waiting c = sum_list (map cost (c_outbox c))"

definition outbox_ok :: "nat \<Rightarrow> connection \<Rightarrow> bool" where
  "outbox_ok cap c \<longleftrightarrow> waiting c \<le> c_queued c \<and> c_queued c \<le> cap \<and>
     list_all (\<lambda>m. \<not> is_close m) (butlast (c_outbox c)) \<and>
     (list_ex is_close (c_outbox c) \<longrightarrow> c_closing c)"

definition conn_step :: "nat \<Rightarrow> connection \<Rightarrow> connection \<Rightarrow> bool" where
  "conn_step cap c d \<longleftrightarrow>
     d\<lparr>c_outbox := c_outbox c, c_queued := c_queued c, c_closing := c_closing c,
       c_abort := c_abort c\<rparr> = c \<and>
     (\<exists>sent. c_outbox d = c_outbox c @ sent) \<and>
     (c_closing c \<longrightarrow> d = c) \<and>
     (outbox_ok cap c \<longrightarrow> outbox_ok cap d)"

lemma conn_step_refl [simp]: "conn_step cap c c"
  by (simp add: conn_step_def)

lemma conn_step_fields:
  assumes "conn_step cap c d"
  shows "c_player d = c_player c" "c_udp d = c_udp c" "c_pending d = c_pending c"
    "c_delayed d = c_delayed c" "c_messages d = c_messages c" "c_created d = c_created c"
    "c_udp_in d = c_udp_in c" "c_udp_out d = c_udp_out c" "c_ping d = c_ping c"
    "c_rate_at d = c_rate_at c" "c_activity d = c_activity c" "c_last_ping d = c_last_ping c"
    "c_open d = c_open c"
proof -
  from assms have d: "d\<lparr>c_outbox := c_outbox c, c_queued := c_queued c,
      c_closing := c_closing c, c_abort := c_abort c\<rparr> = c" (is "?d = c")
    by (simp add: conn_step_def)
  have "c_player ?d = c_player d" "c_udp ?d = c_udp d" "c_pending ?d = c_pending d"
    "c_delayed ?d = c_delayed d" "c_messages ?d = c_messages d" "c_created ?d = c_created d"
    "c_udp_in ?d = c_udp_in d" "c_udp_out ?d = c_udp_out d" "c_ping ?d = c_ping d"
    "c_rate_at ?d = c_rate_at d" "c_activity ?d = c_activity d"
    "c_last_ping ?d = c_last_ping d" "c_open ?d = c_open d"
    by simp_all
  then show "c_player d = c_player c" "c_udp d = c_udp c" "c_pending d = c_pending c"
    "c_delayed d = c_delayed c" "c_messages d = c_messages c" "c_created d = c_created c"
    "c_udp_in d = c_udp_in c" "c_udp_out d = c_udp_out c" "c_ping d = c_ping c"
    "c_rate_at d = c_rate_at c" "c_activity d = c_activity c" "c_last_ping d = c_last_ping c"
    "c_open d = c_open c"
    unfolding d by simp_all
qed

lemma conn_step_erase:
  assumes "d\<lparr>c_outbox := c_outbox c, c_queued := c_queued c, c_closing := c_closing c,
       c_abort := c_abort c\<rparr> = c"
    and "e\<lparr>c_outbox := c_outbox d, c_queued := c_queued d, c_closing := c_closing d,
       c_abort := c_abort d\<rparr> = d"
  shows "e\<lparr>c_outbox := c_outbox c, c_queued := c_queued c, c_closing := c_closing c,
       c_abort := c_abort c\<rparr> = c"
proof -
  have "e\<lparr>c_outbox := c_outbox c, c_queued := c_queued c, c_closing := c_closing c,
        c_abort := c_abort c\<rparr>
      = (e\<lparr>c_outbox := c_outbox d, c_queued := c_queued d, c_closing := c_closing d,
        c_abort := c_abort d\<rparr>)\<lparr>c_outbox := c_outbox c, c_queued := c_queued c,
        c_closing := c_closing c, c_abort := c_abort c\<rparr>"
    by simp
  also have "\<dots> = c" by (simp only: assms)
  finally show ?thesis .
qed

lemma conn_step_trans:
  assumes 1: "conn_step cap c d" and 2: "conn_step cap d e"
  shows "conn_step cap c e"
proof -
  from 1 obtain xs where 3: "c_outbox d = c_outbox c @ xs" "c_closing c \<longrightarrow> d = c"
    "outbox_ok cap c \<longrightarrow> outbox_ok cap d"
    by (auto simp: conn_step_def)
  from 2 obtain ys where 4: "c_outbox e = c_outbox d @ ys" "c_closing d \<longrightarrow> e = d"
    "outbox_ok cap d \<longrightarrow> outbox_ok cap e"
    by (auto simp: conn_step_def)
  from 1 2 have "e\<lparr>c_outbox := c_outbox c, c_queued := c_queued c, c_closing := c_closing c,
       c_abort := c_abort c\<rparr> = c"
    unfolding conn_step_def by (blast intro: conn_step_erase)
  moreover have "\<exists>sent. c_outbox e = c_outbox c @ sent" using 3(1) 4(1) by simp
  ultimately show ?thesis using 3(2,3) 4(2,3) unfolding conn_step_def by blast
qed

section \<open>The server\<close>

abbreviation out_limit :: "server \<Rightarrow> nat" where
  "out_limit s \<equiv> limit s ''maxBufferedBytes''"

definition quiet :: "server \<Rightarrow> server \<Rightarrow> bool" where
  "quiet s t \<longleftrightarrow>
     t\<lparr>diagnostics := diagnostics s, connections := connections s, world := world s\<rparr> = s \<and>
     (world t)\<lparr>w_ticks := w_ticks (world s)\<rparr> = world s \<and>
     (diag_bounded (diagnostics s) \<longrightarrow> diag_bounded (diagnostics t)) \<and>
     keys (connections t) = keys (connections s) \<and>
     (\<forall>cid. rel_option (conn_step (out_limit s)) (conn_of s cid) (conn_of t cid))"

lemma quiet_frame:
  assumes "quiet s t"
  shows "players t = players s" "rooms t = rooms s" "config t = config s" "store t = store s"
    "delayed t = delayed s" "push t = push s" "pushes_in_flight t = pushes_in_flight s"
    "legacy_pushes t = legacy_pushes s" "notice_wake t = notice_wake s"
    "legacy_wake t = legacy_wake s" "keys (connections t) = keys (connections s)"
    "future_ids (world t) = future_ids (world s)"
proof -
  from assms have t: "t\<lparr>diagnostics := diagnostics s, connections := connections s,
      world := world s\<rparr> = s" (is "?t = s")
    and w: "(world t)\<lparr>w_ticks := w_ticks (world s)\<rparr> = world s" (is "?w = _")
    by (simp_all add: quiet_def)
  have "players ?t = players t" "rooms ?t = rooms t" "config ?t = config t" "store ?t = store t"
    "delayed ?t = delayed t" "push ?t = push t" "pushes_in_flight ?t = pushes_in_flight t"
    "legacy_pushes ?t = legacy_pushes t" "notice_wake ?t = notice_wake t"
    "legacy_wake ?t = legacy_wake t"
    by simp_all
  then show "players t = players s" "rooms t = rooms s" "config t = config s"
    "store t = store s" "delayed t = delayed s" "push t = push s"
    "pushes_in_flight t = pushes_in_flight s" "legacy_pushes t = legacy_pushes s"
    "notice_wake t = notice_wake s" "legacy_wake t = legacy_wake s"
    unfolding t by simp_all
  show "keys (connections t) = keys (connections s)" using assms by (simp add: quiet_def)
  have "future_ids ?w = future_ids (world t)" by (simp add: future_ids_def)
  then show "future_ids (world t) = future_ids (world s)" unfolding w by simp
qed

lemma quiet_refl [simp]: "quiet s s"
  by (simp add: quiet_def option.rel_refl)

lemma quiet_trans:
  assumes 1: "quiet s t" and 2: "quiet t u"
  shows "quiet s u"
proof -
  from 1 have t: "t\<lparr>diagnostics := diagnostics s, connections := connections s,
      world := world s\<rparr> = s" and wt: "(world t)\<lparr>w_ticks := w_ticks (world s)\<rparr> = world s"
    by (simp_all add: quiet_def)
  from 2 have u: "u\<lparr>diagnostics := diagnostics t, connections := connections t,
      world := world t\<rparr> = t" and wu: "(world u)\<lparr>w_ticks := w_ticks (world t)\<rparr> = world t"
    by (simp_all add: quiet_def)
  have "u\<lparr>diagnostics := diagnostics s, connections := connections s, world := world s\<rparr>
      = (u\<lparr>diagnostics := diagnostics t, connections := connections t, world := world t\<rparr>)
          \<lparr>diagnostics := diagnostics s, connections := connections s, world := world s\<rparr>"
    by simp
  also have "\<dots> = s" by (simp only: t u)
  finally have U: "u\<lparr>diagnostics := diagnostics s, connections := connections s,
      world := world s\<rparr> = s" .
  have "(world u)\<lparr>w_ticks := w_ticks (world s)\<rparr>
      = ((world u)\<lparr>w_ticks := w_ticks (world t)\<rparr>)\<lparr>w_ticks := w_ticks (world s)\<rparr>"
    by simp
  also have "\<dots> = world s" by (simp only: wt wu)
  finally have W: "(world u)\<lparr>w_ticks := w_ticks (world s)\<rparr> = world s" .
  have c: "rel_option (conn_step (out_limit s)) (conn_of s cid) (conn_of u cid)" for cid
  proof -
    have "rel_option (conn_step (out_limit s)) (conn_of s cid) (conn_of t cid)"
      "rel_option (conn_step (out_limit s)) (conn_of t cid) (conn_of u cid)"
      using 1 2 quiet_frame(3) [OF 1] by (simp_all add: quiet_def)
    then show ?thesis
      by (cases "conn_of s cid"; cases "conn_of t cid"; cases "conn_of u cid")
        (auto intro: conn_step_trans)
  qed
  have "diag_bounded (diagnostics s) \<longrightarrow> diag_bounded (diagnostics u)"
    using 1 2 by (simp add: quiet_def)
  with U W c quiet_frame(11) [OF 1] quiet_frame(11) [OF 2] show ?thesis
    by (simp only: quiet_def) blast
qed

lemma quiet_fold:
  assumes "\<And>x s. quiet s (f x s)"
  shows "quiet s (fold f xs s)"
  by (induction xs arbitrary: s) (auto intro: quiet_trans assms)

lemma quiet_conn:
  assumes "quiet s t" "conn_of s cid = Some c"
  obtains d where "conn_of t cid = Some d" "conn_step (out_limit s) c d"
proof -
  have "rel_option (conn_step (out_limit s)) (conn_of s cid) (conn_of t cid)"
    using assms(1) by (simp add: quiet_def)
  with assms(2) that show thesis by (auto simp: option_rel_Some1)
qed

lemma quiet_conn_player:
  assumes "quiet s t"
  shows "map_option c_player (conn_of t cid) = map_option c_player (conn_of s cid)"
proof -
  have "rel_option (conn_step (out_limit s)) (conn_of s cid) (conn_of t cid)"
    using assms by (simp add: quiet_def)
  then show ?thesis by (cases rule: option.rel_cases) (auto dest: conn_step_fields(1))
qed

section \<open>The interface of the transport\<close>

locale transport_op =
  fixes f :: "server \<Rightarrow> server"
  assumes quiet_op: "quiet s (f s)"
begin

lemmas kept [simp, frame] = quiet_frame [OF quiet_op]

lemma conn_player [simp]:
  "map_option c_player (conn_of (f s) cid) = map_option c_player (conn_of s cid)"
  by (rule quiet_conn_player [OF quiet_op])

lemma known [simp]: "conn_of (f s) cid = None \<longleftrightarrow> conn_of s cid = None"
  using conn_player [of s cid] by (cases "conn_of s cid"; cases "conn_of (f s) cid") auto

lemma closing_frozen:
  "conn_of s cid = Some c \<Longrightarrow> c_closing c \<Longrightarrow> conn_of (f s) cid = Some c"
  by (erule quiet_conn [OF quiet_op]) (auto simp: conn_step_def)

lemma budget:
  "conn_of s cid = Some c \<Longrightarrow> outbox_ok (out_limit s) c \<Longrightarrow>
   \<exists>d. conn_of (f s) cid = Some d \<and> outbox_ok (out_limit s) d"
  by (erule quiet_conn [OF quiet_op]) (auto simp: conn_step_def)

lemma diag: "diag_bounded (diagnostics s) \<Longrightarrow> diag_bounded (diagnostics (f s))"
  using quiet_op [of s] by (simp add: quiet_def)

lemma then_quiet: "quiet t s \<Longrightarrow> quiet t (f s)"
  by (rule quiet_trans [OF _ quiet_op])

end

lemma event_world: "\<exists>n. snd (event X e v (d, w)) = w\<lparr>w_ticks := n\<rparr>"
proof -
  have id: "\<exists>n. w = w\<lparr>w_ticks := n\<rparr>" for w :: world
    by (rule exI [of _ "w_ticks w"]) simp
  show ?thesis
    by (auto simp: event_def event_log_def event_errors_def Let_def now_def id
        split: option.splits)
qed

lemma quiet_emit: "quiet s (emit X e v s)"
proof -
  obtain d w where dw: "event X e v (diagnostics s, world s) = (d, w)" by fastforce
  have "diag_bounded (diagnostics s) \<longrightarrow> diag_bounded d"
    using event_bounded [of "diagnostics s" X e v "world s"] dw by simp
  moreover obtain n where "w = (world s)\<lparr>w_ticks := n\<rparr>"
    using event_world [of X e v "diagnostics s" "world s"] dw by auto
  ultimately show ?thesis
    by (simp add: quiet_def emit_def dw option.rel_refl)
qed

interpretation emit: transport_op "emit X e v" for X e v
  by unfold_locales (rule quiet_emit)

lemma connections_emit [simp]: "connections (emit X e v s) = connections s"
  by (simp add: emit_def split: prod.splits)

interpretation log_frame: transport_op "log_frame X cid dir m" for X cid dir m
  by unfold_locales (simp add: log_frame_def emit.quiet_op split: option.splits)

lemma connections_log_frame [simp]: "connections (log_frame X cid dir m s) = connections s"
  by (simp add: log_frame_def split: option.splits)

text \<open>A change of one connection that is a step of it.\<close>

lemma quiet_put_conn:
  assumes q: "quiet s t" and c: "conn_of s cid = Some c" and eq: "connections t = connections s"
    and step: "conn_step (out_limit s) c d"
  shows "quiet s (put_conn cid d t)"
proof -
  have "cid \<in> set (keys (connections s))"
    using c by (metis map_of_eq_None_iff option.distinct(1) set_map)
  then have "keys (AList.update cid d (connections s)) = keys (connections s)"
    by (simp add: AList.update_keys)
  moreover have "rel_option (conn_step (out_limit s)) (conn_of s j)
      (map_of (AList.update cid d (connections s)) j)" for j
    using c step by (simp add: update_conv' option.rel_refl)
  moreover from q have "t\<lparr>diagnostics := diagnostics s, connections := connections s,
      world := world s\<rparr> = s" "(world t)\<lparr>w_ticks := w_ticks (world s)\<rparr> = world s"
      "diag_bounded (diagnostics s) \<longrightarrow> diag_bounded (diagnostics t)"
    unfolding quiet_def by blast+
  ultimately show ?thesis
    by (simp add: quiet_def eq)
qed

section \<open>Every sending function is one\<close>

lemma conn_step_close:
  assumes "\<not> c_closing c"
  shows "conn_step cap c (c\<lparr>c_closing := True, c_abort := a\<rparr>)"
  using assms by (simp add: conn_step_def outbox_ok_def waiting_def)

lemma conn_step_append:
  assumes "\<not> c_closing c" "c_queued c + cost m \<le> cap"
  shows "conn_step cap c ((if is_close m then c\<lparr>c_closing := True\<rparr> else c)
      \<lparr>c_queued := c_queued c + cost m, c_outbox := c_outbox c @ [m]\<rparr>)" (is "conn_step cap c ?d")
proof -
  have "outbox_ok cap c \<Longrightarrow> outbox_ok cap ?d"
    using assms by (auto simp: outbox_ok_def waiting_def list_all_iff list_ex_iff
        dest: in_set_butlastD)
  with assms show ?thesis by (simp add: conn_step_def)
qed

lemma quiet_raw: "quiet s (raw X cid m s)"
proof (cases "conn_of s cid")
  case None
  then show ?thesis by (simp add: raw_def)
next
  case (Some c)
  let ?c1 = "if is_close m then c\<lparr>c_closing := True\<rparr> else c"
  show ?thesis
  proof (cases "c_closing c")
    case True
    with Some show ?thesis by (simp add: raw_def)
  next
    case active: False
    show ?thesis
    proof (cases "c_queued c + cost m > out_limit s")
      case True
      let ?d = "c\<lparr>c_closing := True\<rparr>"
      let ?t = "put_conn cid ?d s"
      have c1: "?c1\<lparr>c_closing := True\<rparr> = ?d" "c_queued ?c1 = c_queued c"
        "?c1\<lparr>c_closing := True, c_abort := True\<rparr> = c\<lparr>c_closing := True, c_abort := True\<rparr>"
        by simp_all
      have "raw X cid m s = put_conn cid (c\<lparr>c_closing := True, c_abort := True\<rparr>)
          (emit X ''connection.terminate'' (JObj [(''connectionId'', jnat cid),
             (''reason'', JStr ''output_buffer_limit'')]) ?t)" (is "_ = put_conn cid ?e ?u")
        using Some active True by (simp add: raw_def Let_def)
      moreover have "quiet s (put_conn cid ?e ?u)"
      proof -
        have "put_conn cid ?e ?u = put_conn cid ?e (emit X ''connection.terminate''
            (JObj [(''connectionId'', jnat cid), (''reason'', JStr ''output_buffer_limit'')]) s)"
          by (simp add: emit_def update_triv split: prod.splits)
        moreover have "quiet s (put_conn cid ?e (emit X ''connection.terminate''
            (JObj [(''connectionId'', jnat cid), (''reason'', JStr ''output_buffer_limit'')]) s))"
          by (rule quiet_put_conn [OF emit.quiet_op Some])
            (simp_all add: active conn_step_close)
        ultimately show ?thesis by (simp only:)
      qed
      ultimately show ?thesis by simp
    next
      case False
      then have le: "c_queued c + cost m \<le> out_limit s" by simp
      have step: "conn_step (out_limit s) c (if c_open c
          then ?c1\<lparr>c_queued := c_queued c + cost m, c_outbox := c_outbox c @ [m]\<rparr> else ?c1)"
        using active conn_step_append [OF active le]
          conn_step_close [OF active, of _ "c_abort c"]
        by simp
      have "raw X cid m s = put_conn cid (if c_open c
          then ?c1\<lparr>c_queued := c_queued c + cost m, c_outbox := c_outbox c @ [m]\<rparr> else ?c1)
          (log_frame X cid ''out'' m s)"
        using Some active False by (simp add: raw_def Let_def)
      also have "quiet s \<dots>"
        by (rule quiet_put_conn [OF log_frame.quiet_op Some]) (simp_all only: step connections_log_frame)
      finally show ?thesis .
    qed
  qed
qed

interpretation raw: transport_op "raw X cid m" for X cid m
  by unfold_locales (rule quiet_raw)

interpretation send_c: transport_op "send_c X cid v" for X cid v
  by unfold_locales (simp add: send_c_def raw.quiet_op split: option.splits)

interpretation send: transport_op "send X p v" for X p v
  by unfold_locales (simp add: send_def send_c.quiet_op split: option.splits)

interpretation send_bytes: transport_op "send_bytes X p b" for X p b
  by unfold_locales (simp add: send_bytes_def raw.quiet_op split: option.splits)

interpretation error: transport_op "error X cid e" for X cid e
  by unfold_locales (simp add: error_def send_c.then_quiet emit.quiet_op)

interpretation err: transport_op "err X p e" for X p e
  by unfold_locales (simp add: err_def send.then_quiet emit.quiet_op)

interpretation close: transport_op "close X cid code reason" for X cid code reason
  by unfold_locales (simp add: close_def raw.quiet_op)

interpretation broadcast_frame: transport_op "broadcast_frame X r m except targets"
  for X r m except targets
  by unfold_locales
    (auto simp: broadcast_frame_def raw.quiet_op intro!: quiet_fold split: option.splits)

interpretation broadcast: transport_op "broadcast X r v except targets" for X r v except targets
  by unfold_locales (simp add: broadcast_def broadcast_frame.quiet_op split: option.splits)

interpretation lobby: transport_op "lobby X v" for X v
  by unfold_locales
    (auto simp: lobby_def raw.quiet_op intro!: quiet_fold split: option.splits prod.splits)

interpretation reply: transport_op "reply X p q v" for X p q v
  by unfold_locales (simp add: reply_def send.quiet_op)

interpretation relay: transport_op "\<lambda>s. snd (relay X p v s)" for X p v
  by unfold_locales (simp add: relay_def err.quiet_op split: option.splits)

end
