(* ===== verification/Rooms.thy ===== *)
theory Rooms
  imports Transport
begin

text \<open>
  Membership and accounts: the operations of \<open>rust/server.rs\<close> from \<open>disconnect\<close> to \<open>leave\<close>.
  A player taken out of a room, the room taken out of the map while it is worked on, and the
  choice of the next owner are the code's, in its order. \<^const>\<open>Panic\<close> stands for an
  \<open>unwrap\<close> or an index that fails.
\<close>

section \<open>Leaving\<close>

definition keep :: "externals \<Rightarrow> room \<Rightarrow> server \<Rightarrow> server" where
  "keep X r s =
     (if r_persistent r \<and> r_active r = [] then
        let (saved, s1) = with_store (save X r) s in
        if saved then
          let (ids, s2) = with_store (prune X (keys (rooms s1))) s1 in
          case ids of
            None \<Rightarrow> s2
          | Some removed \<Rightarrow> fold (\<lambda>i s. lobby X (msg ''roomDeleted'' (JStr i)) s) removed s2
        else put_room (r_id r) r s1
      else put_room (r_id r) r s)"

text \<open>The member's place in the room: the active list, the upload and the reservation.\<close>

definition depart :: "string \<Rightarrow> bool \<Rightarrow> room \<Rightarrow> room" where
  "depart p disconnected r =
     r\<lparr>r_active := removeAll p (r_active r),
       r_upload := (case r_upload r of
           Some u \<Rightarrow> if u_owner u = p then None else Some u | None \<Rightarrow> None),
       r_reservations := (if disconnected \<and> r_started r then set_insert p (r_reservations r)
                          else removeAll p (r_reservations r))\<rparr>"

text \<open>The departure of the host of a fixed roster without migration empties the room.\<close>

definition host_lost :: "string \<Rightarrow> room \<Rightarrow> bool" where
  "host_lost p r \<longleftrightarrow> r_started r \<and> r_fixed r \<and> \<not> r_migration r \<and> r_owner r = p"

definition vacate :: "player \<Rightarrow> player" where
  "vacate pl = pl\<lparr>p_room := None, p_entered := None, p_version := p_version pl + 1\<rparr>"

definition evict :: "string list \<Rightarrow> server \<Rightarrow> server" where
  "evict ids s = s\<lparr>players := fold (\<lambda>i m. AList.map_entry i vacate m) ids (players s)\<rparr>"

definition hand_over :: "externals \<Rightarrow> string \<Rightarrow> room \<Rightarrow> server \<Rightarrow> (room \<times> server) option" where
  "hand_over X p r s =
     (if r_owner r \<noteq> p then Some (r, s)
      else case r_active r of
          [] \<Rightarrow> None
        | next_owner # _ \<Rightarrow>
            let r1 = r\<lparr>r_owner := next_owner, r_generation := r_generation r + 1\<rparr>;
                s1 = emit X ''room.owner_changed''
                       (JObj [(''roomId'', JStr (r_id r1)), (''ownerId'', JStr next_owner)]) s
            in Some (r1, broadcast X r1 (msg ''newRoomOwner''
                 (if r_migration r1
                  then JObj [(''playerId'', JStr next_owner), (''generation'', jnat (r_generation r1))]
                  else JStr next_owner)) None None s1))"

definition announce_roster :: "externals \<Rightarrow> room \<Rightarrow> server \<Rightarrow> server" where
  "announce_roster X r s =
     (if r_started r \<and> r_fixed r then
        fold (\<lambda>i s. case player_of s i of
                Some pl \<Rightarrow> if p_room pl = None then send X i (msg ''roomCreated'' (dto s r)) s else s
              | None \<Rightarrow> s) (r_players r) s
      else s)"

text \<open>The room without members goes to the store or is deleted.\<close>

definition drop_room :: "externals \<Rightarrow> room \<Rightarrow> server \<Rightarrow> server" where
  "drop_room X r s =
     (if r_persistent r then keep X r s
      else lobby X (msg ''roomDeleted'' (JStr (r_id r)))
             (emit X ''room.deleted'' (JObj [(''roomId'', JStr (r_id r))]) s))"

definition leave_room :: "externals \<Rightarrow> string \<Rightarrow> bool \<Rightarrow> room \<Rightarrow> server \<Rightarrow> server outcome" where
  "leave_room X p disconnected r s =
     (let s1 = emit X ''room.left'' (JObj [(''roomId'', JStr (r_id r)), (''playerId'', JStr p)]) s;
          r1 = depart p disconnected r;
          s2 = broadcast X r1 (msg (if disconnected then ''playerDisconnected'' else ''playerLeft'')
                 (JStr p)) None None s1;
          (r2, s3) = (if host_lost p r1 then (r1\<lparr>r_active := []\<rparr>, evict (r_active r1) s2)
                      else (r1, s2))
      in if r_active r2 = [] then Ret (drop_room X r2 s3)
         else case hand_over X p r2 s3 of
             None \<Rightarrow> Panic
           | Some (r3, s4) \<Rightarrow> Ret (put_room (r_id r3) r3 (announce_roster X r3 s4)))"

definition unreserve :: "string \<Rightarrow> server \<Rightarrow> server" where
  "unreserve p s =
     s\<lparr>rooms := map_values (\<lambda>r. r\<lparr>r_reservations := removeAll p (r_reservations r)\<rparr>) (rooms s)\<rparr>"

definition leave :: "externals \<Rightarrow> string \<Rightarrow> bool \<Rightarrow> server \<Rightarrow> server outcome" where
  "leave X p disconnected s =
     (case player_of s p of
        None \<Rightarrow> Panic
      | Some pl \<Rightarrow>
          let s1 = put_player p (vacate pl) s;
              s2 = (if disconnected then s1 else unreserve p s1)
          in case p_room pl of
               None \<Rightarrow> Ret s2
             | Some i \<Rightarrow>
                 (case room_at s2 i of
                    None \<Rightarrow> Ret s2
                  | Some r \<Rightarrow>
                      leave_room X p disconnected r (s2\<lparr>rooms := AList.delete i (rooms s2)\<rparr>)))"

text \<open>\<open>let _ = \<dots>\<close>: an error is dropped, a panic is not.\<close>

fun ignore :: "'a outcome \<Rightarrow> 'a outcome" where
  "ignore Panic = Panic"
| "ignore (Fail s) = Ret s"
| "ignore (Ret s) = Ret s"

lemma after_ignore [simp]: "after P (ignore r) = after P r"
  by (cases r) auto

definition disconnect :: "externals \<Rightarrow> nat \<Rightarrow> server \<Rightarrow> server outcome" where
  "disconnect X cid s =
     (case conn_of s cid of
        None \<Rightarrow> Ret s
      | Some c \<Rightarrow>
          let s1 = emit X ''connection.disconnected'' (JObj [(''connectionId'', jnat cid)]) s;
              s2 = s1\<lparr>delayed := filter (\<lambda>d. dl_cid d \<noteq> cid) (delayed s1),
                      connections := AList.delete cid (connections s1)\<rparr>
          in case c_player c of
               None \<Rightarrow> Ret s2
             | Some i \<Rightarrow>
                 (case player_of s2 i of
                    None \<Rightarrow> Ret s2
                  | Some pl \<Rightarrow>
                      if p_connection pl = Some cid then
                        let (t, s3) = clock s2 in
                        ignore (leave X i True
                          (put_player i (pl\<lparr>p_connection := None, p_offline := Some t\<rparr>) s3))
                      else Ret s2))"

section \<open>Accounts\<close>

definition expired :: "nat \<Rightarrow> server \<Rightarrow> player \<Rightarrow> bool" where
  "expired t s pl \<longleftrightarrow> p_connection pl = None \<and>
     (case p_offline pl of None \<Rightarrow> False | Some since \<Rightarrow> t - since \<ge> limit s ''accountTtlMs'') \<and>
     \<not> list_ex (\<lambda>(_, r). r_fixed r \<and> p_id pl \<in> set (r_players r)) (rooms s)"

definition expire_one :: "externals \<Rightarrow> string \<Rightarrow> server \<Rightarrow> server" where
  "expire_one X i s =
     unreserve i (emit X ''account.expired'' (JObj [(''playerId'', JStr i)])
       (s\<lparr>players := AList.delete i (players s)\<rparr>))"

definition expire :: "externals \<Rightarrow> server \<Rightarrow> server" where
  "expire X s =
     (let (t, s1) = clock s
      in fold (expire_one X)
           (map (p_id \<circ> snd) (filter (expired t s1 \<circ> snd) (players s1))) s1)"

text \<open>The account a login names: in memory, or else retained by the store (\<^const>\<open>None\<close> is \<open>Err\<close>).\<close>

definition find_account :: "externals \<Rightarrow> string \<Rightarrow> server \<Rightarrow> player option option \<times> server" where
  "find_account X key s =
     (case player_of s key of
        Some pl \<Rightarrow> (Some (Some pl), s)
      | None \<Rightarrow>
          if uuid (JStr key)
          then let (r, w) = account X key (store s, world s) in (r, s\<lparr>world := w\<rparr>)
          else (Some None, s))"

definition auth_failed :: "externals \<Rightarrow> nat \<Rightarrow> server \<Rightarrow> server" where
  "auth_failed X cid s =
     close X cid 1008 ''Authentication failed''
       (send_c X cid (JObj [(''method'', JStr ''wrongPassword'')])
         (emit X ''authentication.failed'' (JObj [(''connectionId'', jnat cid)]) s))"

definition udp_info :: "server \<Rightarrow> (string \<times> json) list" where
  "udp_info s =
     [(''maxDatagramBytes'', jnat (limit s ''udpMaxDatagramBytes'')),
      (''maxPayloadBytes'', jnat (limit s ''udpMaxDatagramBytes'' - 69)),
      (''endpointTtlMs'', jnat (limit s ''udpEndpointTtlMs'')),
      (''challengeTtlMs'', jnat (limit s ''udpChallengeTtlMs'')),
      (''incomingPacketsPerSecond'', jnat (limit s ''udpIncomingPacketsPerSecond'')),
      (''outgoingPacketsPerSecond'', jnat (limit s ''udpOutgoingPacketsPerSecond''))]"

definition connected_data :: "server \<Rightarrow> json" where
  "connected_data s =
     (let v0 = JObj [(''online'', jnat (online s))];
          v1 = (if st_enabled (store s) then setk ''persistentSessions'' (JBool True) v0 else v0);
          v2 = (if push s then setk ''pushNotifications'' (JBool True) v1 else v1)
      in if cfg_b (config s) ''udpEnabled''
         then setk ''udpRelay'' (JObj ((''version'', jnat 1) #
                (''port'', jnat (limit s ''udpPort'')) # udp_info s)) v2
         else v2)"

text \<open>The answer to a login: \<open>accountCreated\<close>, \<open>onConnected\<close>, and the room it is in.\<close>

definition greet :: "externals \<Rightarrow> nat \<Rightarrow> bool \<Rightarrow> string \<Rightarrow> player \<Rightarrow> server \<Rightarrow> server" where
  "greet X cid created i pl s =
     (let s1 = emit X ''authentication.succeeded'' (JObj [(''connectionId'', jnat cid),
                 (''playerId'', JStr i), (''created'', JBool created)]) s;
          s2 = (if created
                then send_c X cid (msg ''accountCreated'' (JObj [(''name'', JStr (p_name pl)),
                       (''playerId'', JStr i), (''password'', JStr (p_password pl))])) s1
                else s1);
          s3 = send_c X cid (msg ''onConnected'' (connected_data s2)) s2
      in case Option.bind (p_room pl) (room_at s3) of
           None \<Rightarrow> s3
         | Some r \<Rightarrow> send_c X cid (msg ''onRoomEnter'' (dto s3 r)) s3)"

text \<open>The player is bound to the connection and saved.\<close>

definition bind_account :: "externals \<Rightarrow> nat \<Rightarrow> bool \<Rightarrow> string \<Rightarrow> server \<Rightarrow> server outcome" where
  "bind_account X cid created i s =
     (case player_of s i of
        None \<Rightarrow> Panic
      | Some pl \<Rightarrow>
          let pl1 = pl\<lparr>p_connection := Some cid, p_offline := None, p_rtt := None\<rparr>;
              s1 = put_player i pl1 s
          in case conn_of s1 cid of
               None \<Rightarrow> Panic
             | Some c \<Rightarrow>
                 let s2 = put_conn cid (c\<lparr>c_player := Some i\<rparr>) s1;
                     (saved, s3) = with_store (save_account X pl1) s2
                 in if saved then Ret (greet X cid created i pl1 s3) else Fail s3)"

definition replace_session :: "externals \<Rightarrow> player \<Rightarrow> server \<Rightarrow> server" where
  "replace_session X pl s =
     (case p_connection pl of
        None \<Rightarrow> s
      | Some old \<Rightarrow>
          let s1 = close X old 1008 ''Session replaced''
                (emit X ''connection.terminate'' (JObj [(''reason'', JStr ''session_replaced''),
                   (''connectionId'', jnat old)]) s)
          in s1\<lparr>delayed := filter (\<lambda>d. dl_cid d \<noteq> old) (delayed s1)\<rparr>)"

definition in_fixed_game :: "server \<Rightarrow> player \<Rightarrow> bool" where
  "in_fixed_game s pl = (case Option.bind (p_room pl) (room_at s) of
      None \<Rightarrow> False | Some r \<Rightarrow> r_started r \<and> r_fixed r)"

definition finish_login ::
  "externals \<Rightarrow> nat \<Rightarrow> json \<Rightarrow> string \<Rightarrow> player \<Rightarrow> server \<Rightarrow> server outcome" where
  "finish_login X cid d i pl s =
     (let s1 = replace_session X pl s;
          pl1 = (case as_str (idx d ''name'') of Some n \<Rightarrow> pl\<lparr>p_name := n\<rparr> | None \<Rightarrow> pl)
      in bind_account X cid False i (put_player i pl1 s1))"

definition login :: "externals \<Rightarrow> nat \<Rightarrow> json \<Rightarrow> player \<Rightarrow> server \<Rightarrow> server outcome" where
  "login X cid d pl s =
     (let i = p_id pl;
          s1 = (if player_of s i = None then put_player i pl s else s)
      in if in_fixed_game s1 pl
         then andthen (leave X i True s1) (\<lambda>s2.
                case player_of s2 i of
                  None \<Rightarrow> Panic
                | Some pl2 \<Rightarrow> finish_login X cid d i pl2 s2)
         else finish_login X cid d i pl s1)"

definition auth :: "externals \<Rightarrow> nat \<Rightarrow> json \<Rightarrow> server \<Rightarrow> server outcome" where
  "auth X cid d s0 =
     (let s = expire X s0 in
      if getk d ''playerId'' = None \<and> getk d ''password'' = None then
        if length (players s) \<ge> limit s ''maxAccounts''
        then Ret (close X cid 1008 ''Account limit'' (error X cid ''limit_exceeded'' s))
        else
          let (pl, s1) = with_world (player_new X (str_or ''Player'' (idx d ''name''))) s
          in bind_account X cid True (p_id pl) (put_player (p_id pl) pl s1)
      else
        let (found, s1) = find_account X (str_or '''' (idx d ''playerId'')) s in
        case found of
          None \<Rightarrow> Fail s1
        | Some None \<Rightarrow> Ret (auth_failed X cid s1)
        | Some (Some pl) \<Rightarrow>
            if p_password pl = str_or '''' (idx d ''password'') then login X cid d pl s1
            else Ret (auth_failed X cid s1))"

section \<open>Entering\<close>

definition entry_error :: "string \<Rightarrow> json \<Rightarrow> room \<Rightarrow> string option" where
  "entry_error p password r =
     (if \<not> r_started r \<and> r_closed r then Some ''room_closed''
      else if r_started r \<and> \<not> rejoin r p then Some ''game_started_without_you''
      else if \<not> r_started r \<and> password \<noteq> r_password r then Some ''wrong_password''
      else if length (r_active r) \<ge> r_max r then Some ''full_room''
      else None)"

text \<open>The first member back in a persistent room becomes its owner.\<close>

definition join :: "string \<Rightarrow> room \<Rightarrow> room" where
  "join p r =
     (let r1 = (if r_persistent r \<and> r_active r = []
                then r\<lparr>r_owner := p, r_generation := r_generation r + 1, r_upload := None\<rparr> else r)
      in r1\<lparr>r_active := set_insert p (r_active r1),
            r_reservations := removeAll p (r_reservations r1)\<rparr>)"

definition admit :: "externals \<Rightarrow> string \<Rightarrow> string \<Rightarrow> room \<Rightarrow> server \<Rightarrow> server outcome" where
  "admit X p i r s =
     (let s1 = put_room i (join p r) s in
      case player_of s1 p of
        None \<Rightarrow> Panic
      | Some pl \<Rightarrow>
          let (t, s2) = clock s1;
              pl1 = pl\<lparr>p_room := Some i, p_entered := Some t, p_version := p_version pl + 1\<rparr>;
              s3 = emit X ''room.entered'' (JObj [(''roomId'', JStr i), (''playerId'', JStr p)])
                     (put_player p pl1 s2)
          in case room_at s3 i of
               None \<Rightarrow> Panic
             | Some r1 \<Rightarrow>
                 let s4 = broadcast X r1 (msg ''playerEnter'' (player_dto pl1)) (Some p) None s3
                 in Ret (send X p (msg ''onRoomEnter'' (dto s4 r1)) s4))"

definition refuse :: "externals \<Rightarrow> string \<Rightarrow> string \<Rightarrow> room \<Rightarrow> string \<Rightarrow> server \<Rightarrow> server" where
  "refuse X p i r e s =
     (let s1 = err X p e s
      in if r_active r = [] \<and> r_persistent r
         then s1\<lparr>rooms := AList.delete i (rooms s1)\<rparr> else s1)"

definition enter :: "externals \<Rightarrow> string \<Rightarrow> string \<Rightarrow> json \<Rightarrow> server \<Rightarrow> server outcome" where
  "enter X p i password s =
     (case player_of s p of
        None \<Rightarrow> Panic
      | Some pl \<Rightarrow>
          (case p_room pl of
             Some j \<Rightarrow> Ret (err X p (if j = i then ''already_in_room'' else ''in_other_room'') s)
           | None \<Rightarrow>
               let (loaded, w) = (if room_at s i \<noteq> None then (Some None, world s)
                                  else load X i True (store s, world s));
                   s1 = s\<lparr>world := w\<rparr>
               in case loaded of
                    None \<Rightarrow> Fail s1
                  | Some found \<Rightarrow>
                      let s2 = (case found of None \<Rightarrow> s1 | Some r \<Rightarrow> put_room i r s1) in
                      (case room_at s2 i of
                         None \<Rightarrow> Ret (err X p ''no_room'' s2)
                       | Some r \<Rightarrow>
                           (case entry_error p password r of
                              Some e \<Rightarrow> Ret (refuse X p i r e s2)
                            | None \<Rightarrow> admit X p i r s2))))"

end
