(* ===== verification/Jobs.thy ===== *)
theory Jobs
  imports Store
begin

text \<open>
  The notification jobs held in memory are JSON objects, whatever the store does: the push
  delivery writes their fields by key, which would panic on any other value.
\<close>

definition sound_jobs :: "store \<Rightarrow> bool" where
  "sound_jobs st \<longleftrightarrow> list_all (\<lambda>(i, js). list_all is_object js) (st_jobs st)"

definition keeps_jobs :: "(sw \<Rightarrow> 'a \<times> sw) \<Rightarrow> bool" where
  "keeps_jobs f \<longleftrightarrow>
     (\<forall>st w a st' w'. f (st, w) = (a, st', w') \<longrightarrow> sound_jobs st \<longrightarrow> sound_jobs st')"

lemma keeps_jobsI:
  "(\<And>st w a st' w'. f (st, w) = (a, st', w') \<Longrightarrow> sound_jobs st \<Longrightarrow> sound_jobs st') \<Longrightarrow> keeps_jobs f"
  unfolding keeps_jobs_def by blast

lemma keeps_jobsD:
  "keeps_jobs f \<Longrightarrow> f (st, w) = (a, st', w') \<Longrightarrow> sound_jobs st \<Longrightarrow> sound_jobs st'"
  unfolding keeps_jobs_def by blast

lemma sound_jobs_frame: "st_jobs st' = st_jobs st \<Longrightarrow> sound_jobs st' = sound_jobs st"
  by (simp add: sound_jobs_def)

lemma sound_jobs_at: "sound_jobs st \<Longrightarrow> map_of (st_jobs st) i = Some js \<Longrightarrow> list_all is_object js"
  by (auto simp: sound_jobs_def list_all_iff dest: map_of_SomeD)

lemma sound_jobs_update:
  "sound_jobs st \<Longrightarrow> list_all is_object js \<Longrightarrow> sound_jobs (st\<lparr>st_jobs := AList.update i js (st_jobs st)\<rparr>)"
proof -
  have "list_all (\<lambda>(i, js). list_all is_object js) (AList.update i js xs)"
    if "list_all (\<lambda>(i, js). list_all is_object js) xs" "list_all is_object js" for xs
    using that by (induction xs) auto
  then show "sound_jobs st \<Longrightarrow> list_all is_object js \<Longrightarrow> ?thesis" by (simp add: sound_jobs_def)
qed

lemma sound_jobs_delete:
  "sound_jobs st \<Longrightarrow> sound_jobs (st\<lparr>st_jobs := AList.delete i (st_jobs st)\<rparr>)"
  by (auto simp: sound_jobs_def list_all_iff AList.delete_eq)

section \<open>Files hold no jobs of memory\<close>

lemma write_parts_jobs: "write_parts f bs (st, w) = (ok, st', w') \<Longrightarrow> st_jobs st' = st_jobs st"
  by (induction bs arbitrary: st w) (auto simp: put_file_def split: prod.splits if_splits)

lemma atomic_jobs: "atomic f bs (st, w) = (ok, st', w') \<Longrightarrow> st_jobs st' = st_jobs st"
  by (auto simp: atomic_def Let_def put_file_def split: prod.splits if_splits
      dest!: write_parts_jobs)

lemma remove_file_jobs: "remove_file f (st, w) = (ok, st', w') \<Longrightarrow> st_jobs st' = st_jobs st"
  by (auto simp: remove_file_def split: prod.splits if_splits)

lemma keeps_jobs_save [simp]: "keeps_jobs (save X r)"
  by (rule keeps_jobsI)
    (auto simp: save_def Let_def split: option.splits dest!: atomic_jobs sound_jobs_frame)

lemma keeps_jobs_save_account [simp]: "keeps_jobs (save_account X p)"
  by (rule keeps_jobsI)
    (auto simp: save_account_def split: option.splits if_splits dest!: atomic_jobs sound_jobs_frame)

section \<open>Job lists\<close>

lemma keeps_jobs_set_jobs [simp]:
  assumes "list_all is_object js"
  shows "keeps_jobs (set_jobs X i js)"
proof (rule keeps_jobsI)
  fix st w ok st' w'
  assume run: "set_jobs X i js (st, w) = (ok, st', w')" and st: "sound_jobs st"
  show "sound_jobs st'"
  proof (cases "js = []")
    case True
    with run st show ?thesis
      by (auto simp: set_jobs_def split: option.splits prod.splits if_splits
          dest!: remove_file_jobs sound_jobs_frame intro!: sound_jobs_delete)
  next
    case False
    with run st assms show ?thesis
      by (auto simp: set_jobs_def split: option.splits prod.splits if_splits
          dest!: atomic_jobs sound_jobs_frame intro!: sound_jobs_update)
  qed
qed

lemma is_object_setk [simp]: "is_object v \<Longrightarrow> is_object (setk k w v)"
  by (cases v) (simp_all add: is_object_def)

lemma objects_add_job:
  assumes "n = JNull \<or> is_object n" "list_all is_object previous" "list_all is_object js"
  shows "list_all is_object (add_job es previous n scheduled js)"
  using assms
  by (auto simp: add_job_def job_new_def list_all_iff split: option.split
      dest!: find_Some_iff [THEN iffD1])

lemma keeps_jobs_commit [simp]:
  assumes "scheduled = JNull \<or> is_object scheduled" "immediate = JNull \<or> is_object immediate"
  shows "keeps_jobs (commit X r scheduled immediate)"
proof (rule keeps_jobsI)
  fix st w ok st' w'
  assume run: "commit X r scheduled immediate (st, w) = (ok, st', w')" and st: "sound_jobs st"
  let ?previous = "case map_of (st_jobs st) (r_id r) of Some js \<Rightarrow> js | None \<Rightarrow> []"
  have p: "list_all is_object ?previous"
    using sound_jobs_at [OF st] by (simp split: option.split)
  then have "list_all is_object (committed_jobs (r_events r) ?previous scheduled immediate)"
    unfolding committed_jobs_def
    by (intro objects_add_job assms) (auto simp: retained_def list_all_iff)
  from keeps_jobsD [OF keeps_jobs_set_jobs [OF this] _ st] run show "sound_jobs st'"
    by (auto simp: commit_def Let_def)
qed

lemma prune_remove_jobs:
  "prune_remove X es tot removed (st, w) = (r, st', w') \<Longrightarrow> sound_jobs st \<Longrightarrow> sound_jobs st'"
proof (induction X es tot removed "(st, w)" arbitrary: st w rule: prune_remove.induct)
  case (2 X stamp i sz es tot removed st w)
  show ?case
  proof (cases "tot \<le> st_max st")
    case True
    with 2 show ?thesis by simp
  next
    case False
    show ?thesis
    proof (cases "path ''rooms'' i")
      case None
      with False 2 show ?thesis by simp
    next
      case (Some f)
      obtain gone st1 w1 where 1: "remove_file f (st, w) = (gone, st1, w1)" by (metis prod.exhaust)
      obtain ok st2 w2 where s: "set_jobs X i [] (st1, w1) = (ok, st2, w2)" by (metis prod.exhaust)
      have k1: "sound_jobs st1"
        using remove_file_jobs [OF 1] "2.prems"(2) by (simp add: sound_jobs_def)
      then have k2: "sound_jobs st2" using keeps_jobsD [OF keeps_jobs_set_jobs s] by simp
      show ?thesis
        using "2.prems" False Some 1 s k1 k2 "2.hyps" [OF False Some 1 [symmetric] refl refl _ s [symmetric] refl refl]
        by (auto split: if_splits)
    qed
  qed
qed simp

lemma keeps_jobs_prune [simp]: "keeps_jobs (prune X active)"
  by (rule keeps_jobsI)
    (auto simp: prune_def split: option.splits prod.splits if_splits dest!: prune_remove_jobs)

end
