(* ===== verification/Membership.thy ===== *)
theory Membership
  imports Rooms Jobs
begin

text \<open>
  The books of the server: who is connected as whom and who is in which room, seen from the
  players, from the rooms and from the connections. \<open>books\<close> relates the three lookups, the
  lemmas after it say which changes keep it, and the last section shows that every operation of
  \<open>Rooms\<close> is made of such changes, so it keeps \<open>server_wf\<close> and does not panic.
\<close>

section \<open>The invariant\<close>

text \<open>
  The set \<open>E\<close> holds the players that may be in a room without a connection: the one
  \<open>disconnect\<close> is about to take out. The ids of players and of uploads are UUIDs and the tokens
  of devices are texts: the code unwraps the results of reading them so.
\<close>

definition devices_ok :: "(string, json) imap \<Rightarrow> bool" where
  "devices_ok ds \<longleftrightarrow> imap_ok ds \<and> list_all (\<lambda>(i, v). is_string (idx v ''token'')) ds"

definition player_ok ::
  "string set \<Rightarrow> (nat \<Rightarrow> string option option) \<Rightarrow> string \<Rightarrow> player \<Rightarrow> bool" where
  "player_ok E C p pl \<longleftrightarrow> p_id pl = p \<and> uuid_text p \<and> devices_ok (p_devices pl) \<and>
     (p_room pl \<noteq> None \<longrightarrow> p \<notin> E \<longrightarrow> p_connection pl \<noteq> None) \<and>
     (p_connection pl = None \<longleftrightarrow> p_offline pl \<noteq> None) \<and>
     (\<forall>cid. p_connection pl = Some cid \<longrightarrow> C cid = Some (Some p))"

definition entry_ok :: "string \<Rightarrow> room \<Rightarrow> bool" where
  "entry_ok i r \<longleftrightarrow> r_id r = i \<and> room_ok r \<and> (r_active r = [] \<longrightarrow> r_persistent r) \<and>
     pred_option (\<lambda>u. uuid_text (u_id u)) (r_upload r)"

definition members_agree ::
  "(string \<Rightarrow> player option) \<Rightarrow> (string \<Rightarrow> room option) \<Rightarrow> bool" where
  "members_agree P R \<longleftrightarrow>
     (\<forall>i p. (\<exists>r. R i = Some r \<and> p \<in> set (r_active r)) = (\<exists>pl. P p = Some pl \<and> p_room pl = Some i))"

definition books :: "string set \<Rightarrow> (string \<Rightarrow> player option) \<Rightarrow> (string \<Rightarrow> room option) \<Rightarrow>
    (nat \<Rightarrow> string option option) \<Rightarrow> bool" where
  "books E P R C \<longleftrightarrow> (\<forall>p pl. P p = Some pl \<longrightarrow> player_ok E C p pl) \<and>
     (\<forall>i r. R i = Some r \<longrightarrow> entry_ok i r) \<and> members_agree P R"

abbreviation bound_to :: "server \<Rightarrow> nat \<Rightarrow> string option option" where
  "bound_to s cid \<equiv> map_option c_player (conn_of s cid)"

text \<open>A text frame in the delay queue has been validated: it will be parsed again and unwrapped.\<close>

definition frame_valid :: "externals \<Rightarrow> config \<Rightarrow> delayed_frame \<Rightarrow> bool" where
  "frame_valid X c d \<longleftrightarrow> (case dl_frame d of
       Text t \<Rightarrow> (case parse X t of None \<Rightarrow> False
         | Some v \<Rightarrow> validate v (cfg_n c ''maxRoomPlayers'') (cfg_n c ''maxAccounts''))
     | _ \<Rightarrow> True)"

text \<open>
  The configuration is part of the invariant: it never changes while the server runs. So is a set of
  numbers that has those of all connections: only the opening of a connection adds one.
\<close>

fun wf_but :: "externals \<times> config \<times> nat set \<Rightarrow> string set \<Rightarrow> server \<Rightarrow> bool" where
  "wf_but (X, cf) E s \<longleftrightarrow> config s = fst cf \<and> set (keys (connections s)) \<subseteq> snd cf \<and>
     sound_jobs (store s) \<and>
     imap_ok (players s) \<and> imap_ok (rooms s) \<and> imap_ok (connections s) \<and>
     list_all (frame_valid X (fst cf)) (delayed s) \<and>
     books E (player_of s) (room_at s) (bound_to s)"

lemmas wf_but_def = wf_but.simps
declare wf_but.simps [simp del]

lemma numbers_update: "fst ` set (AList.update k v m) = insert k (fst ` set m)"
  by (simp add: dom_update)

lemma numbers_delete: "fst ` set (AList.delete k m) = fst ` set m - {k}"
  by (auto simp: AList.delete_eq)

lemma wf_number: "wf_but (X, cf) E s \<Longrightarrow> conn_of s cid = Some c \<Longrightarrow> cid \<in> snd cf"
  by (auto simp: wf_but_def dest!: map_of_SomeD)

definition server_wf :: "externals \<Rightarrow> server \<Rightarrow> bool" where
  "server_wf X s \<longleftrightarrow> wf_but (X, config s, UNIV) {} s"

text \<open>The player acts through this connection: what \<open>receive\<close> and \<open>sweep\<close> check.\<close>

definition acting :: "server \<Rightarrow> string \<Rightarrow> nat \<Rightarrow> bool" where
  "acting s p cid \<longleftrightarrow> (\<exists>pl. player_of s p = Some pl \<and> p_connection pl = Some cid)"

section \<open>Changes that keep the books\<close>

lemma player_okD:
  assumes "player_ok E C p pl"
  shows "p_id pl = p" "uuid_text p" "p_connection pl = Some cid \<Longrightarrow> C cid = Some (Some p)"
    "devices_ok (p_devices pl)"
    "p \<notin> E \<Longrightarrow> p_connection pl = None \<Longrightarrow> p_room pl = None"
    "p \<notin> E \<Longrightarrow> p_room pl = Some i \<Longrightarrow> \<exists>cid. p_connection pl = Some cid"
  using assms unfolding player_ok_def by blast+

lemma player_ok_mono: "player_ok E C p pl \<Longrightarrow> E \<subseteq> F \<Longrightarrow> player_ok F C p pl"
  by (auto simp: player_ok_def)

lemma books_mono: "books E P R C \<Longrightarrow> E \<subseteq> F \<Longrightarrow> books F P R C"
  unfolding books_def by (meson player_ok_mono)

lemma wf_mono: "wf_but (X, cf) E s \<Longrightarrow> E \<subseteq> F \<Longrightarrow> wf_but (X, cf) F s"
  unfolding wf_but_def by (meson books_mono)

lemma books_player: "books E P R C \<Longrightarrow> P p = Some pl \<Longrightarrow> player_ok E C p pl"
  by (simp add: books_def)

lemma books_drop:
  assumes "books E P R C" "P p = Some pl" "p_room pl = None"
  shows "books (E - {p}) P R C"
proof -
  have "player_ok (E - {p}) C q ql" if "P q = Some ql" for q ql
    using books_player [OF assms(1) that] assms(2,3) that unfolding player_ok_def by auto
  with assms(1) show ?thesis by (simp add: books_def)
qed

lemma books_room: "books E P R C \<Longrightarrow> R i = Some r \<Longrightarrow> entry_ok i r"
  by (simp add: books_def)

lemma books_member:
  assumes "books E P R C" "R i = Some r"
  shows "p \<in> set (r_active r) \<longleftrightarrow> (\<exists>pl. P p = Some pl \<and> p_room pl = Some i)"
  using assms unfolding books_def members_agree_def by (metis option.inject)

lemma books_in_room:
  assumes "books E P R C" "P p = Some pl" "p_room pl = Some i"
  obtains r where "R i = Some r" "p \<in> set (r_active r)"
  using assms unfolding books_def members_agree_def by metis

lemma vacate_fields [simp]:
  "p_room (vacate pl) = None" "p_id (vacate pl) = p_id pl"
  "p_connection (vacate pl) = p_connection pl" "p_offline (vacate pl) = p_offline pl"
  "p_devices (vacate pl) = p_devices pl"
  by (simp_all add: vacate_def)

text \<open>Members leave a room: it keeps the others, or goes when they were all of them.\<close>

definition vacate_all ::
  "string set \<Rightarrow> (string \<Rightarrow> player option) \<Rightarrow> string \<Rightarrow> player option" where
  "vacate_all M P q = (if q \<in> M then map_option vacate (P q) else P q)"

lemma books_vacate:
  assumes b: "books E P R C" and r: "R i = Some r" and M: "M \<subseteq> set (r_active r)"
    and x: "case x of None \<Rightarrow> M = set (r_active r)
            | Some r2 \<Rightarrow> entry_ok i r2 \<and> set (r_active r2) = set (r_active r) - M"
  shows "books (E - M) (vacate_all M P) (R(i := x)) C"
proof -
  have players: "player_ok (E - M) C p pl" if "vacate_all M P p = Some pl" for p pl
  proof (cases "p \<in> M")
    case True
    with that obtain q where "P p = Some q" "pl = vacate q" by (auto simp: vacate_all_def)
    with books_player [OF b] show ?thesis by (fastforce simp: player_ok_def)
  next
    case False
    with that have "P p = Some pl" by (simp add: vacate_all_def)
    with books_player [OF b this] False show ?thesis by (auto simp: player_ok_def)
  qed
  have rooms: "entry_ok j r'" if "(R(i := x)) j = Some r'" for j r'
    using that x books_room [OF b] by (auto split: if_splits)
  have "members_agree (vacate_all M P) (R(i := x))"
    unfolding members_agree_def
  proof (intro allI)
    fix j p
    have old: "(\<exists>r. R j = Some r \<and> p \<in> set (r_active r)) = (\<exists>pl. P p = Some pl \<and> p_room pl = Some j)"
      using b by (simp add: books_def members_agree_def)
    have out: "p \<in> M \<Longrightarrow> P p = Some pl \<Longrightarrow> p_room pl = Some i" for pl
      using M books_member [OF b r, of p] by auto
    show "(\<exists>r'. (R(i := x)) j = Some r' \<and> p \<in> set (r_active r')) =
        (\<exists>pl. vacate_all M P p = Some pl \<and> p_room pl = Some j)"
    proof (cases "p \<in> M")
      case True
      have "\<not> (\<exists>pl. vacate_all M P p = Some pl \<and> p_room pl = Some j)"
        using True by (auto simp: vacate_all_def)
      moreover have "\<not> (\<exists>r'. (R(i := x)) j = Some r' \<and> p \<in> set (r_active r'))"
      proof (cases "j = i")
        case True
        with \<open>p \<in> M\<close> x show ?thesis by (auto split: option.splits)
      next
        case False
        have "p \<in> set (r_active r)" using \<open>p \<in> M\<close> M by blast
        then obtain pl where "P p = Some pl" "p_room pl = Some i"
          using books_member [OF b r] by blast
        with old False show ?thesis by auto
      qed
      ultimately show ?thesis by blast
    next
      case False
      then have "vacate_all M P p = P p" by (simp add: vacate_all_def)
      moreover have "(\<exists>r'. (R(i := x)) j = Some r' \<and> p \<in> set (r_active r')) =
          (\<exists>r'. R j = Some r' \<and> p \<in> set (r_active r'))"
        using False x r by (cases "j = i") (auto split: option.splits)
      ultimately show ?thesis using old by simp
    qed
  qed
  with players rooms show ?thesis by (auto simp: books_def)
qed

text \<open>A player enters a room that exists or is new.\<close>

lemma books_enter:
  assumes b: "books E P R C" and p: "P p = Some pl" "p_room pl = None" "p_connection pl \<noteq> None"
    and r: "R i = Some r \<or> R i = None \<and> r_active r = []"
    and e: "entry_ok i r2" "set (r_active r2) = insert p (set (r_active r))"
    and q: "p_id q = p_id pl" "p_room q = Some i" "p_connection q = p_connection pl"
      "p_offline q = p_offline pl" "p_devices q = p_devices pl"
  shows "books E (P(p \<mapsto> q)) (R(i \<mapsto> r2)) C"
proof -
  have "player_ok E C p q"
    using books_player [OF b p(1)] p q by (auto simp: player_ok_def)
  moreover have "members_agree (P(p \<mapsto> q)) (R(i \<mapsto> r2))"
    unfolding members_agree_def
  proof (intro allI)
    fix j m
    have old: "(\<exists>r. R j = Some r \<and> m \<in> set (r_active r)) = (\<exists>pl. P m = Some pl \<and> p_room pl = Some j)"
      using b by (simp add: books_def members_agree_def)
    show "(\<exists>r'. (R(i \<mapsto> r2)) j = Some r' \<and> m \<in> set (r_active r')) =
        (\<exists>pl. (P(p \<mapsto> q)) m = Some pl \<and> p_room pl = Some j)"
    proof (cases "m = p")
      case True
      then have "\<not> (\<exists>r. R j = Some r \<and> p \<in> set (r_active r))" using old p by auto
      then have "\<not> (\<exists>r'. (R(i \<mapsto> r2)) j = Some r' \<and> p \<in> set (r_active r'))" if "j \<noteq> i"
        using that by simp
      with True e(2) q(2) show ?thesis by (cases "j = i") auto
    next
      case False
      have "(\<exists>r'. (R(i \<mapsto> r2)) j = Some r' \<and> m \<in> set (r_active r')) =
          (\<exists>r. R j = Some r \<and> m \<in> set (r_active r))"
      proof (cases "j = i")
        case True
        with r False show ?thesis by (elim disjE conjE) (simp_all add: e(2))
      qed simp
      also note old
      also have "(\<exists>pl. P m = Some pl \<and> p_room pl = Some j) =
          (\<exists>pl. (P(p \<mapsto> q)) m = Some pl \<and> p_room pl = Some j)"
        using False by simp
      finally show ?thesis .
    qed
  qed
  moreover have "player_ok E C m s" if "(P(p \<mapsto> q)) m = Some s" for m s
    using that \<open>player_ok E C p q\<close> books_player [OF b] by (cases "m = p") auto
  moreover have "entry_ok j s" if "(R(i \<mapsto> r2)) j = Some s" for j s
    using that e(1) books_room [OF b] by (cases "j = i") auto
  ultimately show ?thesis by (simp only: books_def) blast
qed

text \<open>Changes of a player or of a room that the books do not record.\<close>

lemma books_same_player:
  assumes "books E P R C" "P p = Some pl" "p_id q = p_id pl" "p_room q = p_room pl"
    "p_connection q = p_connection pl" "p_offline q = p_offline pl"
    "devices_ok (p_devices pl) \<Longrightarrow> devices_ok (p_devices q)"
  shows "books E (P(p \<mapsto> q)) R C"
proof -
  have "player_ok E C p q"
    using books_player [OF assms(1,2)] assms(7) unfolding player_ok_def assms(3-6) by blast
  moreover have "members_agree (P(p \<mapsto> q)) R"
    using assms unfolding books_def members_agree_def by auto
  ultimately show ?thesis using assms(1) by (auto simp: books_def)
qed

lemma books_same_rooms:
  assumes b: "books E P R C"
    and same: "\<And>i. rel_option (\<lambda>r s. r_active s = r_active r \<and> (entry_ok i r \<longrightarrow> entry_ok i s))
                 (R i) (S i)"
  shows "books E P S C"
proof -
  have "entry_ok i s" if "S i = Some s" for i s
    using same [of i] that books_room [OF b] by (auto simp: option_rel_Some2)
  moreover have "(\<exists>r. R i = Some r \<and> p \<in> set (r_active r)) =
      (\<exists>s. S i = Some s \<and> p \<in> set (r_active s))" for i p
    using same [of i] by (cases "R i"; cases "S i") auto
  ultimately show ?thesis using b unfolding books_def members_agree_def by auto
qed

text \<open>A room without members appears or goes; an account outside every room does.\<close>

lemma books_empty_room:
  assumes b: "books E P R C" and "case R i of None \<Rightarrow> True | Some r \<Rightarrow> r_active r = []"
    and "case x of None \<Rightarrow> True | Some r \<Rightarrow> r_active r = [] \<and> entry_ok i r"
  shows "books E P (R(i := x)) C"
proof -
  have "(\<exists>r. (R(i := x)) j = Some r \<and> p \<in> set (r_active r)) =
      (\<exists>r. R j = Some r \<and> p \<in> set (r_active r))" for j p
    using assms(2,3) by (auto split: option.splits)
  with assms show ?thesis
    unfolding books_def members_agree_def by (auto split: option.splits)
qed

lemma books_lone_player:
  assumes b: "books E P R C" and "case P p of None \<Rightarrow> True | Some q \<Rightarrow> p_room q = None"
    and "case x of None \<Rightarrow> True | Some q \<Rightarrow> p_room q = None \<and> player_ok E C p q"
  shows "books E (P(p := x)) R C"
proof -
  have "(\<exists>q. (P(p := x)) m = Some q \<and> p_room q = Some i) =
      (\<exists>q. P m = Some q \<and> p_room q = Some i)" for m i
    using assms(2,3) by (auto split: option.splits)
  with assms show ?thesis
    unfolding books_def members_agree_def by (auto split: option.splits)
qed

text \<open>A connection that is nobody's ends, or is bound to a player.\<close>

lemma books_unbound:
  assumes "books E P R C" "\<And>p pl. P p = Some pl \<Longrightarrow> p_connection pl \<noteq> Some cid"
  shows "books E P R (C(cid := x))"
proof -
  have "player_ok E (C(cid := x)) p pl" if "P p = Some pl" for p pl
    using books_player [OF assms(1) that] assms(2) [OF that]
    unfolding player_ok_def by (metis fun_upd_other)
  with assms(1) show ?thesis by (simp add: books_def)
qed

section \<open>Operations that leave the books alone\<close>

definition same_books :: "server \<Rightarrow> server \<Rightarrow> bool" where
  "same_books s t \<longleftrightarrow> players t = players s \<and> rooms t = rooms s \<and> config t = config s \<and>
     delayed t = delayed s \<and> keys (connections t) = keys (connections s) \<and>
     bound_to t = bound_to s \<and> (sound_jobs (store s) \<longrightarrow> sound_jobs (store t))"

lemma same_books_refl [simp]: "same_books s s"
  by (simp add: same_books_def)

lemma same_books_trans: "same_books s t \<Longrightarrow> same_books t u \<Longrightarrow> same_books s u"
  by (simp add: same_books_def)

lemma wf_same_books: "same_books s t \<Longrightarrow> wf_but (X, cf) E s \<Longrightarrow> wf_but (X, cf) E t"
  by (simp add: same_books_def wf_but_def)

lemma same_books_fold:
  assumes "\<And>x s. same_books s (f x s)"
  shows "same_books s (fold f xs s)"
  by (induction xs arbitrary: s) (auto intro: same_books_trans assms)

lemma same_books_quiet: "quiet s t \<Longrightarrow> same_books s t"
  using quiet_frame [of s t] quiet_conn_player [of s t] by (auto simp: same_books_def)

lemma same_books_world [simp]: "same_books s (s\<lparr>world := w\<rparr>)"
  by (simp add: same_books_def)



lemma same_books_with_store: "with_store f s = (a, t) \<Longrightarrow> keeps_jobs f \<Longrightarrow> same_books s t"
  by (auto simp: with_store_def same_books_def Let_def dest: keeps_jobsD split: prod.splits)

lemma same_books_with_world: "with_world f s = (a, t) \<Longrightarrow> same_books s t"
  by (auto simp: with_world_def same_books_def Let_def split: prod.splits)

lemma same_books_clock: "clock s = (a, t) \<Longrightarrow> same_books s t"
  by (auto simp: clock_def same_books_def Let_def split: prod.splits)

context transport_op begin

lemma same_books_op [simp]: "same_books s (f s)"
  by (rule same_books_quiet) (rule quiet_op)

lemma then_same_books: "same_books t s \<Longrightarrow> same_books t (f s)"
  by (erule same_books_trans) simp

lemma wf_op [simp]: "wf_but (X, cf) E (f s) = wf_but (X, cf) E s"
  using same_books_op [of s] quiet_frame(4) [OF quiet_op, of s]
  by (simp add: same_books_def wf_but_def)

end

text \<open>Putting a room aside: saved and dropped, or back in the map.\<close>

lemma keep_cases:
  obtains t where "same_books s t" "r_persistent r" "r_active r = []" "keep X r s = t"
  | t where "same_books s t" "keep X r s = put_room (r_id r) r t"
proof (cases "r_persistent r \<and> r_active r = []")
  case True
  obtain saved s1 where 1: "with_store (save X r) s = (saved, s1)" by fastforce
  obtain ids s2 where 2: "with_store (prune X (keys (rooms s1))) s1 = (ids, s2)" by fastforce
  show thesis
  proof (cases saved)
    case saved: True
    let ?t = "case ids of None \<Rightarrow> s2
      | Some removed \<Rightarrow> fold (\<lambda>i s. lobby X (msg ''roomDeleted'' (JStr i)) s) removed s2"
    have "same_books s2 ?t"
      by (cases ids) (auto intro: same_books_fold)
    then have "same_books s ?t"
      using same_books_with_store [OF 1 keeps_jobs_save] same_books_with_store [OF 2 keeps_jobs_prune]
      by (blast intro: same_books_trans)
    moreover have "keep X r s = ?t"
      using True saved 1 2 by (simp add: keep_def)
    ultimately show thesis using True that(1) by blast
  next
    case False
    then have "keep X r s = put_room (r_id r) r s1"
      using True 1 by (simp add: keep_def)
    with same_books_with_store [OF 1 keeps_jobs_save] show thesis by (rule that(2))
  qed
next
  case False
  then have "keep X r s = put_room (r_id r) r s" by (auto simp: keep_def)
  then show thesis by (rule that(2) [OF same_books_refl])
qed

lemma wf_put_room:
  assumes "wf_but (X, cf) E s" "books E (player_of s) ((room_at s)(i \<mapsto> r)) (bound_to s)"
  shows "wf_but (X, cf) E (put_room i r s)"
  using assms by (simp add: wf_but_def update_conv')

lemma wf_keep:
  assumes wf: "wf_but (X, cf) E s" and r: "entry_ok i r" "r_active r = []" and "room_at s i = None"
  shows "wf_but (X, cf) E (keep X r s)"
proof -
  have i: "r_id r = i" using r by (simp add: entry_ok_def)
  have "books E (player_of s) ((room_at s)(i \<mapsto> r)) (bound_to s)"
    using wf assms by (intro books_empty_room) (auto simp: wf_but_def)
  with wf have "wf_but (X, cf) E (put_room i r t)" if "same_books s t" for t
    using that by (simp add: wf_but_def same_books_def update_conv')
  then show ?thesis
    using wf i by (cases rule: keep_cases [of s r X]) (auto simp: wf_same_books)
qed

section \<open>Leaving keeps the invariant\<close>

lemma player_of_evict:
  assumes "distinct ids"
  shows "player_of (evict ids s) = vacate_all (set ids) (player_of s)"
proof -
  have "map_of (fold (\<lambda>i m. AList.map_entry i vacate m) ids m) =
      vacate_all (set ids) (map_of m)" for m :: "(string, player) imap"
    using assms
  proof (induction ids arbitrary: m)
    case Nil
    then show ?case by (auto simp: vacate_all_def)
  next
    case (Cons a ids)
    then show ?case by (auto simp: vacate_all_def map_of_map_entry fun_eq_iff)
  qed
  then show ?thesis by (simp add: evict_def)
qed

lemma keys_evict [simp]: "keys (players (evict ids s)) = keys (players s)"
proof -
  have "keys (fold (\<lambda>i m. AList.map_entry i vacate m) ids m) = keys m"
    for m :: "(string, player) imap"
    by (induction ids arbitrary: m) auto
  then show ?thesis by (simp add: evict_def)
qed

lemma evict_frame [simp]:
  "rooms (evict ids s) = rooms s" "connections (evict ids s) = connections s"
  "config (evict ids s) = config s" "delayed (evict ids s) = delayed s"
  "store (evict ids s) = store s"
  by (simp_all add: evict_def)

lemma depart_fields [simp]:
  "r_id (depart p d r) = r_id r" "r_owner (depart p d r) = r_owner r"
  "r_active (depart p d r) = removeAll p (r_active r)"
  "r_started (depart p d r) = r_started r" "r_fixed (depart p d r) = r_fixed r"
  "r_migration (depart p d r) = r_migration r" "r_persistent (depart p d r) = r_persistent r"
  "r_players (depart p d r) = r_players r" "r_max (depart p d r) = r_max r"
  by (simp_all add: depart_def)

lemma upload_depart [simp]:
  "pred_option P (r_upload r) \<Longrightarrow> pred_option P (r_upload (depart p d r))"
  by (cases "r_upload r") (simp_all add: depart_def)

text \<open>The room after a departure: empty, or with an owner among the members that are left.\<close>

lemma entry_ok_emptied:
  "entry_ok i r \<Longrightarrow> r_persistent r \<Longrightarrow> r_active (depart p d r) = [] \<Longrightarrow> entry_ok i (depart p d r)"
  by (auto simp: entry_ok_def room_ok_def)

lemma entry_ok_left:
  assumes "entry_ok i r" "r_active (depart p d r) \<noteq> []" "r_owner r \<noteq> p"
  shows "entry_ok i (depart p d r)"
  using assms le_trans [OF length_removeAll_le [of p "r_active r"]]
  by (auto simp: entry_ok_def room_ok_def distinct_removeAll)

lemma hand_over_ok:
  assumes "entry_ok i r" "r_active (depart p d r) \<noteq> []"
  obtains r3 t where "hand_over X p (depart p d r) s = Some (r3, t)" "entry_ok i r3"
    "set (r_active r3) = set (r_active r) - {p}" "quiet s t"
proof (cases "r_owner r = p")
  case False
  with entry_ok_left [OF assms False] that show thesis
    by (simp add: hand_over_def set_removeAll)
next
  case True
  from assms(2) obtain q qs where q: "removeAll p (r_active r) = q # qs"
    by (metis depart_fields(3) neq_Nil_conv)
  let ?r3 = "(depart p d r)\<lparr>r_owner := q, r_generation := r_generation (depart p d r) + 1\<rparr>"
  have "entry_ok i ?r3"
    using assms(1) q le_trans [OF length_removeAll_le [of p "r_active r"]]
      set_removeAll [of p "r_active r"] distinct_removeAll [of "r_active r" p]
    by (auto simp: entry_ok_def room_ok_def)
  moreover have "set (r_active ?r3) = set (r_active r) - {p}" by simp
  moreover from True q obtain t where "hand_over X p (depart p d r) s = Some (?r3, t)" "quiet s t"
    by (simp add: hand_over_def Let_def broadcast.then_quiet emit.quiet_op)
  ultimately show thesis using that by blast
qed

interpretation announce_roster: transport_op "announce_roster X r" for X r
  by unfold_locales
    (auto simp: announce_roster_def send.quiet_op intro!: quiet_fold split: option.splits)

lemma vacate_all_twice:
  "M \<inter> N = {} \<Longrightarrow> vacate_all M (vacate_all N P) = vacate_all (M \<union> N) P"
  by (auto simp: vacate_all_def fun_eq_iff)

lemma wf_butI:
  "imap_ok (players s) \<Longrightarrow> imap_ok (rooms s) \<Longrightarrow> imap_ok (connections s) \<Longrightarrow>
   config s = fst cf \<Longrightarrow> set (keys (connections s)) \<subseteq> snd cf \<Longrightarrow> sound_jobs (store s) \<Longrightarrow>
   list_all (frame_valid X (fst cf)) (delayed s) \<Longrightarrow>
   books E (player_of s) (room_at s) (bound_to s) \<Longrightarrow> wf_but (X, cf) E s"
  by (simp add: wf_but_def)

lemma wf_drop_room:
  assumes wf: "wf_but (X, cf) E s" and r: "entry_ok i r \<or> \<not> r_persistent r" "r_active r = []"
    and "room_at s i = None"
  shows "wf_but (X, cf) E (drop_room X r s)"
  using assms by (auto simp: drop_room_def intro: wf_keep)

lemma wf_leave_room:
  assumes b: "books E P R (bound_to s)" and r: "R i = Some r" and p: "p \<in> set (r_active r)"
    and s: "player_of s = vacate_all {p} P" "room_at s = R(i := None)"
    and ok: "imap_ok (players s)" "imap_ok (rooms s)" "imap_ok (connections s)"
      "config s = fst cf" "set (keys (connections s)) \<subseteq> snd cf"
      "sound_jobs (store s)" "list_all (frame_valid X (fst cf)) (delayed s)"
  shows "after (wf_but (X, cf) (E - {p})) (leave_room X p d r s)"
proof -
  define m where "m = msg (if d then ''playerDisconnected'' else ''playerLeft'') (JStr p)"
  define s2 where "s2 = broadcast X (depart p d r) m None None
    (emit X ''room.left'' (JObj [(''roomId'', JStr (r_id r)), (''playerId'', JStr p)]) s)"
  have q2: "same_books s s2"
    by (simp add: s2_def broadcast.then_same_books)
  have e: "entry_ok i r" by (rule books_room [OF b r])
  then have dist: "distinct (r_active r)" by (simp add: entry_ok_def room_ok_def)
  have split: "leave_room X p d r s =
    (let (r2, s3) = (if host_lost p (depart p d r)
           then ((depart p d r)\<lparr>r_active := []\<rparr>, evict (removeAll p (r_active r)) s2)
           else (depart p d r, s2))
     in if r_active r2 = [] then Ret (drop_room X r2 s3)
        else case hand_over X p r2 s3 of None \<Rightarrow> Panic
          | Some (r3, s4) \<Rightarrow> Ret (put_room (r_id r3) r3 (announce_roster X r3 s4)))"
    by (simp add: leave_room_def Let_def s2_def m_def)
  show ?thesis
  proof (cases "host_lost p (depart p d r)")
    case True
    let ?t = "evict (removeAll p (r_active r)) s2"
    let ?M = "set (r_active r)"
    have "player_of ?t = vacate_all (?M - {p}) (vacate_all {p} P)"
      using dist q2 s(1) by (simp add: player_of_evict distinct_removeAll same_books_def)
    also have "\<dots> = vacate_all ?M P"
      using p by (subst vacate_all_twice) (auto simp: insert_absorb)
    finally have P: "player_of ?t = vacate_all ?M P" .
    have "books (E - ?M) (vacate_all ?M P) (R(i := None)) (bound_to s)"
      by (rule books_vacate [OF b r]) simp_all
    then have "books (E - {p}) (player_of ?t) (room_at ?t) (bound_to ?t)"
      unfolding P using q2 s(2) p by (auto simp: same_books_def elim: books_mono)
    then have "wf_but (X, cf) (E - {p}) ?t"
      using q2 ok by (intro wf_butI) (auto simp: same_books_def)
    moreover have "\<not> r_persistent r"
      using e True by (auto simp: entry_ok_def room_ok_def host_lost_def)
    ultimately show ?thesis
      using True q2 s(2) by (simp add: split wf_drop_room [of _ _ _ _ i] same_books_def)
  next
    case stay: False
    show ?thesis
    proof (cases "removeAll p (r_active r) = []")
      case True
      then have M: "set (r_active r) = {p}"
        using p by (metis Diff_eq_empty_iff insert_absorb set_removeAll list.set(1) subset_singletonD
            empty_iff)
      have "books (E - {p}) (vacate_all {p} P) (R(i := None)) (bound_to s)"
        by (rule books_vacate [OF b r]) (simp_all add: M)
      then have "wf_but (X, cf) (E - {p}) s2"
        using q2 ok s by (intro wf_butI) (auto simp: same_books_def)
      moreover have "room_at s2 i = None" using q2 s by (simp add: same_books_def)
      moreover have "entry_ok i (depart p d r) \<or> \<not> r_persistent (depart p d r)"
        using entry_ok_emptied [OF e] True by auto
      ultimately show ?thesis
        using stay True by (simp add: split wf_drop_room)
    next
      case False
      then obtain r3 t where h: "hand_over X p (depart p d r) s2 = Some (r3, t)"
        and r3: "entry_ok i r3" "set (r_active r3) = set (r_active r) - {p}" and t: "quiet s2 t"
        using hand_over_ok [OF e, of p d X s2] by auto
      have "same_books s t" by (rule same_books_trans [OF q2 same_books_quiet [OF t]])
      then have q: "same_books s (announce_roster X r3 t)"
        by (rule announce_roster.then_same_books)
      have "books (E - {p}) (vacate_all {p} P) (R(i := Some r3)) (bound_to s)"
        by (rule books_vacate [OF b r]) (simp_all add: p r3)
      then have "wf_but (X, cf) (E - {p}) (put_room i r3 (announce_roster X r3 t))"
        using q ok s by (intro wf_butI) (auto simp: same_books_def update_conv')
      moreover have "r_id r3 = i" using r3 by (simp add: entry_ok_def)
      ultimately show ?thesis
        using stay False h by (simp add: split)
    qed
  qed
qed

lemma room_at_unreserve [simp]:
  "room_at (unreserve p s) i =
     map_option (\<lambda>r. r\<lparr>r_reservations := removeAll p (r_reservations r)\<rparr>) (room_at s i)"
  by (simp add: unreserve_def)

lemma unreserve_frame [simp]:
  "players (unreserve p s) = players s" "connections (unreserve p s) = connections s"
  "config (unreserve p s) = config s" "keys (rooms (unreserve p s)) = keys (rooms s)"
  "world (unreserve p s) = world s" "store (unreserve p s) = store s"
  "delayed (unreserve p s) = delayed s"
  by (simp_all add: unreserve_def)

lemma books_unreserve:
  assumes "books E P (room_at s) C"
  shows "books E P (room_at (unreserve p s)) C"
  by (rule books_same_rooms [OF assms])
    (auto simp: entry_ok_def room_ok_def option_rel_Some1 split: option.splits
      intro!: option.rel_map(2) [THEN iffD2] option.rel_refl_strong)

lemma wf_unreserve: "wf_but (X, cf) E s \<Longrightarrow> wf_but (X, cf) E (unreserve p s)"
  using books_unreserve [of E "player_of s" s] by (simp add: wf_but_def)

lemma wf_leave:
  assumes wf: "wf_but (X, cf) E s" and p: "player_of s p = Some pl"
  shows "after (wf_but (X, cf) (E - {p})) (leave X p d s)"
proof -
  let ?s0 = "if d then s else unreserve p s"
  let ?s2 = "if d then put_player p (vacate pl) s else unreserve p (put_player p (vacate pl) s)"
  have wf0: "wf_but (X, cf) E ?s0" using wf by (simp add: wf_unreserve)
  have p0: "player_of ?s0 p = Some pl" using p by simp
  have b: "books E (player_of ?s0) (room_at ?s0) (bound_to ?s0)"
    using wf0 by (simp add: wf_but_def)
  have s2: "?s2 = put_player p (vacate pl) ?s0"
    by (simp add: unreserve_def)
  then have P2: "player_of ?s2 = vacate_all {p} (player_of ?s0)"
    using p by (auto simp: update_conv' vacate_all_def fun_eq_iff)
  have ok: "imap_ok (players ?s2)" "imap_ok (rooms ?s2)" "imap_ok (connections ?s2)"
    "config ?s2 = fst cf" "set (keys (connections ?s2)) \<subseteq> snd cf"
      "sound_jobs (store ?s2)" "list_all (frame_valid X (fst cf)) (delayed ?s2)"
    using wf0 unfolding s2 by (simp_all add: wf_but_def)
  have R2: "room_at ?s2 = room_at ?s0" "bound_to ?s2 = bound_to ?s0" unfolding s2 by simp_all
  show ?thesis
  proof (cases "p_room pl")
    case None
    have "books E (player_of ?s2) (room_at ?s0) (bound_to ?s0)"
      unfolding s2 using books_same_player [OF b p0, of "vacate pl"] None
      by (simp add: update_conv')
    moreover have "player_of ?s2 p = Some (vacate pl)"
      unfolding P2 using p by (simp add: vacate_all_def)
    ultimately have "books (E - {p}) (player_of ?s2) (room_at ?s2) (bound_to ?s2)"
      unfolding R2 by (rule books_drop) simp
    then have "wf_but (X, cf) (E - {p}) ?s2" using ok by (intro wf_butI)
    then show ?thesis using None p by (simp add: leave_def Let_def)
  next
    case (Some i)
    obtain r where r: "room_at ?s0 i = Some r" "p \<in> set (r_active r)"
      using books_in_room [OF b p0 Some] .
    let ?t = "?s2\<lparr>rooms := AList.delete i (rooms ?s2)\<rparr>"
    have "after (wf_but (X, cf) (E - {p})) (leave_room X p d r ?t)"
    proof (rule wf_leave_room)
      show "books E (player_of ?s0) (room_at ?s0) (bound_to ?t)" using b R2 by simp
      show "room_at ?t = (room_at ?s0)(i := None)" using R2 by (simp add: delete_conv')
    qed (use r P2 ok in simp_all)
    then show ?thesis using Some p r R2 by (simp add: leave_def Let_def)
  qed
qed

end
