(* ===== verification/Lifecycle.thy ===== *)
theory Lifecycle
  imports Membership
begin

text \<open>
  The membership invariant across the life of a connection: opening, login, the expiry of an
  account, entering a room and the end of the connection. The id drawn for a new account is
  assumed not to be in use (\<open>fresh_ids\<close>: the generator's documented behaviour), and a stored
  account is assumed to carry the id it is looked up by (\<open>own_account\<close>); the last theorem of
  the section on logins shows that the second assumption cannot be dropped.
\<close>

section \<open>Connections\<close>

lemma bound_to_delete [simp]:
  "(\<lambda>j. map_option c_player (map_of (AList.delete cid m) j)) =
   (\<lambda>j. map_option c_player (map_of m j))(cid := None)"
  by (auto simp: delete_conv')

lemma bound_to_update [simp]:
  "(\<lambda>j. map_option c_player (map_of (AList.update cid c m) j)) =
   (\<lambda>j. map_option c_player (map_of m j))(cid := Some (c_player c))"
  by (auto simp: update_conv')

lemma books_offline:
  assumes b: "books {} P R C" and i: "P i = Some pl" "p_connection pl = Some cid"
  shows "books {i} (P(i \<mapsto> pl\<lparr>p_connection := None, p_offline := Some t\<rparr>)) R (C(cid := None))"
proof -
  let ?q = "pl\<lparr>p_connection := None, p_offline := Some t\<rparr>"
  have ci: "C cid = Some (Some i)"
    using books_player [OF b i(1)] i(2) by (simp add: player_ok_def)
  have "player_ok {i} (C(cid := None)) p q" if "(P(i \<mapsto> ?q)) p = Some q" for p q
  proof (cases "p = i")
    case True
    with that books_player [OF b i(1)] show ?thesis by (auto simp: player_ok_def)
  next
    case False
    with that have "P p = Some q" by simp
    note ok = books_player [OF b this]
    then have "p_connection q \<noteq> Some cid" using ci False by (auto simp: player_ok_def)
    with ok show ?thesis unfolding player_ok_def by (metis fun_upd_other empty_iff)
  qed
  moreover have "members_agree (P(i \<mapsto> ?q)) R"
    using b i unfolding books_def members_agree_def by auto
  ultimately show ?thesis using b by (simp add: books_def)
qed

lemma wf_disconnect_number:
  assumes wf: "wf_but (X, cf) {} s"
  shows "after (wf_but (X, fst cf, snd cf - {cid}) {}) (disconnect X cid s)"
proof (cases "conn_of s cid")
  case None
  then have "cid \<notin> set (keys (connections s))" by (simp add: map_of_eq_None_iff)
  with wf None show ?thesis by (auto simp: disconnect_def wf_but_def)
next
  case (Some c)
  define s1 where "s1 = emit X ''connection.disconnected'' (JObj [(''connectionId'', jnat cid)]) s"
  define s2 where "s2 = s1\<lparr>delayed := filter (\<lambda>d. dl_cid d \<noteq> cid) (delayed s1),
                      connections := AList.delete cid (connections s1)\<rparr>"
  have b: "books {} (player_of s) (room_at s) (bound_to s)"
    and ok: "imap_ok (players s)" "imap_ok (rooms s)" "imap_ok (connections s)"
    using wf by (simp_all add: wf_but_def)
  have s2: "players s2 = players s" "rooms s2 = rooms s"
    "bound_to s2 = (bound_to s)(cid := None)" "imap_ok (connections s2)"
    "config s2 = fst cf" "set (keys (connections s2)) \<subseteq> snd cf - {cid}"
      "sound_jobs (store s2)" "list_all (frame_valid X (fst cf)) (delayed s2)"
    using ok wf by (simp_all add: s2_def s1_def wf_but_def numbers_delete) (auto simp: list_all_iff)
  have nobody: "wf_but (X, fst cf, snd cf - {cid}) {} s2" if "\<And>p pl. player_of s p = Some pl \<Longrightarrow> p_connection pl \<noteq> Some cid"
    using books_unbound [OF b that] ok s2(6) by (simp add: wf_but_def s2)
  have mine: "p_connection pl = Some cid \<Longrightarrow> c_player c = Some p"
    if "player_of s p = Some pl" for p pl
    using books_player [OF b that] Some by (simp add: player_ok_def)
  have eq: "disconnect X cid s = (case c_player c of
      None \<Rightarrow> Ret s2
    | Some i \<Rightarrow> (case player_of s2 i of
          None \<Rightarrow> Ret s2
        | Some pl \<Rightarrow>
            if p_connection pl = Some cid then
              let (t, s3) = clock s2 in
              ignore (leave X i True
                (put_player i (pl\<lparr>p_connection := None, p_offline := Some t\<rparr>) s3))
            else Ret s2))"
    by (simp only: disconnect_def Some option.case Let_def s1_def s2_def)
  show ?thesis
  proof (cases "\<exists>i pl. c_player c = Some i \<and> player_of s i = Some pl \<and> p_connection pl = Some cid")
    case False
    then have "wf_but (X, fst cf, snd cf - {cid}) {} s2" using mine by (intro nobody) metis
    with False Some show ?thesis
      by (auto simp: eq s2 split: option.splits)
  next
    case True
    then obtain i pl where i: "c_player c = Some i" "player_of s i = Some pl"
      "p_connection pl = Some cid" by blast
    obtain t s3 where t: "clock s2 = (t, s3)" by fastforce
    let ?q = "pl\<lparr>p_connection := None, p_offline := Some t\<rparr>"
    have s3: "same_books s2 s3" by (rule same_books_clock [OF t])
    have "books {i} ((player_of s)(i \<mapsto> ?q)) (room_at s) ((bound_to s)(cid := None))"
      by (rule books_offline [OF b i(2,3)])
    then have "wf_but (X, fst cf, snd cf - {cid}) {i} (put_player i ?q s3)"
      using ok s2 s3 by (intro wf_butI) (simp_all add: same_books_def update_conv')
    then have "after (wf_but (X, fst cf, snd cf - {cid}) ({i} - {i})) (leave X i True (put_player i ?q s3))"
      by (rule wf_leave) (simp add: update_conv')
    then show ?thesis
      using i t s2 by (simp add: eq)
  qed
qed

lemma wf_numbers_mono: "wf_but (X, cf, K) E s \<Longrightarrow> K \<subseteq> L \<Longrightarrow> wf_but (X, cf, L) E s"
  by (auto simp: wf_but_def)

lemma wf_disconnect:
  assumes "wf_but (X, cf) {} s"
  shows "after (wf_but (X, cf) {}) (disconnect X cid s)"
  using wf_disconnect_number [OF assms, of cid]
  by (rule after_mono) (auto simp: wf_but_def)

lemma wf_connected:
  assumes wf: "wf_but (X, cf) {} s" and "conn_of s cid = None" and cid: "cid \<in> snd cf"
  shows "wf_but (X, cf) {} (connected X cid s)"
proof -
  have b: "books {} (player_of s) (room_at s) (bound_to s)" using wf by (simp add: wf_but_def)
  then have "books {} (player_of s) (room_at s) ((bound_to s)(cid := Some None))"
  proof (rule books_unbound)
    fix p pl assume "player_of s p = Some pl"
    from books_player [OF b this] show "p_connection pl \<noteq> Some cid"
      using player_okD(3) [of "{}" "bound_to s" p pl cid] assms(2) by auto
  qed
  then show ?thesis
    using wf cid by (simp add: connected_def Let_def wf_but_def clock_def numbers_update split: prod.splits)
qed

section \<open>Expiry\<close>

lemma expire_one_frame [simp]:
  "players (expire_one X i s) = AList.delete i (players s)"
  "config (expire_one X i s) = config s" "store (expire_one X i s) = store s"
  "connections (expire_one X i s) = connections s"
  "future_ids (world (expire_one X i s)) = future_ids (world s)"
  by (simp_all add: expire_one_def)

lemma wf_expire_one:
  assumes wf: "wf_but (X, cf) {} s" and "\<And>pl. player_of s i = Some pl \<Longrightarrow> p_connection pl = None"
  shows "wf_but (X, cf) {} (expire_one X i s)"
proof -
  have b: "books {} (player_of s) (room_at s) (bound_to s)" using wf by (simp add: wf_but_def)
  have "case player_of s i of None \<Rightarrow> True | Some q \<Rightarrow> p_room q = None"
    using assms(2) books_player [OF b, of i] by (auto simp: player_ok_def split: option.splits)
  then have "books {} ((player_of s)(i := None)) (room_at s) (bound_to s)"
    by (intro books_lone_player [OF b]) simp_all
  then have "wf_but (X, cf) {} (s\<lparr>players := AList.delete i (players s)\<rparr>)"
    using wf by (simp add: wf_but_def delete_conv')
  then show ?thesis
    by (simp add: expire_one_def wf_unreserve)
qed

lemma wf_expire_fold:
  assumes "wf_but (X, cf) {} s"
    and "\<And>i pl. i \<in> set ids \<Longrightarrow> player_of s i = Some pl \<Longrightarrow> p_connection pl = None"
  shows "wf_but (X, cf) {} (fold (expire_one X) ids s)"
  using assms
proof (induction ids arbitrary: s)
  case (Cons i ids)
  have "wf_but (X, cf) {} (expire_one X i s)"
    using Cons.prems by (intro wf_expire_one) auto
  moreover have "p_connection pl = None"
    if "j \<in> set ids" "player_of (expire_one X i s) j = Some pl" for j pl
    using that Cons.prems(2) [of j pl] by (auto simp: delete_conv' split: if_splits)
  ultimately have "wf_but (X, cf) {} (fold (expire_one X) ids (expire_one X i s))" by (rule Cons.IH)
  then show ?case by simp
qed simp

lemma expire_fold_frame [simp]:
  "config (fold (expire_one X) ids s) = config s" "store (fold (expire_one X) ids s) = store s"
  "connections (fold (expire_one X) ids s) = connections s"
  "future_ids (world (fold (expire_one X) ids s)) = future_ids (world s)"
  by (induction ids arbitrary: s) simp_all

lemma clock_frame [simp]:
  "players (snd (clock s)) = players s" "rooms (snd (clock s)) = rooms s"
  "config (snd (clock s)) = config s" "store (snd (clock s)) = store s"
  "connections (snd (clock s)) = connections s" "delayed (snd (clock s)) = delayed s"
  "future_ids (world (snd (clock s))) = future_ids (world s)"
  by (simp_all add: clock_def now_def future_ids_def)

lemma expire_frame [simp]:
  "config (expire X s) = config s" "store (expire X s) = store s"
  "connections (expire X s) = connections s"
  "future_ids (world (expire X s)) = future_ids (world s)"
  using clock_frame [of s] by (cases "clock s"; simp add: expire_def)+

text \<open>Only accounts that are offline, and on no fixed roster, expire.\<close>

lemma expire_keeps:
  assumes wf: "wf_but (X, cf) {} s" and p: "player_of s p = Some pl"
    and live: "p_connection pl \<noteq> None \<or>
      list_ex (\<lambda>(_, r). r_fixed r \<and> p \<in> set (r_players r)) (rooms s)"
  shows "player_of (expire X s) p = Some pl"
proof -
  obtain t s1 where t: "clock s = (t, s1)" by fastforce
  have s1: "players s1 = players s" "rooms s1 = rooms s"
    using clock_frame(1,2) [of s] t by simp_all
  have b: "books {} (player_of s) (room_at s) (bound_to s)" and ok: "imap_ok (players s)"
    using wf by (simp_all add: wf_but_def)
  let ?ids = "map (p_id \<circ> snd) (filter (expired t s1 \<circ> snd) (players s1))"
  have "p \<notin> set ?ids"
  proof
    assume "p \<in> set ?ids"
    then obtain j q where q: "(j, q) \<in> set (players s)" "expired t s1 q" "p_id q = p"
      by (auto simp: s1)
    then have "player_of s j = Some q" using ok by (simp add: map_of_eq_Some_iff)
    with books_player [OF b this] q(3) p have "q = pl" by (auto simp: player_ok_def)
    with q live s1 show False by (auto simp: expired_def)
  qed
  moreover have "player_of (fold (expire_one X) ids u) p = player_of u p" if "p \<notin> set ids" for ids u
    using that by (induction ids arbitrary: u) (auto simp: delete_conv')
  ultimately show ?thesis using p by (simp add: expire_def t s1)
qed

lemma expire_unknown: "player_of s p = None \<Longrightarrow> player_of (expire X s) p = None"
proof -
  assume p: "player_of s p = None"
  have "player_of (fold (expire_one X) ids u) p = None" if "player_of u p = None" for ids u
    using that by (induction ids arbitrary: u) (auto simp: delete_conv')
  with p clock_frame(1) [of s] show ?thesis by (cases "clock s") (simp add: expire_def)
qed

lemma wf_expire:
  assumes wf: "wf_but (X, cf) {} s"
  shows "wf_but (X, cf) {} (expire X s)"
proof -
  obtain t s1 where t: "clock s = (t, s1)" by fastforce
  have s1: "same_books s s1" by (rule same_books_clock [OF t])
  have b: "books {} (player_of s) (room_at s) (bound_to s)" and ok: "imap_ok (players s)"
    using wf by (simp_all add: wf_but_def)
  have "p_connection pl = None"
    if "i \<in> set (map (p_id \<circ> snd) (filter (expired t s1 \<circ> snd) (players s1)))"
      "player_of s1 i = Some pl" for i pl
  proof -
    from that(1) obtain j q where q: "(j, q) \<in> set (players s)" "expired t s1 q" "p_id q = i"
      using s1 by (auto simp: same_books_def)
    then have "player_of s j = Some q" using ok by (simp add: map_of_eq_Some_iff)
    with books_player [OF b this] q(3) that(2) s1 have "q = pl"
      by (auto simp: player_ok_def same_books_def)
    with q(2) show ?thesis by (simp add: expired_def)
  qed
  then have "wf_but (X, cf) {} (fold (expire_one X)
      (map (p_id \<circ> snd) (filter (expired t s1 \<circ> snd) (players s1))) s1)"
    using wf s1 by (intro wf_expire_fold) (simp_all add: wf_same_books)
  then show ?thesis by (simp add: expire_def t)
qed

section \<open>What leaving does not touch\<close>

definition kept :: "server \<Rightarrow> server \<Rightarrow> bool" where
  "kept s t \<longleftrightarrow> keys (players t) = keys (players s) \<and> config t = config s \<and>
     bound_to t = bound_to s"

lemma kept_refl [simp]: "kept s s"
  by (simp add: kept_def)

lemma kept_trans: "kept s t \<Longrightarrow> kept t u \<Longrightarrow> kept s u"
  by (simp add: kept_def)

lemma kept_same_books: "same_books s t \<Longrightarrow> kept s t"
  by (simp add: kept_def same_books_def)

lemma kept_bound: "kept s t \<Longrightarrow> bound_to t cid = bound_to s cid"
  by (simp only: kept_def fun_eq_iff)

lemma same_books_bound: "same_books s t \<Longrightarrow> bound_to t cid = bound_to s cid"
  by (simp only: same_books_def fun_eq_iff)

lemma keys_update: "k \<in> set (keys m) \<Longrightarrow> keys (AList.update k v m) = keys m"
  by (induction m) auto

lemma kept_put_player: "kept s t \<Longrightarrow> player_of s p \<noteq> None \<Longrightarrow> kept s (put_player p pl t)"
  by (simp add: kept_def keys_update map_of_eq_None_iff)

lemma kept_put_room: "kept s t \<Longrightarrow> kept s (put_room i r t)"
  by (simp add: kept_def)

lemma kept_player: "kept s t \<Longrightarrow> player_of t p = None \<longleftrightarrow> player_of s p = None"
  by (metis kept_def list.set_map map_of_eq_None_iff)

lemma kept_keep: "kept s (keep X r s)"
  by (cases rule: keep_cases [of s r X]) (auto intro: kept_put_room kept_same_books)

lemma kept_drop_room: "kept s (drop_room X r s)"
  by (auto simp: drop_room_def kept_keep
      intro!: kept_same_books lobby.then_same_books emit.same_books_op)

lemma kept_leave_room: "leave_room X p d r s = Ret t \<Longrightarrow> kept s t"
proof -
  assume l: "leave_room X p d r s = Ret t"
  define m where "m = msg (if d then ''playerDisconnected'' else ''playerLeft'') (JStr p)"
  define s2 where "s2 = broadcast X (depart p d r) m None None
    (emit X ''room.left'' (JObj [(''roomId'', JStr (r_id r)), (''playerId'', JStr p)]) s)"
  have "same_books s s2" by (simp add: s2_def broadcast.then_same_books)
  then have 2: "kept s s2" by (rule kept_same_books)
  have 3: "kept s (evict ids s2)" for ids
    using 2 by (simp add: kept_def)
  have h: "kept v u" if "hand_over X p r2 v = Some (r3, u)" for r2 r3 u v
    using that by (auto simp: hand_over_def Let_def split: if_splits list.splits
        intro!: kept_same_books broadcast.then_same_books emit.same_books_op)
  have a: "kept v (put_room i r3 (announce_roster X r3 u))" if "kept v u" for v u i r3
    using that by (intro kept_put_room kept_trans [OF that]) (simp add: kept_same_books)
  obtain r2 s3 where 4: "(if host_lost p (depart p d r)
      then ((depart p d r)\<lparr>r_active := []\<rparr>, evict (r_active (depart p d r)) s2)
      else (depart p d r, s2)) = (r2, s3)" by fastforce
  with 2 3 have k3: "kept s s3" by (auto split: if_splits)
  have "(if r_active r2 = [] then Ret (drop_room X r2 s3)
     else case hand_over X p r2 s3 of None \<Rightarrow> Panic
       | Some (r3, s4) \<Rightarrow> Ret (put_room (r_id r3) r3 (announce_roster X r3 s4))) = Ret t"
    using l 4 by (simp only: leave_room_def Let_def s2_def m_def prod.case)
  then consider "t = drop_room X r2 s3"
    | r3 s4 where "hand_over X p r2 s3 = Some (r3, s4)"
        "t = put_room (r_id r3) r3 (announce_roster X r3 s4)"
    by (auto split: if_splits option.splits)
  then show ?thesis
  proof cases
    case 1
    then show ?thesis using kept_trans [OF k3 kept_drop_room] by simp
  next
    case (2 r3 s4)
    then show ?thesis using kept_trans [OF k3 a [OF h [OF 2(1)]]] by simp
  qed
qed

lemma kept_unreserve [simp]: "kept s (unreserve p t) = kept s t"
  by (simp add: kept_def)

lemma kept_leave: "leave X p d s = Ret t \<Longrightarrow> kept s t"
proof -
  assume l: "leave X p d s = Ret t"
  then obtain pl where pl: "player_of s p = Some pl" by (cases "player_of s p") (auto simp: leave_def)
  define s2 where
    "s2 = (if d then put_player p (vacate pl) s else unreserve p (put_player p (vacate pl) s))"
  have k: "kept s s2" using pl by (simp add: kept_put_player s2_def)
  have "(case p_room pl of
          None \<Rightarrow> Ret s2
        | Some i \<Rightarrow>
            (case room_at s2 i of
               None \<Rightarrow> Ret s2
             | Some r \<Rightarrow> leave_room X p d r (s2\<lparr>rooms := AList.delete i (rooms s2)\<rparr>))) = Ret t"
    using l pl by (simp only: leave_def option.case Let_def s2_def)
  then have "t = s2 \<or>
      (\<exists>i r. leave_room X p d r (s2\<lparr>rooms := AList.delete i (rooms s2)\<rparr>) = Ret t)"
    by (cases "p_room pl"; cases "room_at s2 (the (p_room pl))") auto
  moreover have "kept s (s2\<lparr>rooms := AList.delete i (rooms s2)\<rparr>)" for i
    using k by (simp add: kept_def)
  ultimately show ?thesis
    using k kept_leave_room kept_trans by metis
qed

lemma leave_room_not_Fail: "leave_room X p d r s \<noteq> Fail t"
  unfolding leave_room_def Let_def by (auto split: option.splits prod.splits)

lemma leave_not_Fail: "leave X p d s \<noteq> Fail t"
  using leave_room_not_Fail unfolding leave_def Let_def by (auto split: option.splits)

section \<open>Login\<close>

interpretation greet: transport_op "greet X cid created i pl" for X cid created i pl
  by unfold_locales
    (simp add: greet_def Let_def send_c.then_quiet emit.quiet_op split: option.splits)

lemma books_bind:
  assumes b: "books {} P R C" and i: "P i = Some pl" and cid: "C cid = Some None"
    and q: "p_id q = p_id pl" "p_room q = p_room pl" "p_connection q = Some cid" "p_offline q = None"
      "p_devices q = p_devices pl"
  shows "books {} (P(i \<mapsto> q)) R (C(cid := Some (Some i)))"
proof -
  have "player_ok {} (C(cid := Some (Some i))) m s" if "(P(i \<mapsto> q)) m = Some s" for m s
  proof (cases "m = i")
    case True
    with that player_okD(1,2,4) [OF books_player [OF b i]] q show ?thesis
      by (auto simp: player_ok_def)
  next
    case False
    with that have "P m = Some s" by simp
    note ok = books_player [OF b this]
    then have "p_connection s \<noteq> Some cid" using player_okD(3) [of _ C m s cid] cid by auto
    with ok show ?thesis unfolding player_ok_def by (metis fun_upd_other)
  qed
  moreover have "members_agree (P(i \<mapsto> q)) R"
    using b i q unfolding books_def members_agree_def by auto
  ultimately show ?thesis using b by (simp add: books_def)
qed

lemma wf_bind_account:
  assumes wf: "wf_but (X, cf) {} s" and i: "player_of s i \<noteq> None" and cid: "bound_to s cid = Some None"
  shows "after (wf_but (X, cf) {}) (bind_account X cid created i s)"
proof -
  obtain pl where pl: "player_of s i = Some pl" using i by auto
  obtain c where c: "conn_of s cid = Some c" "c_player c = None" using cid by auto
  let ?q = "pl\<lparr>p_connection := Some cid, p_offline := None, p_rtt := None\<rparr>"
  let ?s2 = "put_conn cid (c\<lparr>c_player := Some i\<rparr>) (put_player i ?q s)"
  have "books {} ((player_of s)(i \<mapsto> ?q)) (room_at s) ((bound_to s)(cid := Some (Some i)))"
    using wf pl cid by (intro books_bind) (auto simp: wf_but_def)
  moreover have "player_of ?s2 = (player_of s)(i \<mapsto> ?q)" by (simp add: update_conv')
  moreover have "bound_to ?s2 = (bound_to s)(cid := Some (Some i))" by simp
  ultimately have "wf_but (X, cf) {} ?s2"
    using wf wf_number [OF wf c(1)] by (intro wf_butI) (simp_all only:, simp_all add: wf_but_def numbers_update)
  then have "wf_but (X, cf) {} t" if "with_store (save_account X ?q) ?s2 = (a, t)" for a t
    using wf_same_books [OF same_books_with_store [OF that keeps_jobs_save_account]] by simp
  then show ?thesis
    using pl c by (auto simp: bind_account_def Let_def split: prod.splits)
qed

lemma replace_session_books:
  obtains ds where "same_books (s\<lparr>delayed := ds\<rparr>) (replace_session X pl s)"
    "set ds \<subseteq> set (delayed s)"
proof (cases "p_connection pl")
  case None
  then show thesis using that [of "delayed s"] by (simp add: replace_session_def)
next
  case (Some old)
  let ?t = "close X old 1008 ''Session replaced''
      (emit X ''connection.terminate'' (JObj [(''reason'', JStr ''session_replaced''),
         (''connectionId'', jnat old)]) s)"
  have "same_books s ?t" by (simp add: close.then_same_books)
  then have "same_books (s\<lparr>delayed := filter (\<lambda>d. dl_cid d \<noteq> old) (delayed s)\<rparr>)
      (replace_session X pl s)"
    using Some by (simp add: replace_session_def Let_def same_books_def)
  then show thesis by (rule that) auto
qed

lemma wf_finish_login:
  assumes wf: "wf_but (X, cf) {} s" and i: "player_of s i = Some pl" and cid: "bound_to s cid = Some None"
  shows "after (wf_but (X, cf) {}) (finish_login X cid d i pl s)"
proof -
  let ?t = "replace_session X pl s"
  let ?q = "case as_str (idx d ''name'') of Some n \<Rightarrow> pl\<lparr>p_name := n\<rparr> | None \<Rightarrow> pl"
  obtain ds where t: "same_books (s\<lparr>delayed := ds\<rparr>) ?t" "set ds \<subseteq> set (delayed s)"
    by (rule replace_session_books)
  have "books {} ((player_of s)(i \<mapsto> ?q)) (room_at s) (bound_to s)"
    using wf i by (intro books_same_player [where pl = pl])
      (simp_all add: wf_but_def split: option.split)
  moreover have "list_all (frame_valid X (fst cf)) ds"
    using wf t(2) by (auto simp: wf_but_def list_all_iff)
  ultimately have "wf_but (X, cf) {} (put_player i ?q ?t)"
    using wf t(1) by (simp add: wf_but_def same_books_def update_conv')
  moreover have "bound_to (put_player i ?q ?t) cid = Some None"
    using same_books_bound [OF t(1), of cid] cid by simp
  ultimately show ?thesis
    unfolding finish_login_def Let_def
    by (intro wf_bind_account) (simp_all only:, simp add: update_conv')
qed

lemma wf_login:
  assumes wf: "wf_but (X, cf) {} s" and cid: "bound_to s cid = Some None"
    and pl: "player_of s (p_id pl) = Some pl \<or>
      player_of s (p_id pl) = None \<and> p_room pl = None \<and> p_connection pl = None \<and>
      p_offline pl \<noteq> None \<and> uuid_text (p_id pl) \<and> devices_ok (p_devices pl)"
  shows "after (wf_but (X, cf) {}) (login X cid d pl s)"
proof -
  let ?i = "p_id pl"
  let ?s1 = "if player_of s ?i = None then put_player ?i pl s else s"
  have wf1: "wf_but (X, cf) {} ?s1"
  proof (cases "player_of s ?i")
    case None
    then have "player_ok {} (bound_to s) ?i pl" using pl by (auto simp: player_ok_def)
    with None pl wf have "books {} ((player_of s)(?i := Some pl)) (room_at s) (bound_to s)"
      by (intro books_lone_player) (auto simp: wf_but_def)
    with wf None show ?thesis by (simp add: wf_but_def update_conv')
  qed (use wf in simp)
  have p1: "player_of ?s1 ?i = Some pl" using pl by (auto simp: update_conv')
  have c1: "bound_to ?s1 cid = Some None" using cid by simp
  show ?thesis
  proof (cases "in_fixed_game ?s1 pl")
    case True
    have "after (wf_but (X, cf) ({} - {?i})) (leave X ?i True ?s1)" by (rule wf_leave [OF wf1 p1])
    then obtain t where t: "leave X ?i True ?s1 = Ret t" "wf_but (X, cf) {} t"
      using leave_not_Fail [of X ?i True ?s1] by (cases "leave X ?i True ?s1") auto
    have k: "kept ?s1 t" by (rule kept_leave [OF t(1)])
    then obtain pl2 where "player_of t ?i = Some pl2"
      using kept_player [OF k, of ?i] p1 by auto
    moreover have "bound_to t cid = Some None" using kept_bound [OF k] c1 by (simp only:)
    ultimately have "after (wf_but (X, cf) {}) (finish_login X cid d ?i pl2 t)"
      using t by (intro wf_finish_login)
    then show ?thesis
      using True t \<open>player_of t ?i = Some pl2\<close> by (simp add: login_def Let_def)
  next
    case False
    with wf_finish_login [OF wf1 p1 c1] show ?thesis by (simp add: login_def Let_def)
  qed
qed

text \<open>The ids the generator has not returned yet name no player and no room.\<close>

definition fresh_ids :: "server \<Rightarrow> bool" where
  "fresh_ids s \<longleftrightarrow> future_ids (world s) \<inter> (set (keys (players s)) \<union> set (keys (rooms s))) = {} \<and>
     (\<forall>i \<in> future_ids (world s). uuid_text i)"

lemma fresh_ids_player: "fresh_ids s \<Longrightarrow> i \<in> future_ids (world s) \<Longrightarrow> player_of s i = None"
  by (auto simp: fresh_ids_def map_of_eq_None_iff)

lemma fresh_ids_room: "fresh_ids s \<Longrightarrow> i \<in> future_ids (world s) \<Longrightarrow> room_at s i = None"
  by (auto simp: fresh_ids_def map_of_eq_None_iff)

lemma player_new_fields:
  assumes "player_new X n w = (pl, w')"
  shows "p_room pl = None" "p_connection pl = None" "p_offline pl \<noteq> None" "p_id pl \<in> future_ids w"
    "p_version pl = 0" "p_devices pl = []"
proof -
  from assms show "p_room pl = None" "p_connection pl = None" "p_offline pl \<noteq> None"
    "p_version pl = 0" "p_devices pl = []"
    by (auto simp: player_new_def Let_def split: prod.splits)
  from assms have "p_id pl = fst (new_id (snd (random_bytes w)))"
    by (auto simp: player_new_def Let_def split: prod.splits)
  then show "p_id pl \<in> future_ids w"
    using new_id_future [of "snd (random_bytes w)"] by simp
qed

text \<open>The account file of a key carries that key as its id, and devices with tokens.\<close>

definition own_account :: "externals \<Rightarrow> string \<Rightarrow> store \<Rightarrow> bool" where
  "own_account X key st \<longleftrightarrow> (case path ''accounts'' key of
      None \<Rightarrow> True
    | Some f \<Rightarrow> (case x_from_slice X (contents st f) of
          None \<Rightarrow> True
        | Some v \<Rightarrow> str_or key (idx v ''id'') = key \<and>
            devices_ok (fold add_device (elems (idx v ''devices'')) [])))"

lemma account_fields:
  assumes "account X key (st, w) = (Some (Some pl), w')"
  shows "p_room pl = None" "p_connection pl = None" "p_offline pl \<noteq> None"
    "own_account X key st \<Longrightarrow> p_id pl = key \<and> devices_ok (p_devices pl)"
proof -
  from assms obtain f v n w2 q w3 where q: "player_new X n w2 = (q, w3)"
    and f: "path ''accounts'' key = Some f" "x_from_slice X (contents st f) = Some v"
    and pl: "pl = q\<lparr>p_id := str_or key (idx v ''id''), p_password := str_or '''' (idx v ''password''),
      p_devices := fold add_device (elems (idx v ''devices'')) (p_devices q)\<rparr>"
    unfolding account_def by (auto simp: Let_def split: if_splits option.splits prod.splits)
  from player_new_fields [OF q] pl
  show "p_room pl = None" "p_connection pl = None" "p_offline pl \<noteq> None" by simp_all
  show "own_account X key st \<Longrightarrow> p_id pl = key \<and> devices_ok (p_devices pl)"
    using f pl player_new_fields(6) [OF q] by (simp add: own_account_def)
qed

lemma auth_login_case:
  assumes wf: "wf_but (X, cf) {} s" and own: "own_account X key (store s)"
    and f: "find_account X key s = (Some (Some pl), t)"
  shows "same_books s t \<and> (player_of t (p_id pl) = Some pl \<or>
    player_of t (p_id pl) = None \<and> p_room pl = None \<and> p_connection pl = None \<and>
    p_offline pl \<noteq> None \<and> uuid_text (p_id pl) \<and> devices_ok (p_devices pl))"
proof (cases "player_of s key")
  case (Some q)
  with f have "q = pl" "t = s" by (simp_all add: find_account_def)
  moreover have "p_id q = key"
    using wf Some by (auto simp: wf_but_def intro: player_okD(1) [OF books_player])
  ultimately show ?thesis using Some by simp
next
  case None
  then obtain w where a: "account X key (store s, world s) = (Some (Some pl), w)"
    and t: "t = s\<lparr>world := w\<rparr>" and "uuid (JStr key)"
    using f by (auto simp: find_account_def split: if_splits prod.splits)
  then have "uuid_text key" by (simp add: uuid_def)
  then show ?thesis using account_fields [OF a] own None t by simp
qed

lemma find_account_same_books: "find_account X key s = (r, t) \<Longrightarrow> same_books s t"
  by (auto simp: find_account_def split: option.splits if_splits prod.splits)

lemma wf_auth:
  assumes wf: "wf_but (X, cf) {} s" and cid: "bound_to s cid = Some None" and fresh: "fresh_ids s"
    and own: "own_account X (str_or '''' (idx d ''playerId'')) (store s)"
  shows "after (wf_but (X, cf) {}) (auth X cid d s)"
proof -
  let ?s = "expire X s" and ?key = "str_or '''' (idx d ''playerId'')"
  have wf1: "wf_but (X, cf) {} ?s" by (rule wf_expire [OF wf])
  have cid1: "bound_to ?s cid = Some None" using cid by simp
  show ?thesis
  proof (cases "getk d ''playerId'' = None \<and> getk d ''password'' = None")
    case new: True
    show ?thesis
    proof (cases "length (players ?s) \<ge> limit ?s ''maxAccounts''")
      case True
      with new wf1 show ?thesis by (simp add: auth_def Let_def)
    next
      case False
      obtain pl w where n: "player_new X (str_or ''Player'' (idx d ''name'')) (world ?s) = (pl, w)"
        by fastforce
      note pl = player_new_fields [OF n]
      let ?t = "put_player (p_id pl) pl (?s\<lparr>world := w\<rparr>)"
      have "p_id pl \<in> future_ids (world s)" using pl(4) by simp
      then have "player_of s (p_id pl) = None" by (rule fresh_ids_player [OF fresh])
      then have none: "player_of ?s (p_id pl) = None" by (rule expire_unknown)
      have "player_ok {} (bound_to ?s) (p_id pl) pl"
        using pl fresh by (simp add: player_ok_def fresh_ids_def devices_ok_def)
      with none pl(1) wf1 have "books {} ((player_of ?s)(p_id pl := Some pl)) (room_at ?s) (bound_to ?s)"
        by (intro books_lone_player) (auto simp: wf_but_def)
      with wf1 have "wf_but (X, cf) {} ?t" by (simp add: wf_but_def update_conv')
      then have "after (wf_but (X, cf) {}) (bind_account X cid True (p_id pl) ?t)"
        using cid1 by (intro wf_bind_account) (simp_all add: update_conv')
      with new False n show ?thesis by (simp add: auth_def Let_def with_world_def)
    qed
  next
    case old: False
    obtain found t where f: "find_account X ?key ?s = (found, t)" by fastforce
    have t: "same_books ?s t" by (rule find_account_same_books [OF f])
    have wft: "wf_but (X, cf) {} t" using wf_same_books [OF t] wf1 by simp
    have cidt: "bound_to t cid = Some None" using same_books_bound [OF t, of cid] cid1 by simp
    have failed: "wf_but (X, cf) {} (auth_failed X cid t)" using wft by (simp add: auth_failed_def)
    have "own_account X ?key (store ?s)" using own by simp
    then have "after (wf_but (X, cf) {}) (login X cid d pl t)" if "found = Some (Some pl)" for pl
      using auth_login_case [OF wf1 _ f [unfolded that]] by (intro wf_login [OF wft cidt]) blast
    with old f wft failed show ?thesis
      by (auto simp: auth_def Let_def split: option.splits)
  qed
qed

section \<open>Entering a room\<close>

text \<open>A room a player may join: the conditions \<^const>\<open>entry_error\<close> leaves when it finds none.\<close>

lemma entry_error_None:
  assumes "entry_error p w r = None"
  shows "length (r_active r) < r_max r" "r_started r \<Longrightarrow> rejoin r p" "\<not> r_started r \<Longrightarrow> \<not> r_closed r"
    "\<not> r_started r \<Longrightarrow> w = r_password r"
  using assms by (auto simp: entry_error_def split: if_splits)

lemma join_fields [simp]:
  "r_id (join p r) = r_id r" "r_active (join p r) = set_insert p (r_active r)"
  "r_max (join p r) = r_max r" "r_started (join p r) = r_started r"
  "r_fixed (join p r) = r_fixed r" "r_migration (join p r) = r_migration r"
  "r_persistent (join p r) = r_persistent r" "r_players (join p r) = r_players r"
  "r_owner (join p r) = (if r_persistent r \<and> r_active r = [] then p else r_owner r)"
  "r_upload (join p r) = (if r_persistent r \<and> r_active r = [] then None else r_upload r)"
  by (simp_all add: join_def Let_def)

lemma entry_ok_join:
  assumes ok: "room_ok r" "r_id r = i" and e: "entry_error p w r = None"
    and owner: "r_active r = [] \<longrightarrow> r_persistent r \<or> r_owner r = p"
    and up: "pred_option (\<lambda>u. uuid_text (u_id u)) (r_upload r)"
  shows "entry_ok i (join p r)"
proof -
  have fixed: "r_fixed r \<Longrightarrow> p \<in> set (r_players r)"
    using ok entry_error_None(2) [OF e] by (auto simp: room_ok_def rejoin_def)
  have "length (set_insert p (r_active r)) \<le> r_max r"
    using length_set_insert_le [of p "r_active r"] entry_error_None(1) [OF e] by simp
  moreover have "r_owner (join p r) \<in> insert p (set (r_active r))"
    using ok owner by (auto simp: room_ok_def)
  ultimately show ?thesis
    using ok fixed up by (auto simp: entry_ok_def room_ok_def)
qed

lemma wf_admit:
  assumes b: "books {} (player_of s) R (bound_to s)" and Rr: "room_at s = R(i \<mapsto> r)"
    and R: "R i = Some r \<or> R i = None \<and> r_active r = []"
    and ok: "imap_ok (players s)" "imap_ok (rooms s)" "imap_ok (connections s)"
      "config s = fst cf" "set (keys (connections s)) \<subseteq> snd cf"
      "sound_jobs (store s)" "list_all (frame_valid X (fst cf)) (delayed s)"
    and p: "player_of s p = Some pl" "p_room pl = None" "p_connection pl \<noteq> None"
    and e: "entry_ok i (join p r)"
  obtains t where "admit X p i r s = Ret t" "wf_but (X, cf) {} t" "room_at t i = Some (join p r)"
proof -
  let ?s1 = "put_room i (join p r) s"
  obtain c s2 where c: "clock ?s1 = (c, s2)" by fastforce
  let ?q = "pl\<lparr>p_room := Some i, p_entered := Some c, p_version := p_version pl + 1\<rparr>"
  let ?s3 = "emit X ''room.entered'' (JObj [(''roomId'', JStr i), (''playerId'', JStr p)])
      (put_player p ?q s2)"
  have s2: "same_books ?s1 s2" by (rule same_books_clock [OF c])
  have "books {} ((player_of s)(p \<mapsto> ?q)) (R(i \<mapsto> join p r)) (bound_to s)"
    by (rule books_enter [OF b p R e]) simp_all
  then have "wf_but (X, cf) {} ?s3"
    using s2 ok Rr by (simp add: wf_but_def same_books_def update_conv')
  moreover have r1: "room_at ?s3 i = Some (join p r)"
    using s2 by (simp add: same_books_def update_conv')
  moreover have "admit X p i r s = Ret (let s4 = broadcast X (join p r)
      (msg ''playerEnter'' (player_dto ?q)) (Some p) None ?s3
      in send X p (msg ''onRoomEnter'' (dto s4 (join p r))) s4)"
    using p c r1 by (simp add: admit_def Let_def)
  ultimately show thesis using that by (simp add: Let_def)
qed

lemma load_entry:
  assumes "load X i body (st, w) = (Some (Some r), w')"
  shows "entry_ok i r" "r_active r = []" "r_persistent r" "r_started r"
proof -
  have room_of: "r_id (fst (room_of v i u)) = i \<and> r_active (fst (room_of v i u)) = [] \<and>
      r_persistent (fst (room_of v i u)) \<and> r_started (fst (room_of v i u)) \<and>
      r_migration (fst (room_of v i u)) \<and> r_fixed (fst (room_of v i u)) \<and>
      r_upload (fst (room_of v i u)) = None" for v u
    by (simp add: room_of_def room_new_def Let_def split: prod.splits)
  from assms obtain v u bs where "r = (fst (room_of v i u))\<lparr>r_state := bs\<rparr> \<or> r = fst (room_of v i u)"
    unfolding load_def
    by (auto simp: Let_def split: if_splits option.splits prod.splits) (metis fst_conv)+
  with room_of [of v u] show "entry_ok i r" "r_active r = []" "r_persistent r" "r_started r"
    by (auto simp: entry_ok_def room_ok_def)
qed

lemma wf_enter:
  assumes wf: "wf_but (X, cf) {} s" and p: "player_of s p = Some pl" "p_connection pl \<noteq> None"
  shows "after (wf_but (X, cf) {}) (enter X p i w s)"
proof (cases "p_room pl")
  case (Some j)
  with p wf show ?thesis by (simp add: enter_def)
next
  case None
  obtain loaded v where l: "(if room_at s i \<noteq> None then (Some None, world s)
      else load X i True (store s, world s)) = (loaded, v)" by fastforce
  let ?s1 = "s\<lparr>world := v\<rparr>"
  have wf1: "wf_but (X, cf) {} ?s1" using wf by (simp add: wf_same_books [OF same_books_world])
  show ?thesis
  proof (cases loaded)
    case None
    with \<open>p_room pl = None\<close> p l wf1 show ?thesis by (simp add: enter_def Let_def)
  next
    case (Some found)
    define s2 where "s2 = (case found of None \<Rightarrow> ?s1 | Some r \<Rightarrow> put_room i r ?s1)"
    have wf2: "wf_but (X, cf) {} s2"
    proof (cases found)
      case None
      with wf1 show ?thesis by (simp add: s2_def)
    next
      case (Some r)
      with l \<open>loaded = Some found\<close> have ld: "load X i True (store s, world s) = (Some (Some r), v)"
        and none: "room_at s i = None" by (auto split: if_splits)
      have "books {} (player_of ?s1) ((room_at ?s1)(i := Some r)) (bound_to ?s1)"
        using wf1 none load_entry [OF ld] by (intro books_empty_room) (auto simp: wf_but_def)
      with wf1 have "wf_but (X, cf) {} (put_room i r ?s1)" by (rule wf_put_room)
      with Some show ?thesis by (simp add: s2_def)
    qed
    have p2: "player_of s2 = player_of s" by (simp add: s2_def split: option.splits)
    have eq: "enter X p i w s = (case room_at s2 i of
        None \<Rightarrow> Ret (err X p ''no_room'' s2)
      | Some r \<Rightarrow> (case entry_error p w r of
          Some e \<Rightarrow> Ret (refuse X p i r e s2) | None \<Rightarrow> admit X p i r s2))"
      by (simp only: enter_def p option.case \<open>p_room pl = None\<close> l Some Let_def prod.case s2_def)
    show ?thesis
    proof (cases "room_at s2 i")
      case None
      with wf2 show ?thesis by (simp add: eq)
    next
      case r: (Some r)
      have b: "books {} (player_of s2) (room_at s2) (bound_to s2)"
        and ok: "imap_ok (players s2)" "imap_ok (rooms s2)" "imap_ok (connections s2)"
          "config s2 = fst cf" "set (keys (connections s2)) \<subseteq> snd cf"
      "sound_jobs (store s2)" "list_all (frame_valid X (fst cf)) (delayed s2)"
        using wf2 by (simp_all add: wf_but_def)
      have er: "entry_ok i r" by (rule books_room [OF b r])
      show ?thesis
      proof (cases "entry_error p w r")
        case None
        then have "entry_ok i (join p r)"
          using er by (intro entry_ok_join) (auto simp: entry_ok_def)
        moreover have "room_at s2 = (room_at s2)(i \<mapsto> r)" using r by auto
        ultimately obtain t where "admit X p i r s2 = Ret t" "wf_but (X, cf) {} t"
          using wf_admit [OF b _ _ ok, of i r p pl] r p \<open>p_room pl = None\<close> p2 by auto
        with None r show ?thesis by (simp add: eq)
      next
        case (Some e)
        have "wf_but (X, cf) {} (refuse X p i r e s2)"
        proof (cases "r_active r = [] \<and> r_persistent r")
          case True
          have "books {} (player_of s2) ((room_at s2)(i := None)) (bound_to s2)"
            using b r True by (intro books_empty_room) auto
          then have "wf_but (X, cf) {} (err X p e s2\<lparr>rooms := AList.delete i (rooms s2)\<rparr>)"
            using ok same_books_quiet [OF err.quiet_op, of s2 X p e]
            by (simp add: wf_but_def same_books_def delete_conv')
          with True show ?thesis by (simp add: refuse_def Let_def)
        qed (use wf2 in \<open>auto simp: refuse_def Let_def\<close>)
        with Some r show ?thesis by (simp add: eq)
      qed
    qed
  qed
qed

end
