(* ===== verification/Sessions.thy ===== *)
theory Sessions
  imports Lifecycle
begin

text \<open>
  Binary frames and the session of a persistent room (\<open>rust/server.rs\<close>: \<open>binary\<close>, \<open>upload\<close>,
  \<open>session\<close>). The room is worked on outside the map of rooms, so these operations act on a
  pair of the room and the server.
\<close>

type_synonym work = "room \<times> server"

section \<open>Upload chunks\<close>

text \<open>\<open>u.bytes[off..off + n].copy_from_slice(data)\<close>\<close>

definition splice :: "nat \<Rightarrow> bytes \<Rightarrow> bytes \<Rightarrow> bytes" where
  "splice off data bs = take off bs @ data @ drop (off + length data) bs"

lemma length_splice [simp]: "off + length data \<le> length bs \<Longrightarrow> length (splice off data bs) = length bs"
  by (simp add: splice_def)

lemma take_splice [simp]:
  "off + length data \<le> length bs \<Longrightarrow> take (off + length data) (splice off data bs) = take off bs @ data"
  by (simp add: splice_def)

definition chunk_stale :: "string \<Rightarrow> room \<Rightarrow> upload \<Rightarrow> bytes \<Rightarrow> bytes \<Rightarrow> bool" where
  "chunk_stale p r u uid b \<longleftrightarrow>
     uid \<noteq> slice 1 17 b \<or> u_owner u \<noteq> p \<or> r_owner r \<noteq> p \<or> u_generation u \<noteq> r_generation r \<or>
     be_nat (slice 17 21 b) \<noteq> u_offset u \<or> u_offset u + length b - 21 > length (u_bytes u)"

definition upload :: "externals \<Rightarrow> string \<Rightarrow> bytes \<Rightarrow> work \<Rightarrow> work outcome" where
  "upload X p b = (\<lambda>(r, s).
     if length b < 22 then Ret (r, s)
     else case r_upload r of
         None \<Rightarrow> Ret (r, s)
       | Some u \<Rightarrow>
           (case x_uuid_parse X (u_id u) of
              None \<Rightarrow> Panic
            | Some uid \<Rightarrow>
                if chunk_stale p r u uid b
                then Ret (r\<lparr>r_upload := None\<rparr>,
                       reply X p (JStr (u_id u)) (JObj [(''error'', JStr ''stale_session'')]) s)
                else
                  let (t, s1) = clock s;
                      u1 = u\<lparr>u_bytes := splice (u_offset u) (drop 21 b) (u_bytes u),
                             u_offset := u_offset u + (length b - 21), u_at := t\<rparr>
                  in Ret (r\<lparr>r_upload := Some u1\<rparr>,
                       reply X p (JStr (u_id u)) (JObj [(''offset'', jnat (u_offset u1))]) s1)))"

section \<open>Binary frames\<close>

definition relay_bytes :: "externals \<Rightarrow> string \<Rightarrow> string option \<Rightarrow> room \<Rightarrow> bytes \<Rightarrow> server \<Rightarrow> server" where
  "relay_bytes X p target r out s =
     fold (\<lambda>i s. if i \<noteq> p \<and> (case target of None \<Rightarrow> True | Some t \<Rightarrow> t = i)
                 then send_bytes X i out s else s) (r_active r) s"

text \<open>\<open>!(1..=8).contains(&(bytes[7] >> 4)) || bytes[9] & 0xc0 != 0x80\<close>\<close>

definition uuid_bits :: "bytes \<Rightarrow> bool" where
  "uuid_bits b \<longleftrightarrow> 1 \<le> unat (b ! 7) div 16 \<and> unat (b ! 7) div 16 \<le> 8 \<and> unat (b ! 9) div 64 = 2"

definition nil_address :: "bytes \<Rightarrow> bool" where
  "nil_address a \<longleftrightarrow> list_all (\<lambda>x. x = 0) a"

definition addressed :: "externals \<Rightarrow> string \<Rightarrow> room \<Rightarrow> bytes \<Rightarrow> server \<Rightarrow> server outcome" where
  "addressed X p r b s =
     (if length b < 18 \<or> b ! 0 \<noteq> 1 then Ret (err X p ''invalid_message'' s)
      else
        let a = slice 1 17 b in
        if \<not> nil_address a \<and> \<not> uuid_bits b then Ret (err X p ''invalid_message'' s)
        else case x_uuid_parse X p of
            None \<Rightarrow> Panic
          | Some sender \<Rightarrow>
              Ret (relay_bytes X p (if nil_address a then None else Some (x_uuid_text X a)) r
                     (splice 1 sender b) s))"

definition binary :: "externals \<Rightarrow> string \<Rightarrow> bytes \<Rightarrow> server \<Rightarrow> server outcome" where
  "binary X p b s =
     (case player_of s p of
        None \<Rightarrow> Panic
      | Some pl \<Rightarrow>
          (case p_room pl of
             None \<Rightarrow> Ret s
           | Some i \<Rightarrow>
               (case room_at s i of
                  None \<Rightarrow> Ret s
                | Some r \<Rightarrow>
                    if r_persistent r \<and> b \<noteq> [] \<and> b ! 0 = 2 then
                      (case upload X p b (r, s\<lparr>rooms := swap_remove i (rooms s)\<rparr>) of
                         Ret (r1, s1) \<Rightarrow> Ret (put_room i r1 s1)
                       | Fail (r1, s1) \<Rightarrow> Fail s1
                       | Panic \<Rightarrow> Panic)
                    else if \<not> r_binary r then Ret (relay_bytes X p None r b s)
                    else addressed X p r b s)))"

section \<open>Session requests\<close>

definition session_error :: "externals \<Rightarrow> string \<Rightarrow> json \<Rightarrow> string \<Rightarrow> work \<Rightarrow> work outcome" where
  "session_error X p req e = (\<lambda>(r, s). Ret (r, reply X p req (JObj [(''error'', JStr e)]) s))"

text \<open>\<open>d["revision"] == r.revision\<close>: a number stored as that integer.\<close>

definition is_nat :: "json \<Rightarrow> nat \<Rightarrow> bool" where
  "is_nat v n \<longleftrightarrow> as_u64 v = Some n"

definition get_session :: "externals \<Rightarrow> string \<Rightarrow> json \<Rightarrow> work \<Rightarrow> work outcome" where
  "get_session X p req = (\<lambda>(r, s).
     Ret (r, reply X p req (JObj [(''revision'', jnat (r_revision r)),
       (''generation'', jnat (r_generation r)), (''size'', jnat (length (r_state r))),
       (''startData'', r_start r)]) s))"

definition chunk_size :: "server \<Rightarrow> room \<Rightarrow> nat \<Rightarrow> nat" where
  "chunk_size s r off =
     min (min (min 32000 (limit s ''maxPayloadBytes'' - 21)) (limit s ''maxBufferedBytes'' - 31))
       (length (r_state r) - off)"

definition get_chunk :: "externals \<Rightarrow> string \<Rightarrow> json \<Rightarrow> json \<Rightarrow> work \<Rightarrow> work outcome" where
  "get_chunk X p req d = (\<lambda>(r, s).
     case as_u64 (idx d ''offset'') of
       None \<Rightarrow> Panic
     | Some off \<Rightarrow>
         if \<not> is_nat (idx d ''revision'') (r_revision r) \<or> off \<ge> length (r_state r)
         then session_error X p req ''stale_session'' (r, s)
         else case Option.bind (as_str req) (x_uuid_parse X) of
             None \<Rightarrow> Panic
           | Some uid \<Rightarrow>
               let n = chunk_size s r off;
                   b = [3] @ uid @ be_bytes 4 off @ slice off (off + n) (r_state r)
               in Ret (r, send_bytes X p b s))"

definition begin_session :: "externals \<Rightarrow> string \<Rightarrow> json \<Rightarrow> json \<Rightarrow> work \<Rightarrow> work outcome" where
  "begin_session X p req d = (\<lambda>(r, s).
     if \<not> is_nat (idx d ''revision'') (r_revision r) \<or> \<not> is_nat (idx d ''generation'') (r_generation r)
     then session_error X p req ''stale_session'' (r, s)
     else case as_u64 (idx d ''size'') of
         None \<Rightarrow> Panic
       | Some n \<Rightarrow>
           if n > limit s ''maxSessionBytes'' then session_error X p req ''payload_too_large'' (r, s)
           else case as_str req of
               None \<Rightarrow> Panic
             | Some i \<Rightarrow>
                 let (t, s1) = clock s;
                     u = \<lparr>u_id = i, u_owner = p, u_generation = r_generation r,
                          u_revision = r_revision r, u_bytes = replicate n 0, u_offset = 0, u_at = t\<rparr>
                 in Ret (r\<lparr>r_upload := Some u\<rparr>, reply X p req (JObj [(''offset'', jnat 0)]) s1))"

text \<open>The upload the commit finishes.\<close>

definition upload_complete :: "string \<Rightarrow> json \<Rightarrow> room \<Rightarrow> bool" where
  "upload_complete p req r = (case r_upload r of None \<Rightarrow> False
     | Some u \<Rightarrow> JStr (u_id u) = req \<and> u_owner u = p \<and> u_generation u = r_generation r \<and>
         u_revision u = r_revision r \<and> u_offset u = length (u_bytes u))"

text \<open>Whether a name is not of the roster, first to last; \<^const>\<open>None\<close> where \<open>as_str\<close> is unwrapped on no text.\<close>

fun stranger :: "string list \<Rightarrow> json list \<Rightarrow> bool option" where
  "stranger roster [] = Some False"
| "stranger roster (v # vs) = (case as_str v of
      None \<Rightarrow> None | Some i \<Rightarrow> if i \<in> set roster then stranger roster vs else Some True)"

fun strangers :: "string list \<Rightarrow> json list \<Rightarrow> bool option" where
  "strangers roster [] = Some False"
| "strangers roster (n # ns) = (case stranger roster (elems (idx n ''to'')) of
      None \<Rightarrow> None | Some True \<Rightarrow> Some True | Some False \<Rightarrow> strangers roster ns)"

definition EVENTS_MAX :: nat where "EVENTS_MAX = 128"

definition remember :: "string \<Rightarrow> string list \<Rightarrow> string list" where
  "remember e es = (let es1 = set_insert e es in if length es1 > EVENTS_MAX then tl es1 else es1)"

definition commit_session :: "externals \<Rightarrow> string \<Rightarrow> json \<Rightarrow> json \<Rightarrow> work \<Rightarrow> work outcome" where
  "commit_session X p req d = (\<lambda>(r, s).
     if \<not> upload_complete p req r then session_error X p req ''stale_session'' (r, s)
     else case strangers (r_players r) [idx d ''scheduled'', idx d ''immediate''] of
         None \<Rightarrow> Panic
       | Some True \<Rightarrow> session_error X p req ''invalid_message'' (r, s)
       | Some False \<Rightarrow>
           let (ok, s1) = with_store (commit X r (idx d ''scheduled'') (idx d ''immediate'')) s in
           if \<not> ok then session_error X p req ''storage_error'' (r, s1)
           else
             (case r_upload r of
                None \<Rightarrow> Panic
              | Some u \<Rightarrow>
                  let (t, s2) = clock s1;
                      r1 = r\<lparr>r_events := (case as_str (idx (idx d ''immediate'') ''eventId'') of
                                Some e \<Rightarrow> remember e (r_events r) | None \<Rightarrow> r_events r),
                             r_state := u_bytes u, r_upload := None,
                             r_revision := r_revision r + 1, r_updated := t\<rparr>;
                      s3 = reply X p req (JObj [(''revision'', jnat (r_revision r1))])
                             (s2\<lparr>notice_wake := True\<rparr>)
                  in Ret (r1, broadcast X r1 (msg ''sessionUpdated''
                                (JObj [(''revision'', jnat (r_revision r1))])) (Some p) None s3)))"

definition session_request :: "externals \<Rightarrow> string \<Rightarrow> string \<Rightarrow> json \<Rightarrow> work \<Rightarrow> work outcome" where
  "session_request X p m d = (\<lambda>(r, s).
     let req = idx d ''requestId'' in
     if \<not> r_persistent r then session_error X p req ''unavailable'' (r, s)
     else if m = ''getSession'' then get_session X p req (r, s)
     else if m = ''getSessionChunk'' then get_chunk X p req d (r, s)
     else if r_owner r \<noteq> p then session_error X p req ''not_room_owner'' (r, s)
     else if m = ''beginSession'' then begin_session X p req d (r, s)
     else commit_session X p req d (r, s))"

section \<open>What work on a room keeps\<close>

text \<open>Parsing a UUID text succeeds with 16 bytes: the documented behaviour of the \<open>uuid\<close> crate.\<close>

definition parses :: "externals \<Rightarrow> bool" where
  "parses X \<longleftrightarrow> (\<forall>i. uuid_text i \<longrightarrow> (\<exists>b. x_uuid_parse X i = Some b \<and> length b = 16))"

lemma parsesE:
  assumes "parses X" "uuid_text i"
  obtains b where "x_uuid_parse X i = Some b" "length b = 16"
  using assms by (auto simp: parses_def)

definition keeps_room :: "room \<Rightarrow> room \<Rightarrow> bool" where
  "keeps_room r r' \<longleftrightarrow> r_id r' = r_id r \<and> r_active r' = r_active r \<and>
     (\<forall>i. entry_ok i r \<longrightarrow> entry_ok i r')"

definition keeps_work :: "work \<Rightarrow> work \<Rightarrow> bool" where
  "keeps_work a b \<longleftrightarrow> keeps_room (fst a) (fst b) \<and> same_books (snd a) (snd b)"

lemma keeps_room_refl [simp]: "keeps_room r r"
  by (simp add: keeps_room_def)

lemma keeps_room_upload:
  "pred_option (\<lambda>u. uuid_text (u_id u)) u \<Longrightarrow> keeps_room r (r\<lparr>r_upload := u\<rparr>)"
  by (auto simp: keeps_room_def entry_ok_def room_ok_def)

lemma keeps_workI: "keeps_room r r' \<Longrightarrow> same_books s s' \<Longrightarrow> keeps_work (r, s) (r', s')"
  by (simp add: keeps_work_def)

lemmas keeps_simps = keeps_workI reply.then_same_books same_books_clock

interpretation relay_bytes: transport_op "relay_bytes X p target r out" for X p target r out
  by unfold_locales (auto simp: relay_bytes_def send_bytes.quiet_op intro!: quiet_fold)

lemma keeps_session_error: "after (keeps_work (r, s)) (session_error X p req e (r, s))"
  by (simp add: session_error_def keeps_workI)

lemma keeps_upload:
  assumes "parses X" and e: "entry_ok i r"
  shows "after (keeps_work (r, s)) (upload X p b (r, s))"
proof (cases "r_upload r")
  case None
  then show ?thesis by (simp add: upload_def keeps_workI)
next
  case (Some u)
  then have u: "uuid_text (u_id u)" using e by (simp add: entry_ok_def)
  obtain uid where uid: "x_uuid_parse X (u_id u) = Some uid" using parsesE [OF assms(1) u] .
  obtain t s1 where t: "clock s = (t, s1)" by fastforce
  have "same_books s s1" by (rule same_books_clock [OF t])
  then show ?thesis
    using Some uid t u
    by (auto simp: upload_def Let_def reply.then_same_books
        intro!: keeps_workI keeps_room_upload)
qed

lemma keeps_get_session: "after (keeps_work (r, s)) (get_session X p req (r, s))"
  by (simp add: get_session_def keeps_workI)

lemma keeps_get_chunk:
  assumes "parses X" "as_u64 (idx d ''offset'') \<noteq> None" "req = JStr q" "uuid_text q"
  shows "after (keeps_work (r, s)) (get_chunk X p req d (r, s))"
proof -
  obtain off where off: "as_u64 (idx d ''offset'') = Some off" using assms(2) by auto
  obtain b where "x_uuid_parse X q = Some b" using parsesE [OF assms(1,4)] .
  then show ?thesis
    using off assms(3) by (simp add: get_chunk_def keeps_session_error keeps_workI Let_def)
qed

lemma keeps_begin_session:
  assumes "as_u64 (idx d ''size'') \<noteq> None" "req = JStr q" "uuid_text q"
  shows "after (keeps_work (r, s)) (begin_session X p req d (r, s))"
proof -
  obtain n where n: "as_u64 (idx d ''size'') = Some n" using assms(1) by auto
  obtain t s1 where t: "clock s = (t, s1)" by fastforce
  have "same_books s s1" by (rule same_books_clock [OF t])
  then show ?thesis
    using n t assms(2,3)
    by (simp add: begin_session_def keeps_session_error Let_def keeps_workI keeps_room_upload
        reply.then_same_books)
qed

lemma same_books_wake [simp]: "same_books s (s\<lparr>notice_wake := b\<rparr>)"
  by (simp add: same_books_def)

lemma keeps_commit_session:
  assumes "strangers (r_players r) [idx d ''scheduled'', idx d ''immediate''] \<noteq> None"
    and notices: "idx d ''scheduled'' = JNull \<or> is_object (idx d ''scheduled'')"
      "idx d ''immediate'' = JNull \<or> is_object (idx d ''immediate'')"
  shows "after (keeps_work (r, s)) (commit_session X p req d (r, s))"
proof (cases "upload_complete p req r")
  case False
  then show ?thesis by (simp add: commit_session_def keeps_session_error)
next
  case True
  then obtain u where u: "r_upload r = Some u" by (auto simp: upload_complete_def split: option.splits)
  obtain b where b: "strangers (r_players r) [idx d ''scheduled'', idx d ''immediate''] = Some b"
    using assms by auto
  obtain ok s1 where 1: "with_store (commit X r (idx d ''scheduled'') (idx d ''immediate'')) s = (ok, s1)"
    by fastforce
  obtain t s2 where 2: "clock s1 = (t, s2)" by fastforce
  have k1: "same_books s s1" by (rule same_books_with_store [OF 1 keeps_jobs_commit [OF notices]])
  then have "same_books s s2" by (rule same_books_trans) (rule same_books_clock [OF 2])
  then have k2: "same_books s (s2\<lparr>notice_wake := True\<rparr>)" by (rule same_books_trans) simp
  have e1: "after (keeps_work (r, s)) (session_error X p req e (r, s1))" for e
    using k1 by (simp add: session_error_def keeps_workI reply.then_same_books)
  have room: "keeps_room r (r\<lparr>r_events := es, r_state := bs, r_upload := None,
      r_revision := n, r_updated := t\<rparr>)" for es bs n
    by (auto simp: keeps_room_def entry_ok_def room_ok_def)
  show ?thesis
  proof (cases "b \<or> \<not> ok")
    case True
    with \<open>upload_complete p req r\<close> b 1 e1 show ?thesis
      by (cases b) (simp_all only: commit_session_def prod.case if_True if_False not_True_eq_False
          option.case bool.case Let_def, simp_all add: keeps_session_error)
  next
    case False
    with \<open>upload_complete p req r\<close> b 1 2 u room k2 show ?thesis
      by (simp add: commit_session_def keeps_session_error Let_def keeps_workI
          broadcast.then_same_books reply.then_same_books)
  qed
qed

end
