(* ===== verification/Assembly.thy ===== *)
theory Assembly
  imports Sessions
begin

text \<open>
  The upload of a session: the frames a client sends for the pieces of a state, in order, put the
  pieces together again, and anything else ends the upload.
\<close>

section \<open>One chunk\<close>

lemma upload_appends:
  assumes u: "r_upload r = Some u" "x_uuid_parse X (u_id u) = Some uid" "u_offset u \<le> length (u_bytes u)"
    and b: "22 \<le> length b" "\<not> chunk_stale p r u uid b"
  obtains t s' where "upload X p b (r, s) = Ret (r\<lparr>r_upload := Some (u\<lparr>
      u_bytes := splice (u_offset u) (drop 21 b) (u_bytes u),
      u_offset := u_offset u + (length b - 21), u_at := t\<rparr>)\<rparr>, s')"
proof -
  obtain t s1 where "clock s = (t, s1)" by fastforce
  with assms show thesis by (intro that [of t]) (simp add: upload_def Let_def)
qed

lemma upload_stale:
  assumes "r_upload r = Some u" "x_uuid_parse X (u_id u) = Some uid" "22 \<le> length b"
    and "chunk_stale p r u uid b"
  shows "\<exists>s'. upload X p b (r, s) = Ret (r\<lparr>r_upload := None\<rparr>, s')"
  using assms by (simp add: upload_def)

text \<open>Whatever frame comes, the buffer keeps its size and the offset stays inside it.\<close>

definition upload_ok :: "upload \<Rightarrow> bool" where
  "upload_ok u \<longleftrightarrow> u_offset u \<le> length (u_bytes u)"

lemma upload_bounded:
  assumes "upload X p b (r, s) = Ret (r', s')" "r_upload r = Some u" "upload_ok u"
    and "r_upload r' = Some u'"
  shows "upload_ok u' \<and> length (u_bytes u') = length (u_bytes u) \<and> u_offset u \<le> u_offset u' \<and>
    take (u_offset u) (u_bytes u') = take (u_offset u) (u_bytes u)"
proof (cases "length b < 22")
  case True
  with assms show ?thesis by (simp add: upload_def)
next
  case False
  with assms(1,2) obtain uid where uid: "x_uuid_parse X (u_id u) = Some uid"
    by (auto simp: upload_def split: option.splits)
  show ?thesis
  proof (cases "chunk_stale p r u uid b")
    case True
    with False assms uid show ?thesis by (auto simp: upload_def)
  next
    case fresh: False
    have off: "u_offset u \<le> length (u_bytes u)" using assms(3) by (simp add: upload_ok_def)
    obtain t s1 where "upload X p b (r, s) = Ret (r\<lparr>r_upload := Some (u\<lparr>
        u_bytes := splice (u_offset u) (drop 21 b) (u_bytes u),
        u_offset := u_offset u + (length b - 21), u_at := t\<rparr>)\<rparr>, s1)"
      using upload_appends [OF assms(2) uid off _ fresh] False by (metis not_less)
    then have "u' = u\<lparr>u_bytes := splice (u_offset u) (drop 21 b) (u_bytes u),
        u_offset := u_offset u + (length b - 21), u_at := t\<rparr>"
      using assms(1,4) by auto
    moreover have "u_offset u + (length b - 21) \<le> length (u_bytes u)"
      using fresh False by (simp add: chunk_stale_def)
    ultimately show ?thesis using off by (simp add: upload_ok_def splice_def)
  qed
qed

section \<open>A whole upload\<close>

text \<open>The frame of a chunk: its kind, the request, the offset and the data.\<close>

definition chunk_frame :: "bytes \<Rightarrow> nat \<Rightarrow> bytes \<Rightarrow> bytes" where
  "chunk_frame uid off data = [2] @ uid @ be_bytes 4 off @ data"

fun chunk_frames :: "bytes \<Rightarrow> nat \<Rightarrow> bytes list \<Rightarrow> bytes list" where
  "chunk_frames uid off [] = []"
| "chunk_frames uid off (d # ds) = chunk_frame uid off d # chunk_frames uid (off + length d) ds"

fun uploads :: "externals \<Rightarrow> string \<Rightarrow> bytes list \<Rightarrow> work \<Rightarrow> work outcome" where
  "uploads X p [] w = Ret w"
| "uploads X p (b # bs) w = andthen (upload X p b w) (uploads X p bs)"

text \<open>The upload is open and may go on: what \<open>upload\<close> checks but for the frame itself.\<close>

definition may_go_on :: "externals \<Rightarrow> string \<Rightarrow> bytes \<Rightarrow> room \<Rightarrow> upload \<Rightarrow> bool" where
  "may_go_on X p uid r u \<longleftrightarrow> r_upload r = Some u \<and> x_uuid_parse X (u_id u) = Some uid \<and>
     length uid = 16 \<and> u_owner u = p \<and> r_owner r = p \<and> u_generation u = r_generation r \<and> upload_ok u"

lemma chunk_frame_step:
  assumes go: "may_go_on X p uid r u" and d: "d \<noteq> []" "u_offset u + length d \<le> length (u_bytes u)"
    and small: "length (u_bytes u) < 2 ^ 32"
  obtains r' s' u' where "upload X p (chunk_frame uid (u_offset u) d) (r, s) = Ret (r', s')"
    "may_go_on X p uid r' u'" "u_bytes u' = splice (u_offset u) d (u_bytes u)"
    "u_offset u' = u_offset u + length d" "u_id u' = u_id u" "u_revision u' = u_revision u"
    "r_revision r' = r_revision r" "length (u_bytes u') = length (u_bytes u)"
proof -
  let ?b = "chunk_frame uid (u_offset u) d"
  have uid: "length uid = 16" using go by (simp add: may_go_on_def)
  have len: "length ?b = 21 + length d" by (simp add: chunk_frame_def uid)
  have data: "drop 21 ?b = d" by (simp add: chunk_frame_def uid)
  have id: "slice 1 17 ?b = uid"
    using slice_middle [of 1 "[2]" 17 uid] uid by (simp add: chunk_frame_def)
  have "slice 17 21 ?b = be_bytes 4 (u_offset u)"
    using slice_middle [of 17 "[2] @ uid" 21 "be_bytes 4 (u_offset u)"] uid by (simp add: chunk_frame_def)
  then have off: "be_nat (slice 17 21 ?b) = u_offset u"
    using d(2) small by (simp add: be_nat_roundtrip)
  have fresh: "\<not> chunk_stale p r u uid ?b"
    using go d id off len by (simp add: chunk_stale_def may_go_on_def)
  have "22 \<le> length ?b" using len d(1) by (cases d) simp_all
  from go obtain t s' where r: "upload X p ?b (r, s) = Ret (r\<lparr>r_upload := Some (u\<lparr>
      u_bytes := splice (u_offset u) d (u_bytes u), u_offset := u_offset u + length d, u_at := t\<rparr>)\<rparr>, s')"
    using upload_appends [OF _ _ _ \<open>22 \<le> length ?b\<close> fresh, of X s] data len
    unfolding may_go_on_def upload_ok_def by auto
  show thesis
    by (rule that [OF r, of "u\<lparr>u_bytes := splice (u_offset u) d (u_bytes u),
        u_offset := u_offset u + length d, u_at := t\<rparr>"])
      (use go d(2) in \<open>auto simp: may_go_on_def upload_ok_def\<close>)
qed

lemma uploads_assemble:
  assumes "may_go_on X p uid r u" "list_all (\<lambda>d. d \<noteq> []) ds"
    and "u_offset u + length (concat ds) = length (u_bytes u)" "length (u_bytes u) < 2 ^ 32"
  obtains r' s' u' where "uploads X p (chunk_frames uid (u_offset u) ds) (r, s) = Ret (r', s')"
    "may_go_on X p uid r' u'" "u_bytes u' = take (u_offset u) (u_bytes u) @ concat ds"
    "u_offset u' = length (u_bytes u')" "u_id u' = u_id u" "u_revision u' = u_revision u"
    "r_revision r' = r_revision r"
  using assms
proof (induction ds arbitrary: r s u thesis)
  case Nil
  then show ?case by (intro Nil.prems(1) [of r s u]) auto
next
  case (Cons d ds)
  have d: "d \<noteq> []" "u_offset u + length d \<le> length (u_bytes u)" using Cons.prems by auto
  obtain r1 s1 u1 where 1: "upload X p (chunk_frame uid (u_offset u) d) (r, s) = Ret (r1, s1)"
    "may_go_on X p uid r1 u1" "u_bytes u1 = splice (u_offset u) d (u_bytes u)"
    "u_offset u1 = u_offset u + length d" "u_id u1 = u_id u" "u_revision u1 = u_revision u"
    "r_revision r1 = r_revision r" "length (u_bytes u1) = length (u_bytes u)"
    using chunk_frame_step [OF Cons.prems(2) d Cons.prems(5)] by blast
  obtain r' s' u' where 2: "uploads X p (chunk_frames uid (u_offset u1) ds) (r1, s1) = Ret (r', s')"
    "may_go_on X p uid r' u'" "u_bytes u' = take (u_offset u1) (u_bytes u1) @ concat ds"
    "u_offset u' = length (u_bytes u')" "u_id u' = u_id u1" "u_revision u' = u_revision u1"
    "r_revision r' = r_revision r1"
    by (rule Cons.IH [OF _ 1(2)]) (use Cons.prems 1 in auto)
  have "take (u_offset u1) (u_bytes u1) = take (u_offset u) (u_bytes u) @ d"
    using 1(3,4) d(2) by simp
  with 1 2 d(2) show ?case by (intro Cons.prems(1) [of r' s' u']) (simp_all add: min_def)
qed

text \<open>The commit of a complete upload installs its bytes as the next revision.\<close>

lemma commit_installs:
  assumes "commit_session X p req d (r, s) = Ret (r', s')" "r_revision r' \<noteq> r_revision r"
  obtains u where "r_upload r = Some u" "upload_complete p req r" "r_state r' = u_bytes u"
    "r_revision r' = r_revision r + 1" "r_upload r' = None"
    "fst (commit X r (idx d ''scheduled'') (idx d ''immediate'') (store s, world s))"
proof -
  obtain ok s1 where 1: "with_store (commit X r (idx d ''scheduled'') (idx d ''immediate'')) s = (ok, s1)"
    by fastforce
  have c: "upload_complete p req r"
    using assms by (auto simp: commit_session_def session_error_def split: if_splits)
  then obtain u where u: "r_upload r = Some u" by (auto simp: upload_complete_def split: option.splits)
  have x: "strangers (r_players r) [idx d ''scheduled'', idx d ''immediate''] = Some False"
    using assms c by (auto simp: commit_session_def session_error_def split: option.splits bool.splits)
  have ok: ok using assms c x 1 by (auto simp: commit_session_def session_error_def split: if_splits)
  have f: "fst (commit X r (idx d ''scheduled'') (idx d ''immediate'') (store s, world s))"
    using 1 ok by (auto simp: with_store_def Let_def split: prod.splits)
  from assms(1) c x 1 ok u have "r_state r' = u_bytes u" "r_revision r' = r_revision r + 1" "r_upload r' = None"
    by (auto simp: commit_session_def Let_def split: prod.splits)
  then show thesis by (intro that [OF u c]) (simp_all add: f)
qed

end
