(* ===== verification/Client.thy ===== *)
theory Client
  imports Assembly
begin

text \<open>
  The client of the developer tools (\<open>Client\<close> in \<open>rust/tooling/mod.rs\<close>): the budget of its send
  queue, the order in which it hands out what it received, and how it saves a session and loads it
  back. Together with the server's model the last two give the round trip of a session.
\<close>

section \<open>Sending\<close>

definition CLIENT_BYTES :: nat where "CLIENT_BYTES = 1024 * 1024"

definition CLIENT_FRAMES :: nat where "CLIENT_FRAMES = 256"

record send_queue =
  sq_queued :: nat
  sq_frames :: "message list"
  sq_writing :: "message option"
  sq_open :: bool

text \<open>\<open>Client::frame\<close>: the bytes are counted first and taken back when the frame is refused.\<close>

definition queue_frame :: "message \<Rightarrow> send_queue \<Rightarrow> bool \<times> send_queue" where
  "queue_frame m q =
     (let n = msg_len m; before = sq_queued q; q1 = q\<lparr>sq_queued := before + n\<rparr> in
      if before + n > CLIENT_BYTES then (False, q1\<lparr>sq_queued := sq_queued q1 - n\<rparr>)
      else if \<not> sq_open q1 \<or> length (sq_frames q1) \<ge> CLIENT_FRAMES
      then (False, q1\<lparr>sq_queued := sq_queued q1 - n\<rparr>)
      else (True, q1\<lparr>sq_frames := sq_frames q1 @ [m]\<rparr>))"

text \<open>The writer takes a frame, and gives its bytes back when it has been written or has failed.\<close>

definition take_frame :: "send_queue \<Rightarrow> send_queue" where
  "take_frame q =
     (case sq_frames q of [] \<Rightarrow> q | m # ms \<Rightarrow> q\<lparr>sq_frames := ms, sq_writing := Some m\<rparr>)"

definition frame_written :: "send_queue \<Rightarrow> send_queue" where
  "frame_written q =
     (case sq_writing q of
        None \<Rightarrow> q | Some m \<Rightarrow> q\<lparr>sq_writing := None, sq_queued := sq_queued q - msg_len m\<rparr>)"

inductive client_run :: "send_queue \<Rightarrow> bool" where
  opened: "client_run \<lparr>sq_queued = 0, sq_frames = [], sq_writing = None, sq_open = True\<rparr>"
| queued: "client_run q \<Longrightarrow> client_run (snd (queue_frame m q))"
| taken: "client_run q \<Longrightarrow> sq_writing q = None \<Longrightarrow> client_run (take_frame q)"
| wrote: "client_run q \<Longrightarrow> client_run (frame_written q)"
| stopped: "client_run q \<Longrightarrow> client_run (q\<lparr>sq_open := False\<rparr>)"

definition in_writing :: "send_queue \<Rightarrow> nat" where
  "in_writing q = (case sq_writing q of None \<Rightarrow> 0 | Some m \<Rightarrow> msg_len m)"

lemma client_queue_bounded:
  "client_run q \<Longrightarrow> sq_queued q = sum_list (map msg_len (sq_frames q)) + in_writing q \<and>
     sq_queued q \<le> CLIENT_BYTES \<and> length (sq_frames q) \<le> CLIENT_FRAMES"
proof (induction rule: client_run.induct)
  case (queued q m)
  then show ?case by (auto simp: queue_frame_def Let_def in_writing_def)
next
  case (taken q)
  then show ?case by (auto simp: take_frame_def in_writing_def split: list.splits)
next
  case (wrote q)
  then show ?case by (auto simp: frame_written_def in_writing_def split: option.splits)
qed (auto simp: in_writing_def)

section \<open>Receiving\<close>

definition is_reply :: "externals \<Rightarrow> string \<Rightarrow> message \<Rightarrow> bool" where
  "is_reply X name m = (case m of
       Binary b \<Rightarrow> name = ''binary''
     | Ping b \<Rightarrow> name = ''ping''
     | Pong b \<Rightarrow> name = ''pong''
     | Close f \<Rightarrow> name = ''close''
     | Text t \<Rightarrow> (case x_from_str X t of None \<Rightarrow> False | Some v \<Rightarrow> idx v ''method'' = JStr name))"

text \<open>
  \<open>Client::take\<close>: the first of the frames put aside that matches, or the first to come; those that
  come before it are put aside. What comes is a list, after which the socket is closed or the wait
  has been too long.
\<close>

fun wait_for :: "(message \<Rightarrow> bool) \<Rightarrow> message list \<Rightarrow> message list \<Rightarrow>
    message option \<times> message list \<times> message list" where
  "wait_for P aside [] = (None, aside, [])"
| "wait_for P aside (m # ms) = (if P m then (Some m, aside, ms) else wait_for P (aside @ [m]) ms)"

definition take_reply :: "externals \<Rightarrow> string \<Rightarrow> bool \<Rightarrow> message list \<Rightarrow> message list \<Rightarrow>
    message option \<times> message list \<times> message list" where
  "take_reply X name over aside coming =
     (let P = is_reply X name; i = length (takeWhile (\<lambda>m. \<not> P m) aside) in
      if i < length aside then (Some (aside ! i), take i aside @ drop (Suc i) aside, coming)
      else
        let (found, rest) = wait_for P aside coming
        in (if found = None \<and> over \<and> name = ''close'' then Some (Close None) else found, rest))"

text \<open>What it means: the frames in the order they came, less the first that matches.\<close>

definition without_first :: "('a \<Rightarrow> bool) \<Rightarrow> 'a list \<Rightarrow> 'a list" where
  "without_first P xs = takeWhile (\<lambda>x. \<not> P x) xs @ tl (dropWhile (\<lambda>x. \<not> P x) xs)"

lemma wait_for_first:
  "\<forall>m \<in> set aside. \<not> P m \<Longrightarrow> wait_for P aside coming = (found, aside', coming') \<Longrightarrow>
     found = find P (aside @ coming) \<and> aside' @ coming' = without_first P (aside @ coming)"
proof (induction coming arbitrary: aside)
  case Nil
  then have e: "takeWhile (\<lambda>x. \<not> P x) aside = aside" "dropWhile (\<lambda>x. \<not> P x) aside = []"
    "find P aside = None"
    by (auto simp: takeWhile_eq_all_conv dropWhile_eq_Nil_conv find_None_iff)
  from Nil.prems(2) have r: "found = None" "aside' = aside" "coming' = []" by simp_all
  show ?case by (simp only: r append_Nil2 without_first_def e list.sel(2))
next
  case (Cons m ms)
  show ?case
  proof (cases "P m")
    case True
    with Cons.prems have "found = Some m" "aside' = aside" "coming' = ms" by simp_all
    moreover have "find P (aside @ m # ms) = Some m" "takeWhile (\<lambda>x. \<not> P x) (aside @ m # ms) = aside"
      "dropWhile (\<lambda>x. \<not> P x) (aside @ m # ms) = m # ms"
      using Cons.prems(1) True by (induction aside) auto
    ultimately show ?thesis by (simp add: without_first_def)
  next
    case False
    with Cons.prems have "wait_for P (aside @ [m]) ms = (found, aside', coming')"
      "\<forall>x \<in> set (aside @ [m]). \<not> P x" by auto
    from Cons.IH [OF this(2,1)] show ?thesis by simp
  qed
qed

lemma first_of_prefix:
  assumes "length (takeWhile (\<lambda>x. \<not> P x) xs) < length xs"
  shows "find P (xs @ ys) = Some (xs ! length (takeWhile (\<lambda>x. \<not> P x) xs))"
    "without_first P (xs @ ys) =
       take (length (takeWhile (\<lambda>x. \<not> P x) xs)) xs @ drop (Suc (length (takeWhile (\<lambda>x. \<not> P x) xs))) xs @ ys"
  using assms by (induction xs) (auto simp: without_first_def)

lemma take_reply_first:
  assumes "take_reply X name over aside coming = (found, aside', coming')"
  shows "aside' @ coming' = without_first (is_reply X name) (aside @ coming)"
    "found = (case find (is_reply X name) (aside @ coming) of
        Some m \<Rightarrow> Some m
      | None \<Rightarrow> if over \<and> name = ''close'' then Some (Close None) else None)"
proof -
  let ?P = "is_reply X name"
  let ?i = "length (takeWhile (\<lambda>m. \<not> ?P m) aside)"
  have "aside' @ coming' = without_first ?P (aside @ coming) \<and>
    found = (case find ?P (aside @ coming) of
        Some m \<Rightarrow> Some m
      | None \<Rightarrow> if over \<and> name = ''close'' then Some (Close None) else None)"
  proof (cases "?i < length aside")
    case True
    from assms True have r: "found = Some (aside ! ?i)" "aside' = take ?i aside @ drop (Suc ?i) aside"
      "coming' = coming"
      by (simp_all add: take_reply_def Let_def)
    show ?thesis by (simp add: first_of_prefix [OF True] r)
  next
    case False
    then have "takeWhile (\<lambda>m. \<not> ?P m) aside = aside"
      by (metis takeWhile_eq_take length_takeWhile_le linorder_not_less take_all)
    then have none: "\<forall>m \<in> set aside. \<not> ?P m" by (simp add: takeWhile_eq_all_conv)
    obtain f a c where w: "wait_for ?P aside coming = (f, a, c)" by (metis prod.exhaust)
    from wait_for_first [OF none w] False assms w show ?thesis
      by (auto simp: take_reply_def Let_def split: option.split)
  qed
  then show "aside' @ coming' = without_first ?P (aside @ coming)"
    "found = (case find ?P (aside @ coming) of
        Some m \<Rightarrow> Some m
      | None \<Rightarrow> if over \<and> name = ''close'' then Some (Close None) else None)" by blast+
qed

section \<open>A session saved\<close>

definition SAVE_CHUNK :: nat where "SAVE_CHUNK = 32000"

text \<open>\<open>bytes.chunks(n)\<close>\<close>

function chunks_of :: "nat \<Rightarrow> 'a list \<Rightarrow> 'a list list" where
  "chunks_of n xs = (if xs = [] \<or> n = 0 then [] else take n xs # chunks_of n (drop n xs))"
  by pat_completeness auto
termination by (relation "measure (length \<circ> snd)") auto

declare chunks_of.simps [simp del]

text \<open>The frames of \<open>Client::save\<close>; the offset is the number of the chunk times its size.\<close>

definition save_frames :: "bytes \<Rightarrow> bytes \<Rightarrow> bytes list" where
  "save_frames uid b =
     map (\<lambda>(k, c). [2] @ uid @ be_bytes 4 (k * SAVE_CHUNK) @ c) (List.enumerate 0 (chunks_of SAVE_CHUNK b))"

lemma chunks_of_ok:
  assumes "0 < n"
  shows "concat (chunks_of n xs) = xs" "list_all (\<lambda>c. c \<noteq> []) (chunks_of n xs)"
  using assms by (induction n xs rule: chunks_of.induct) (subst chunks_of.simps; simp)+

lemma chunk_frames_enumerate:
  "chunk_frames uid (k * SAVE_CHUNK) (chunks_of SAVE_CHUNK b) =
     map (\<lambda>(k, c). [2] @ uid @ be_bytes 4 (k * SAVE_CHUNK) @ c) (List.enumerate k (chunks_of SAVE_CHUNK b))"
proof (induction "length b" arbitrary: b k rule: less_induct)
  case less
  show ?case
  proof (cases "b = []")
    case True
    then show ?thesis by (simp add: chunks_of.simps)
  next
    case False
    have p: "0 < SAVE_CHUNK" by (simp add: SAVE_CHUNK_def)
    have cs: "chunks_of SAVE_CHUNK b = take SAVE_CHUNK b # chunks_of SAVE_CHUNK (drop SAVE_CHUNK b)"
      using False p by (subst chunks_of.simps) simp
    show ?thesis
    proof (cases "length b \<le> SAVE_CHUNK")
      case True
      then have "chunks_of SAVE_CHUNK (drop SAVE_CHUNK b) = []" by (simp add: chunks_of.simps)
      then show ?thesis by (simp add: cs chunk_frame_def)
    next
      case long: False
      have "length (drop SAVE_CHUNK b) < length b" using False p by simp
      from less [OF this, of "Suc k"] long show ?thesis
        by (simp add: cs chunk_frame_def min_def add.commute)
    qed
  qed
qed

lemma save_frames_chunks: "save_frames uid b = chunk_frames uid 0 (chunks_of SAVE_CHUNK b)"
  using chunk_frames_enumerate [of uid 0 b] by (simp add: save_frames_def)

lemma saved_arrives:
  assumes "may_go_on X p uid r u" "u_offset u = 0" "length b = length (u_bytes u)" "length b < 2 ^ 32"
  obtains r' s' u' where "uploads X p (save_frames uid b) (r, s) = Ret (r', s')"
    "r_upload r' = Some u'" "u_bytes u' = b" "u_offset u' = length b"
proof -
  have p: "0 < SAVE_CHUNK" by (simp add: SAVE_CHUNK_def)
  note c = chunks_of_ok [OF p, of b]
  obtain r' s' u' where "uploads X p (chunk_frames uid (u_offset u) (chunks_of SAVE_CHUNK b)) (r, s) = Ret (r', s')"
    "may_go_on X p uid r' u'" "u_bytes u' = take (u_offset u) (u_bytes u) @ concat (chunks_of SAVE_CHUNK b)"
    "u_offset u' = length (u_bytes u')"
    by (rule uploads_assemble [OF assms(1) c(2), of s]) (use assms c(1) in auto)
  then show thesis
    using assms(2) c(1) by (intro that [of r' s' u']) (auto simp: save_frames_chunks may_go_on_def)
qed

section \<open>A session loaded\<close>

text \<open>The frame \<open>getSessionChunk\<close> is answered with.\<close>

definition chunk_reply :: "server \<Rightarrow> room \<Rightarrow> bytes \<Rightarrow> nat \<Rightarrow> bytes" where
  "chunk_reply s r uid off = [3] @ uid @ be_bytes 4 off @ slice off (off + chunk_size s r off) (r_state r)"

lemma get_chunk_reply:
  assumes "is_nat (idx d ''revision'') (r_revision r)" "idx d ''offset'' = jnat off"
    "off < length (r_state r)" "as_str req = Some i" "x_uuid_parse X i = Some uid"
  shows "get_chunk X p req d (r, s) = Ret (r, send_bytes X p (chunk_reply s r uid off) s)"
  using assms by (simp add: get_chunk_def chunk_reply_def Let_def)

text \<open>
  \<open>Client::load\<close>: chunks are asked for until as many bytes are there as announced. A reply that is
  too short, does not start with 3 or has another offset ends the tool; \<^const>\<open>None\<close> is also what a load that never
  ends returns.
\<close>

partial_function (option) load_bytes :: "(nat \<Rightarrow> bytes) \<Rightarrow> nat \<Rightarrow> bytes \<Rightarrow> bytes option" where
  "load_bytes fetch announced acc =
     (if length acc \<ge> announced then Some acc
      else
        let b = fetch (length acc) in
        if length b < 21 \<or> hd b \<noteq> 3 \<or> be_nat (slice 17 21 b) \<noteq> length acc then None
        else load_bytes fetch announced (acc @ drop 21 b))"

lemma chunk_reply_fields:
  assumes "length uid = 16" "off < 2 ^ 32"
  shows "\<not> length (chunk_reply s r uid off) < 21" "hd (chunk_reply s r uid off) = 3"
    "be_nat (slice 17 21 (chunk_reply s r uid off)) = off"
    "drop 21 (chunk_reply s r uid off) = slice off (off + chunk_size s r off) (r_state r)"
proof -
  let ?data = "slice off (off + chunk_size s r off) (r_state r)"
  show "\<not> length (chunk_reply s r uid off) < 21" "hd (chunk_reply s r uid off) = 3"
    using assms(1) by (simp_all add: chunk_reply_def)
  have "slice 17 21 (chunk_reply s r uid off) = be_bytes 4 off"
    using slice_middle [of 17 "[3] @ uid" 21 "be_bytes 4 off"] assms(1) by (simp add: chunk_reply_def)
  with assms(2) show "be_nat (slice 17 21 (chunk_reply s r uid off)) = off"
    by (simp add: be_nat_roundtrip)
  show "drop 21 (chunk_reply s r uid off) = ?data"
    using assms(1) by (simp add: chunk_reply_def)
qed

lemma load_gets_state:
  assumes uid: "length uid = 16" and small: "length (r_state r) < 2 ^ 32"
    and room: "21 < limit s ''maxPayloadBytes''" "31 < limit s ''maxBufferedBytes''"
    and acc: "acc = take (length acc) (r_state r)"
  shows "load_bytes (chunk_reply s r uid) (length (r_state r)) acc = Some (r_state r)"
  using acc
proof (induction "length (r_state r) - length acc" arbitrary: acc rule: less_induct)
  case less
  have le: "length acc \<le> length (r_state r)" using less.prems by (metis length_take min.cobounded1)
  show ?case
  proof (cases "length acc \<ge> length (r_state r)")
    case True
    with less.prems show ?thesis by (subst load_bytes.simps) simp
  next
    case False
    let ?n = "chunk_size s r (length acc)"
    have n: "0 < ?n" "length acc + ?n \<le> length (r_state r)"
      using False room by (auto simp: chunk_size_def)
    let ?acc = "acc @ slice (length acc) (length acc + ?n) (r_state r)"
    have "?acc = take (length acc + ?n) (r_state r)"
      using less.prems by (metis slice_def take_add add_diff_cancel_left')
    moreover have len: "length ?acc = length acc + ?n" using n(2) by simp
    ultimately have "?acc = take (length ?acc) (r_state r)" by simp
    from less.hyps [OF _ this] have IH: "load_bytes (chunk_reply s r uid) (length (r_state r)) ?acc = Some (r_state r)"
      using n len False by simp
    have "length acc < 2 ^ 32" using le small by simp
    note f = chunk_reply_fields [OF uid this, of s r]
    show ?thesis using False f IH by (subst load_bytes.simps) (simp add: Let_def)
  qed
qed

end
