(* ===== verification/Saved.thy ===== *)
theory Saved
  imports Store
begin

text \<open>
  What the session store guarantees: a write replaces a file as a whole or not at all, what is
  saved can be loaded again, a notification commit keeps memory and disk in step, and the quota
  removes only rooms that are not in use.
\<close>

section \<open>Files\<close>

lemma tmp_of_neq [simp]: "tmp_of f \<noteq> f" "f \<noteq> tmp_of f"
  by (cases f; simp add: tmp_of_def)+

lemma put_file_simps [simp]:
  "st_jobs (put_file f b st) = st_jobs st" "st_max (put_file f b st) = st_max st"
  "st_enabled (put_file f b st) = st_enabled st"
  "map_of (st_files (put_file f b st)) g = (if g = f then Some b else map_of (st_files st) g)"
  by (auto simp: put_file_def update_conv')

lemma put_file_files: "imap_ok (st_files st) \<Longrightarrow> imap_ok (st_files (put_file f b st))"
  by (simp add: put_file_def)

text \<open>What writing may change: the contents of the given files.\<close>

definition only_files :: "fname set \<Rightarrow> store \<Rightarrow> store \<Rightarrow> bool" where
  "only_files F st st' \<longleftrightarrow> st_jobs st' = st_jobs st \<and> st_max st' = st_max st \<and>
     st_enabled st' = st_enabled st \<and>
     (\<forall>g. g \<notin> F \<longrightarrow> map_of (st_files st') g = map_of (st_files st) g)"

lemma only_files_refl [simp]: "only_files F st st"
  by (simp add: only_files_def)

lemma only_files_trans: "only_files F st st1 \<Longrightarrow> only_files F st1 st2 \<Longrightarrow> only_files F st st2"
  by (simp add: only_files_def)

lemma write_parts_ok:
  assumes "write_parts f parts (st, w) = (ok, st', w')" "map_of (st_files st) f = Some b"
  shows "only_files {f} st st' \<and> (ok \<longrightarrow> map_of (st_files st') f = Some (b @ concat parts)) \<and>
    (imap_ok (st_files st) \<longrightarrow> imap_ok (st_files st'))"
  using assms
proof (induction parts arbitrary: st w b)
  case (Cons p parts)
  obtain d w1 where d: "disk w = (d, w1)" by fastforce
  show ?case
  proof (cases d)
    case True
    let ?st = "put_file f (contents st f @ p) st"
    have c: "contents st f = b" using Cons.prems(2) by (simp add: contents_def)
    have "write_parts f parts (?st, w1) = (ok, st', w')" using Cons.prems(1) d True by simp
    from Cons.IH [OF this, of "b @ p"] c show ?thesis
      by (auto simp: only_files_def put_file_files)
  next
    case False
    with Cons.prems d show ?thesis by (auto simp: only_files_def)
  qed
qed auto

text \<open>
  Whatever call fails, the file itself holds its old contents or all of the new ones; only its
  temporary file may be left behind.
\<close>

lemma renamed_ok:
  assumes "only_files {tmp_of f} st st2" "imap_ok (st_files st2)"
    and "st' = st2\<lparr>st_files := AList.delete (tmp_of f) (AList.update f b (st_files st2))\<rparr>"
  shows "only_files {f, tmp_of f} st st'" "imap_ok (st_files st')" "map_of (st_files st') f = Some b"
  using assms by (simp_all add: only_files_def update_conv' delete_conv')

lemma atomic_ok:
  assumes "atomic f parts (st, w) = (ok, st', w')" "imap_ok (st_files st)"
  shows "only_files {f, tmp_of f} st st'" "imap_ok (st_files st')"
    "map_of (st_files st') f = (if ok then Some (concat parts) else map_of (st_files st) f)"
proof -
  obtain o1 w1 where 1: "disk w = (o1, w1)" by fastforce
  let ?st = "put_file (tmp_of f) [] st"
  obtain o2 st2 w2 where 2: "write_parts (tmp_of f) parts (?st, w1) = (o2, st2, w2)"
    by (metis prod.exhaust)
  have p: "only_files {tmp_of f} ?st st2" "o2 \<Longrightarrow> map_of (st_files st2) (tmp_of f) = Some (concat parts)"
    "imap_ok (st_files st2)"
    using write_parts_ok [OF 2, of "[]"] put_file_files [OF assms(2)] by auto
  obtain o3 w3 where 3: "disk w2 = (o3, w3)" by fastforce
  obtain o4 w4 where 4: "disk w3 = (o4, w4)" by fastforce
  have q: "only_files {tmp_of f} st st2" using p(1) by (auto simp: only_files_def)
  have c: "contents st2 (tmp_of f) = concat parts" if o2 using p(2) [OF that] by (simp add: contents_def)
  consider "ok" "o2" "st' = st2\<lparr>st_files := AList.delete (tmp_of f)
        (AList.update f (contents st2 (tmp_of f)) (st_files st2))\<rparr>"
    | "\<not> ok" "st' = st \<or> st' = st2"
    using assms(1) 1 2 3 4 by (auto simp: atomic_def Let_def split: if_splits)
  then have "only_files {f, tmp_of f} st st' \<and> imap_ok (st_files st') \<and>
    map_of (st_files st') f = (if ok then Some (concat parts) else map_of (st_files st) f)"
  proof cases
    case 1
    with renamed_ok [OF q p(3) 1(3)] c show ?thesis by simp
  next
    case 2
    have "only_files {f, tmp_of f} st st'" using 2(2) q by (auto simp: only_files_def)
    moreover have "imap_ok (st_files st')" using 2(2) p(3) assms(2) by blast
    moreover have "map_of (st_files st2) f = map_of (st_files st) f"
      using q tmp_of_neq(2) [of f] unfolding only_files_def by blast
    then have "map_of (st_files st') f = map_of (st_files st) f" using 2(2) by blast
    ultimately show ?thesis using 2(1) by simp
  qed
  then show "only_files {f, tmp_of f} st st'" "imap_ok (st_files st')"
    "map_of (st_files st') f = (if ok then Some (concat parts) else map_of (st_files st) f)"
    by blast+
qed

lemma path_SomeD:
  assumes "path folder i = Some f"
  shows "uuid_text i" "fst f = folder" "folder \<noteq> ''rooms'' \<Longrightarrow> snd f = ascii_lower i @ ''.json''"
    "folder = ''rooms'' \<Longrightarrow> snd f = ascii_lower i @ ''.bin''"
  using assms by (auto simp: path_def split: if_splits)

lemma path_uuid: "uuid_text i \<Longrightarrow> \<exists>f. path folder i = Some f"
  by (simp add: path_def)

section \<open>Sessions\<close>

text \<open>Every call to the disk succeeds.\<close>

definition disk_ok :: "world \<Rightarrow> bool" where
  "disk_ok w \<longleftrightarrow> (\<forall>n. w_disk w n)"

lemma disk_okD: "disk_ok w \<Longrightarrow> disk w = (b, w') \<Longrightarrow> b \<and> disk_ok w'"
  by (auto simp: disk_ok_def disk_def)

lemma disk_ok_room_of: "disk_ok w \<Longrightarrow> room_of v i w = (r, w') \<Longrightarrow> disk_ok w'"
  by (auto simp: disk_ok_def room_of_def room_new_def new_id_def now_def Let_def)

lemma set_insert_fold_distinct:
  "distinct (acc @ xs) \<Longrightarrow> fold set_insert xs acc = acc @ xs"
  by (induction xs arbitrary: acc) (auto simp: set_insert_def)

lemma string_set_jstrs: "distinct xs \<Longrightarrow> string_set (jstrs xs) [] = xs"
  by (simp add: string_set_def elems_def jstrs_def List.map_filter_def o_def
      set_insert_fold_distinct filter_map)

text \<open>What a room keeps when it goes to the disk and comes back: everything but its members.\<close>

definition at_rest :: "room \<Rightarrow> room" where
  "at_rest r = r\<lparr>r_active := [], r_reservations := [], r_closed := False, r_upload := None,
     r_last_push := 0\<rparr>"

lemma room_of_header:
  assumes "room_of (header r) (r_id r) w = (r', w')"
    and "r_persistent r" "r_migration r" "r_fixed r" "r_started r"
    and "distinct (r_players r)" "distinct (r_events r)"
  shows "r' = (at_rest r)\<lparr>r_state := []\<rparr>"
  using assms by (cases r)
    (auto simp: room_of_def header_def room_new_def at_rest_def str_or_def nat_or_def Let_def
      string_set_jstrs split: prod.splits)

lemma header_for_header: "header_for (header r) (r_id r)"
  by (simp add: header_for_def header_def)

lemma load_saved:
  assumes st: "st_enabled st" "map_of (st_files st) f = Some (be_bytes 4 (length h) @ h @ r_state r)"
    and f: "path ''rooms'' (r_id r) = Some f"
    and h: "x_from_slice X h = Some (header r)" "length h \<le> HEADER_MAX"
    and w: "disk_ok w"
    and r: "r_persistent r" "r_migration r" "r_fixed r" "r_started r"
      "distinct (r_players r)" "distinct (r_events r)"
  shows "fst (load X (r_id r) body (st, w)) =
    Some (Some ((at_rest r)\<lparr>r_state := (if body then r_state r else [])\<rparr>))"
proof -
  obtain b1 w1 where 1: "disk w = (b1, w1)" by fastforce
  obtain b2 w2 where 2: "disk w1 = (b2, w2)" by fastforce
  obtain b3 w3 where 3: "disk w2 = (b3, w3)" by fastforce
  obtain b4 w4 where 4: "disk w3 = (b4, w4)" by fastforce
  obtain r' w5 where 5: "room_of (header r) (r_id r) w4 = (r', w5)" by fastforce
  obtain b6 w6 where 6: "disk w5 = (b6, w6)" by fastforce
  have ok: "b1" "b2" "b3" "b4" "b6"
    using disk_okD [OF w 1] disk_okD [of w1 b2 w2] disk_okD [of w2 b3 w3] disk_okD [of w3 b4 w4]
      disk_ok_room_of [of w4 "header r" "r_id r" r' w5] disk_okD [of w5 b6 w6] 2 3 4 5 6 by auto
  have r': "r' = (at_rest r)\<lparr>r_state := []\<rparr>" by (rule room_of_header [OF 5 r])
  let ?b = "be_bytes 4 (length h) @ h @ r_state r"
  have c: "contents st f = ?b" by (simp add: contents_def st)
  have n: "be_nat (take 4 ?b) = length h"
    using h(2) by (simp add: be_nat_be_bytes HEADER_MAX_def)
  have s: "slice 4 (4 + length h) ?b = h" by (simp add: slice_def)
  have d: "drop (4 + length h) ?b = r_state r" by simp
  show ?thesis
    using ok st(1) f c n s d h r' header_for_header [of r]
    by (simp add: load_def exists_file_def 1 2 3 4 5 6 st(2) Let_def at_rest_def)
qed

lemma save_load:
  assumes sv: "save X r (st, w) = (True, st', w')" and ok: "imap_ok (st_files st)" "st_enabled st"
    and h: "x_from_slice X (x_to_vec X (header r)) = Some (header r)"
      "length (x_to_vec X (header r)) \<le> HEADER_MAX"
    and w: "disk_ok w2"
    and r: "r_persistent r" "r_migration r" "r_fixed r" "r_started r"
      "distinct (r_players r)" "distinct (r_events r)"
  shows "fst (load X (r_id r) True (st', w2)) = Some (Some (at_rest r))"
proof -
  let ?h = "x_to_vec X (header r)"
  from sv obtain f where f: "path ''rooms'' (r_id r) = Some f"
    and a: "atomic f [be_bytes 4 (length ?h), ?h, r_state r] (st, w) = (True, st', w')"
    by (auto simp: save_def Let_def split: option.splits)
  note a = atomic_ok [OF a ok(1)]
  have "st_enabled st'" using a(1) ok(2) by (simp add: only_files_def)
  from load_saved [OF this _ f h w r, of True] a(3) show ?thesis by (simp add: at_rest_def)
qed

lemma disk_ok_step [simp]: "disk_ok w \<Longrightarrow> fst (disk w)" "disk_ok w \<Longrightarrow> disk_ok (snd (disk w))"
  by (simp_all add: disk_ok_def disk_def)

text \<open>A header over the limit is written without complaint and refused when it is read.\<close>

lemma load_large_header:
  assumes sv: "save X r (st, w) = (True, st', w')" and ok: "imap_ok (st_files st)" "st_enabled st"
    and h: "HEADER_MAX < length (x_to_vec X (header r))" "length (x_to_vec X (header r)) < 2 ^ 32"
    and w: "disk_ok w2"
  shows "fst (load X (r_id r) body (st', w2)) = None"
proof -
  let ?h = "x_to_vec X (header r)"
  from sv obtain f where f: "path ''rooms'' (r_id r) = Some f"
    and a: "atomic f [be_bytes 4 (length ?h), ?h, r_state r] (st, w) = (True, st', w')"
    by (auto simp: save_def Let_def split: option.splits)
  note a = atomic_ok [OF a ok(1)]
  have en: "st_enabled st'" using a(1) ok(2) by (simp add: only_files_def)
  have c: "map_of (st_files st') f = Some (be_bytes 4 (length ?h) @ ?h @ r_state r)" using a(3) by simp
  have n: "be_nat (take 4 (contents st' f)) = length ?h"
    using h(2) c by (simp add: contents_def be_nat_be_bytes)
  show ?thesis
    using en f c n h(1) w
    by (simp add: load_def exists_file_def Let_def case_prod_unfold)
qed

section \<open>Accounts\<close>

definition retired :: "player \<Rightarrow> player \<Rightarrow> bool" where
  "retired p q \<longleftrightarrow> p_id q = p_id p \<and> p_name q = p_name p \<and> p_password q = p_password p \<and>
     p_devices q = map (\<lambda>(i, d). (i, setk ''foreground'' (JBool False) d)) (p_devices p) \<and>
     p_room q = None \<and> p_connection q = None"

lemma add_device_pair [simp]: "add_device (JArr [JStr i, d]) ds = AList.update i d ds"
  by (simp add: add_device_def nth_json_def elems_def)

lemma add_devices:
  "imap_ok (acc @ ds) \<Longrightarrow>
   fold add_device (map (\<lambda>(i, d). JArr [JStr i, g d]) ds) acc = acc @ map (\<lambda>(i, d). (i, g d)) ds"
proof (induction ds arbitrary: acc)
  case (Cons e ds)
  obtain i d where e: "e = (i, d)" by (cases e)
  have "i \<notin> fst ` set acc" using Cons.prems by (auto simp: e)
  then have "AList.update i (g d) acc = acc @ [(i, g d)]" by (induction acc) auto
  moreover have "fold add_device (map (\<lambda>(i, d). JArr [JStr i, g d]) ds) (acc @ [(i, g d)]) =
      (acc @ [(i, g d)]) @ map (\<lambda>(i, d). (i, g d)) ds"
    using Cons.prems by (intro Cons.IH) (simp add: e)
  ultimately show ?case by (simp add: e)
qed simp

lemma save_account_load:
  assumes sv: "save_account X p (st, w) = (True, st', w')" and ok: "imap_ok (st_files st)" "st_enabled st"
    and v: "x_from_slice X (x_to_vec X (account_json p)) = Some (account_json p)"
    and w: "disk_ok w2" and ds: "imap_ok (p_devices p)"
  obtains q where "fst (account X (p_id p) (st', w2)) = Some (Some q)" "retired p q"
proof -
  from sv ok obtain f where f: "path ''accounts'' (p_id p) = Some f"
    and a: "atomic f [x_to_vec X (account_json p)] (st, w) = (True, st', w')"
    by (auto simp: save_account_def split: option.splits)
  note a = atomic_ok [OF a ok(1)]
  have en: "st_enabled st'" using a(1) ok(2) by (simp add: only_files_def)
  have c: "map_of (st_files st') f = Some (x_to_vec X (account_json p))" using a(3) by simp
  obtain b1 w1 where 1: "disk w2 = (b1, w1)" by fastforce
  obtain b3 w3 where 3: "disk w1 = (b3, w3)" by fastforce
  have b: "b1" "b3" using disk_okD [OF w 1] disk_okD [of w1 b3 w3] 3 by auto
  obtain q w4 where q: "player_new X (p_name p) w3 = (q, w4)" by fastforce
  have q0: "p_name q = p_name p" "p_room q = None" "p_connection q = None" "p_devices q = []"
    using q by (auto simp: player_new_def Let_def split: prod.splits)
  let ?v = "account_json p"
  have fields: "idx ?v ''id'' = JStr (p_id p)" "idx ?v ''name'' = JStr (p_name p)"
    "idx ?v ''password'' = JStr (p_password p)"
    "idx ?v ''devices'' = JArr (map (\<lambda>(i, d). JArr [JStr i, setk ''foreground'' (JBool False) d]) (p_devices p))"
    by (simp_all add: account_json_def)
  let ?q = "q\<lparr>p_id := p_id p, p_password := p_password p,
      p_devices := map (\<lambda>(i, d). (i, setk ''foreground'' (JBool False) d)) (p_devices p)\<rparr>"
  have "fold add_device (elems (idx ?v ''devices'')) [] =
      map (\<lambda>(i, d). (i, setk ''foreground'' (JBool False) d)) (p_devices p)"
    using add_devices [of "[]" "p_devices p" "setk ''foreground'' (JBool False)"] ds
    by (simp add: fields elems_def)
  then have "fst (account X (p_id p) (st', w2)) = Some (Some ?q)"
    using en f c b v q q0 1 3
    by (simp add: account_def exists_file_def contents_def Let_def fields str_or_def)
  moreover have "retired p ?q" using q0 by (simp add: retired_def)
  ultimately show thesis by (rule that)
qed

section \<open>Notification jobs\<close>

definition event_of :: "json \<Rightarrow> json" where
  "event_of j = idx j ''eventId''"

text \<open>The jobs in memory are those on the disk.\<close>

definition jobs_synced :: "externals \<Rightarrow> store \<Rightarrow> bool" where
  "jobs_synced X st \<longleftrightarrow> imap_ok (st_files st) \<and> imap_ok (st_jobs st) \<and>
     (\<forall>i js. map_of (st_jobs st) i = Some js \<longrightarrow>
        uuid_text i \<and> ascii_lower i = i \<and> js \<noteq> [] \<and>
        map_of (st_files st) (''notifications'', i @ ''.json'') = Some (x_to_vec X (JArr js)))"

lemma uuid_length: "uuid_text i \<Longrightarrow> length i = 36"
  by (simp add: uuid_text_def)

lemma jobs_syncedD:
  assumes "jobs_synced X st" "map_of (st_jobs st) i = Some js"
  shows "uuid_text i" "ascii_lower i = i" "js \<noteq> []"
    "map_of (st_files st) (''notifications'', i @ ''.json'') = Some (x_to_vec X (JArr js))"
  using assms by (auto simp: jobs_synced_def)

lemma set_jobs_synced:
  assumes sj: "set_jobs X i jobs (st, w) = (ok, st', w')" and sy: "jobs_synced X st"
    and i: "uuid_text i" "ascii_lower i = i"
  shows "jobs_synced X st'"
    "ok \<Longrightarrow> map_of (st_jobs st') i = (if jobs = [] then None else Some jobs)"
    "\<not> ok \<Longrightarrow> st_jobs st' = st_jobs st"
proof -
  let ?f = "(''notifications'', i @ ''.json'')"
  have p: "path ''notifications'' i = Some ?f" using i by (simp add: path_def)
  have files: "imap_ok (st_files st)" "imap_ok (st_jobs st)" using sy by (simp_all add: jobs_synced_def)
  have other: "(''notifications'', j @ ''.json'') \<notin> {?f, tmp_of ?f}" if "uuid_text j" "j \<noteq> i" for j
    using that uuid_length [of i] uuid_length [of j] i by (auto simp: tmp_of_def)
  show "jobs_synced X st'" and "ok \<Longrightarrow> map_of (st_jobs st') i = (if jobs = [] then None else Some jobs)"
    and "\<not> ok \<Longrightarrow> st_jobs st' = st_jobs st"
  proof (atomize (full), cases "jobs = []")
    case True
    obtain ex w1 where ex: "exists_file ?f (st, w) = (ex, w1)" by fastforce
    consider (kept) "\<not> ok" "st' = st"
      | (gone) st2 where "ok" "st' = st2\<lparr>st_jobs := AList.delete i (st_jobs st)\<rparr>"
          "st2 = st \<or> st2 = st\<lparr>st_files := AList.delete ?f (st_files st)\<rparr>"
      using sj p ex True
      by (auto simp: set_jobs_def remove_file_def Let_def split: if_splits prod.splits)
    then show "jobs_synced X st' \<and>
        (ok \<longrightarrow> map_of (st_jobs st') i = (if jobs = [] then None else Some jobs)) \<and>
        (\<not> ok \<longrightarrow> st_jobs st' = st_jobs st)"
    proof cases
      case gone
      have "map_of (st_files st2) (''notifications'', j @ ''.json'') =
          map_of (st_files st) (''notifications'', j @ ''.json'')" if "j \<noteq> i" for j
        using gone(3) that by (auto simp: delete_conv')
      with gone files sy True show ?thesis by (auto simp: jobs_synced_def delete_conv')
    qed (use sy in simp)
  next
    case False
    obtain o1 st1 w1 where a: "atomic ?f [x_to_vec X (JArr jobs)] (st, w) = (o1, st1, w1)"
      by (metis prod.exhaust)
    note k = atomic_ok [OF a files(1)]
    have r: "ok = o1" "st' = (if o1 then st1\<lparr>st_jobs := AList.update i jobs (st_jobs st)\<rparr> else st1)"
      using sj p a False k(1) by (auto simp: set_jobs_def only_files_def Let_def split: if_splits)
    have j1: "st_jobs st1 = st_jobs st" using k(1) by (simp add: only_files_def)
    have same: "map_of (st_files st1) (''notifications'', j @ ''.json'') =
        map_of (st_files st) (''notifications'', j @ ''.json'')" if "uuid_text j" "j \<noteq> i" for j
      using k(1) other [OF that] unfolding only_files_def by blast
    show "jobs_synced X st' \<and>
        (ok \<longrightarrow> map_of (st_jobs st') i = (if jobs = [] then None else Some jobs)) \<and>
        (\<not> ok \<longrightarrow> st_jobs st' = st_jobs st)"
    proof (cases o1)
      case True
      have "jobs_synced X st'"
        unfolding jobs_synced_def
      proof (intro conjI allI impI)
        show "imap_ok (st_files st')" "imap_ok (st_jobs st')" using r(2) True k(2) files by simp_all
        fix j js assume "map_of (st_jobs st') j = Some js"
        then have j: "(j = i \<and> js = jobs) \<or> (j \<noteq> i \<and> map_of (st_jobs st) j = Some js)"
          using r(2) True by (auto simp: update_conv' split: if_splits)
        then show "uuid_text j" "ascii_lower j = j" "js \<noteq> []"
          using i False jobs_syncedD(1-3) [OF sy] by blast+
        show "map_of (st_files st') (''notifications'', j @ ''.json'') = Some (x_to_vec X (JArr js))"
          using j r(2) True k(3) same jobs_syncedD [OF sy] by auto
      qed
      with r True False show ?thesis by (simp add: update_conv')
    next
      case F: False
      have "map_of (st_files st1) (''notifications'', j @ ''.json'') = Some (x_to_vec X (JArr js))"
        if "map_of (st_jobs st) j = Some js" for j js
        using same [of j] k(3) F jobs_syncedD [OF sy that] by (cases "j = i") auto
      then have "jobs_synced X st1"
        using k(2) files sy j1 unfolding jobs_synced_def by auto
      with r F j1 show ?thesis by simp
    qed
  qed
qed

lemma idx_setk_other: "k \<noteq> k' \<Longrightarrow> idx (setk k w v) k' = idx v k'"
  by (cases v) (auto simp: idx_def update_conv')

lemma event_job_new [simp]: "event_of (job_new n b) = event_of n"
  by (simp add: event_of_def job_new_def idx_setk_other)

lemma same_event_iff: "same_event j n \<longleftrightarrow> event_of j = event_of n"
  by (simp add: same_event_def event_of_def)

text \<open>One round adds at most one job, for an event that is neither done nor pending.\<close>

lemma add_job_cases:
  obtains (skipped) "add_job events previous n b jobs = jobs"
  | (added) j where "add_job events previous n b jobs = jobs @ [j]" "event_of j = event_of n"
      "event_of n \<notin> event_of ` set jobs" "n \<noteq> JNull" "str_or '''' (event_of n) \<notin> set events"
proof (cases "n = JNull \<or> str_or '''' (event_of n) \<in> set events \<or> event_of n \<in> event_of ` set jobs")
  case True
  then have "add_job events previous n b jobs = jobs"
    by (auto simp: add_job_def list_ex_iff same_event_iff event_of_def [symmetric])
  then show thesis by (rule skipped)
next
  case False
  let ?j = "case find (\<lambda>j. same_event j n \<and> idx j ''at'' = idx n ''at'') previous of
      Some j \<Rightarrow> j | None \<Rightarrow> job_new n b"
  have "event_of ?j = event_of n"
    by (auto simp: find_Some_iff same_event_iff split: option.split)
  moreover have "\<not> list_ex (\<lambda>j. same_event j n) jobs"
    using False by (auto simp: list_ex_iff same_event_iff image_iff)
  then have "add_job events previous n b jobs = jobs @ [?j]"
    using False by (simp add: add_job_def event_of_def [symmetric])
  ultimately show thesis using False by (intro added [of ?j]) auto
qed

lemma add_job_distinct:
  "distinct (map event_of jobs) \<Longrightarrow> distinct (map event_of (add_job events previous n b jobs))"
  by (cases rule: add_job_cases [of events previous n b jobs]) auto

lemma add_job_done:
  assumes "j \<in> set (add_job events previous n b jobs)"
  shows "j \<in> set jobs \<or> str_or '''' (event_of j) \<notin> set events"
  using assms by (cases rule: add_job_cases [of events previous n b jobs]) auto

lemma retained_distinct:
  "distinct (map event_of previous) \<Longrightarrow> distinct (map event_of (retained previous))"
  by (simp add: retained_def distinct_map_filter)

lemma committed_jobs_ok:
  assumes "distinct (map event_of previous)"
  shows "distinct (map event_of (committed_jobs events previous s i))"
    "j \<in> set (committed_jobs events previous s i) \<Longrightarrow>
       j \<in> set (retained previous) \<or> str_or '''' (event_of j) \<notin> set events"
    "set (retained previous) \<subseteq> set (committed_jobs events previous s i)"
proof -
  show "distinct (map event_of (committed_jobs events previous s i))"
    unfolding committed_jobs_def by (intro add_job_distinct retained_distinct assms)
  show "j \<in> set (retained previous) \<or> str_or '''' (event_of j) \<notin> set events"
    if "j \<in> set (committed_jobs events previous s i)"
    using that add_job_done unfolding committed_jobs_def by blast
  have "set jobs \<subseteq> set (add_job events previous n b jobs)" for n b jobs
    by (cases rule: add_job_cases [of events previous n b jobs]) auto
  then show "set (retained previous) \<subseteq> set (committed_jobs events previous s i)"
    unfolding committed_jobs_def by blast
qed

lemma commit_synced:
  assumes c: "commit X r s i (st, w) = (ok, st', w')" and sy: "jobs_synced X st"
    and r: "uuid_text (r_id r)" "ascii_lower (r_id r) = r_id r"
  shows "jobs_synced X st'" "\<not> ok \<Longrightarrow> st_jobs st' = st_jobs st"
    "ok \<Longrightarrow> (case map_of (st_jobs st') (r_id r) of Some js \<Rightarrow> js | None \<Rightarrow> []) =
       committed_jobs (r_events r) (case map_of (st_jobs st) (r_id r) of Some js \<Rightarrow> js | None \<Rightarrow> []) s i"
proof -
  let ?jobs = "committed_jobs (r_events r)
      (case map_of (st_jobs st) (r_id r) of Some js \<Rightarrow> js | None \<Rightarrow> []) s i"
  have sj: "set_jobs X (r_id r) ?jobs (st, w) = (ok, st', w')" using c by (simp add: commit_def Let_def)
  note k = set_jobs_synced [OF sj sy r]
  show "jobs_synced X st'" by (rule k(1))
  show "\<not> ok \<Longrightarrow> st_jobs st' = st_jobs st" by (rule k(3))
  show "ok \<Longrightarrow> (case map_of (st_jobs st') (r_id r) of Some js \<Rightarrow> js | None \<Rightarrow> []) = ?jobs"
    using k(2) by (cases "?jobs = []") simp_all
qed

text \<open>
  An immediate notice with the event and the time of a scheduled one is taken for it: it is kept
  as a scheduled job, which the next commit drops whether or not it was delivered.
\<close>

lemma immediate_lost:
  assumes "n \<noteq> JNull" "str_or '''' (event_of n) \<notin> set events" "is_object n"
  defines "first \<equiv> committed_jobs events [] n JNull"
  defines "second \<equiv> committed_jobs events first JNull n"
  shows "second = [job_new n True]" "committed_jobs events' second JNull JNull = []"
proof -
  have sched: "idx (job_new n b) ''scheduled'' = JBool b" for b
    using assms(3) by (cases n) (auto simp: job_new_def is_object_def update_conv')
  have at: "idx (job_new n b) ''at'' = idx n ''at''" for b
    by (simp add: job_new_def idx_setk_other)
  have first: "first = [job_new n True]"
    using assms(1,2) by (simp add: first_def committed_jobs_def add_job_def retained_def event_of_def)
  show second: "second = [job_new n True]"
    using assms(1,2)
    by (simp add: second_def first committed_jobs_def add_job_def retained_def sched at
        same_event_iff event_of_def [symmetric])
  show "committed_jobs events' second JNull JNull = []"
    by (simp add: second committed_jobs_def add_job_def retained_def sched)
qed


text \<open>On a disk that does not fail, writes succeed.\<close>

lemma write_parts_complete:
  "disk_ok w \<Longrightarrow> fst (write_parts f parts (st, w)) \<and> disk_ok (snd (snd (write_parts f parts (st, w))))"
  by (induction parts arbitrary: st w) (simp_all add: split_beta)

lemma atomic_complete:
  assumes "disk_ok w"
  obtains st' w' where "atomic f parts (st, w) = (True, st', w')"
proof -
  have w: "disk_ok (snd (disk w))" using assms by simp
  note parts = write_parts_complete [OF w, of "tmp_of f" parts "put_file (tmp_of f) [] st"]
  have "fst (atomic f parts (st, w))"
    using assms w parts by (simp add: atomic_def split_beta Let_def)
  then show thesis using that by (metis prod.collapse)
qed

end
