(* ===== verification/Logger.thy ===== *)
theory Logger
  imports Diagnostics Saved
begin

text \<open>
  The writer of detailed logs (\<open>Logger\<close> in \<open>rust/diagnostics.rs\<close>): lines go to numbered files, a
  file is left when it is full, and the oldest files are removed to keep the directory within its
  limit. The directory is a map from names to contents, and any call may fail.
\<close>

section \<open>Names\<close>

definition log_name :: "nat \<Rightarrow> string" where
  "log_name n = ''server-'' @ replicate (20 - length (dec n)) CHR ''0'' @ dec n @ ''.jsonl''"

text \<open>\<open>str::parse::<u64>\<close>, which also takes a plus sign.\<close>

definition parse_u64 :: "string \<Rightarrow> nat option" where
  "parse_u64 s =
     (let t = (case s of c # r \<Rightarrow> (if c = CHR ''+'' \<and> r \<noteq> [] then r else s) | [] \<Rightarrow> []);
          n = fold (\<lambda>c n. n * 10 + (of_char c - 48)) t 0
      in if t \<noteq> [] \<and> list_all is_digit t \<and> n < 2 ^ 64 then Some n else None)"

definition log_number :: "string \<Rightarrow> nat option" where
  "log_number name =
     (let rest = drop 7 name; s = take (length rest - 6) rest in
      if take 7 name = ''server-'' \<and> 6 \<le> length rest \<and> drop (length rest - 6) rest = ''.jsonl'' \<and>
         length s = 20
      then parse_u64 s else None)"

section \<open>State\<close>

record logger =
  lg_max :: nat
  lg_file_max :: nat
  lg_files :: "(string \<times> nat) list"   \<comment> \<open>oldest first, with their sizes\<close>
  lg_total :: nat
  lg_seq :: nat
  lg_file :: "string option"        \<comment> \<open>the file that is open\<close>

type_synonym directory = "(string, bytes) imap"
type_synonym lw = "logger \<times> directory \<times> world"

text \<open>Files are removed, oldest first, until \<open>n\<close> more bytes fit or none is left.\<close>

fun make_room :: "nat \<Rightarrow> (string \<times> nat) list \<Rightarrow> lw \<Rightarrow> bool \<times> lw" where
  "make_room n [] (l, d, w) = (True, l\<lparr>lg_files := []\<rparr>, d, w)"
| "make_room n ((p, sz) # fs) (l, d, w) =
     (if lg_total l + n \<le> lg_max l then (True, l\<lparr>lg_files := (p, sz) # fs\<rparr>, d, w)
      else
        let l1 = (if fs = [] then l\<lparr>lg_file := None\<rparr> else l);
            (ok, w1) = disk w
        in if \<not> (ok \<and> map_of d p \<noteq> None) then (False, l1\<lparr>lg_files := fs\<rparr>, d, w1)
           else make_room n fs (l1\<lparr>lg_total := lg_total l1 - sz\<rparr>, AList.delete p d, w1))"

definition log_room :: "nat \<Rightarrow> lw \<Rightarrow> bool \<times> lw" where
  "log_room n = (\<lambda>(l, d, w). make_room n (lg_files l) (l, d, w))"

section \<open>Opening\<close>

text \<open>The files of earlier runs: those whose name is a number, with their lengths.\<close>

fun scan_logs :: "directory \<Rightarrow> nat \<times> (string \<times> nat) list \<Rightarrow> world \<Rightarrow>
    (nat \<times> (string \<times> nat) list) option \<times> world" where
  "scan_logs [] acc w = (Some acc, w)"
| "scan_logs ((name, b) # d) (seq, files) w =
     (let (listed, w1) = disk w; (typed, w2) = disk w1 in
      if \<not> listed then (None, w1)
      else if \<not> typed then (None, w2)
      else
        (case log_number name of
           None \<Rightarrow> scan_logs d (seq, files) w2
         | Some n \<Rightarrow>
             let (sized, w3) = disk w2 in
             if \<not> sized then (None, w3)
             else scan_logs d (max seq n, files @ [(name, length b)]) w3))"

definition logger_new :: "config \<Rightarrow> directory \<Rightarrow> world \<Rightarrow> lw option" where
  "logger_new cf d w =
     (let (made, w1) = disk w; (listed, w2) = disk w1 in
      if \<not> made \<or> \<not> listed then None
      else
        (case scan_logs d (0, []) w2 of
           (None, w3) \<Rightarrow> None
         | (Some (seq, found), w3) \<Rightarrow>
             let files = sort found;
                 l = \<lparr>lg_max = cfg_n cf ''logMaxBytes'', lg_file_max = cfg_n cf ''logFileMaxBytes'',
                      lg_files = files, lg_total = sum_list (map snd files), lg_seq = seq,
                      lg_file = None\<rparr>;
                 (ok, r) = log_room 0 (l, d, w3)
             in if ok then Some r else None))"

section \<open>Writing\<close>

definition LINE_MAX :: nat where "LINE_MAX = 8 * 1024 * 1024"

definition too_large :: "externals \<Rightarrow> nat \<Rightarrow> nat \<Rightarrow> string" where
  "too_large X t n = x_display X (JObj [(''time'', JStr (x_time X t)),
     (''event'', JStr ''log.record_too_large''), (''bytes'', jnat n)])"

definition new_line :: string where "new_line = [char_of (10 :: nat)]"

text \<open>The text a record becomes: itself, or a note of its length.\<close>

definition log_text :: "externals \<Rightarrow> string \<Rightarrow> logger \<Rightarrow> world \<Rightarrow> string \<times> world" where
  "log_text X record l w =
     (let line = record @ new_line in
      if length line > lg_max l \<or> length line > LINE_MAX
      then let (t, w1) = now w in (too_large X t (length line) @ new_line, w1)
      else (line, w))"

text \<open>A file that the line would overfill is left; its successor is opened when there is room.\<close>

definition leave_full :: "nat \<Rightarrow> logger \<Rightarrow> logger" where
  "leave_full n l =
     (if lg_file l \<noteq> None \<and> lg_files l \<noteq> [] \<and>
         snd (last (lg_files l)) + n > min (lg_file_max l) (lg_max l)
      then l\<lparr>lg_file := None\<rparr> else l)"

definition open_file :: "lw \<Rightarrow> string option \<times> lw" where
  "open_file = (\<lambda>(l, d, w).
     case lg_file l of
       Some f \<Rightarrow> (Some f, l, d, w)
     | None \<Rightarrow>
         let seq = (lg_seq l + 1) mod 2 ^ 64; f = log_name seq; l1 = l\<lparr>lg_seq := seq\<rparr>;
             (ok, w1) = disk w
         in if \<not> ok \<or> map_of d f \<noteq> None then (None, l1, d, w1)
            else (Some f, l1\<lparr>lg_file := Some f, lg_files := lg_files l1 @ [(f, 0)]\<rparr>,
                  AList.update f [] d, w1))"

definition add_bytes :: "nat \<Rightarrow> logger \<Rightarrow> logger" where
  "add_bytes n l =
     l\<lparr>lg_files := butlast (lg_files l) @ [(fst (last (lg_files l)), snd (last (lg_files l)) + n)],
       lg_total := lg_total l + n\<rparr>"

definition content :: "directory \<Rightarrow> string \<Rightarrow> bytes" where
  "content d f = (case map_of d f of Some b \<Rightarrow> b | None \<Rightarrow> [])"

definition append_text :: "string \<Rightarrow> string \<Rightarrow> directory \<Rightarrow> directory" where
  "append_text f line d = AList.update f (content d f @ text_bytes line) d"

definition log_write :: "externals \<Rightarrow> string \<Rightarrow> lw \<Rightarrow> bool \<times> lw" where
  "log_write X record = (\<lambda>(l, d, w).
     let (line, w1) = log_text X record l w; n = length line in
     if n > lg_max l then (True, l, d, w1)
     else
       let (ok, r) = log_room n (leave_full n l, d, w1) in
       if \<not> ok then (False, r)
       else
         (case open_file r of
            (None, r1) \<Rightarrow> (False, r1)
          | (Some f, l2, d2, w2) \<Rightarrow>
              let (wrote, w3) = disk w2 in
              if \<not> wrote then (False, l2, d2, w3)
              else (True, add_bytes n l2, append_text f line d2, w3)))"

section \<open>The directory stays within its limit\<close>

text \<open>
  The logger's books: its files are the log files of the directory, with their lengths; the total is
  their sum; the open file is the last.
\<close>

definition log_ok :: "logger \<Rightarrow> directory \<Rightarrow> bool" where
  "log_ok l d \<longleftrightarrow> imap_ok d \<and> distinct (map fst (lg_files l)) \<and>
     lg_total l = sum_list (map snd (lg_files l)) \<and>
     (\<forall>(p, n) \<in> set (lg_files l). \<exists>b. map_of d p = Some b \<and> length b = n) \<and>
     (\<forall>p. map_of d p \<noteq> None \<and> log_number p \<noteq> None \<longrightarrow> p \<in> fst ` set (lg_files l)) \<and>
     (case lg_file l of None \<Rightarrow> True | Some f \<Rightarrow> lg_files l \<noteq> [] \<and> f = fst (last (lg_files l)))"

definition stored :: "directory \<Rightarrow> (string \<times> nat) list \<Rightarrow> bytes" where
  "stored d fs = concat (map (\<lambda>e. content d (fst e)) fs)"

lemma log_okD:
  assumes "log_ok l d"
  shows "imap_ok d" "distinct (map fst (lg_files l))" "lg_total l = sum_list (map snd (lg_files l))"
    "(p, n) \<in> set (lg_files l) \<Longrightarrow> \<exists>b. map_of d p = Some b \<and> length b = n"
    "map_of d p \<noteq> None \<Longrightarrow> log_number p \<noteq> None \<Longrightarrow> p \<in> fst ` set (lg_files l)"
    "lg_file l = Some f \<Longrightarrow> lg_files l \<noteq> [] \<and> f = fst (last (lg_files l))"
  using assms unfolding log_ok_def by (auto split: option.splits)

lemma stored_cong: "(\<And>e. e \<in> set fs \<Longrightarrow> map_of d' (fst e) = map_of d (fst e)) \<Longrightarrow> stored d' fs = stored d fs"
  unfolding stored_def content_def by (intro arg_cong [of _ _ concat] map_cong) simp_all

text \<open>Removing the oldest file keeps the books.\<close>

lemma log_ok_drop:
  assumes ok: "log_ok (l\<lparr>lg_files := (p, n) # fs\<rparr>) d"
  shows "log_ok (l\<lparr>lg_file := (if fs = [] then None else lg_file l), lg_total := lg_total l - n,
     lg_files := fs\<rparr>) (AList.delete p d)"
proof -
  note D = log_okD [OF ok, simplified]
  have p: "p \<notin> fst ` set fs" using D(2) by simp
  have del: "map_of (AList.delete p d) q = (if q = p then None else map_of d q)" for q
    by (simp add: delete_conv')
  show ?thesis
    unfolding log_ok_def
  proof (intro conjI)
    show "\<forall>(q, k) \<in> set (lg_files (l\<lparr>lg_file := if fs = [] then None else lg_file l, lg_total := lg_total l - n, lg_files := fs\<rparr>)).
        \<exists>b. map_of (AList.delete p d) q = Some b \<and> length b = k"
      using D(4) p by (force simp: del)
    show "\<forall>q. map_of (AList.delete p d) q \<noteq> None \<and> log_number q \<noteq> None \<longrightarrow>
        q \<in> fst ` set (lg_files (l\<lparr>lg_file := if fs = [] then None else lg_file l, lg_total := lg_total l - n, lg_files := fs\<rparr>))"
      using D(5) by (auto simp: del split: if_splits)
  qed (use D in \<open>auto split: option.splits simp: distinct_delete\<close>)
qed

lemma make_room_ok:
  assumes "make_room n fs (l, d, w) = (True, l', d', w')" "log_ok (l\<lparr>lg_files := fs\<rparr>) d" "n \<le> lg_max l"
  shows "log_ok l' d' \<and> lg_total l' + n \<le> lg_max l \<and> lg_max l' = lg_max l \<and> lg_file_max l' = lg_file_max l \<and>
    lg_seq l' = lg_seq l \<and> (lg_file l' = lg_file l \<or> lg_file l' = None) \<and>
    (\<exists>k. lg_files l' = drop k fs \<and> (\<forall>j < k. lg_max l < sum_list (map snd (drop j fs)) + n)) \<and>
    (\<forall>e \<in> set (lg_files l'). map_of d' (fst e) = map_of d (fst e))"
  using assms
proof (induction fs arbitrary: l d w)
  case Nil
  then show ?case using log_okD(3) [OF Nil.prems(2)] by (auto intro: exI [of _ 0])
next
  case (Cons e fs)
  obtain p sz where e: "e = (p, sz)" by (cases e)
  note prems = Cons.prems [unfolded e]
  show ?case
  proof (cases "lg_total l + n \<le> lg_max l")
    case True
    with prems e show ?thesis by (auto intro: exI [of _ 0])
  next
    case False
    let ?l = "(if fs = [] then l\<lparr>lg_file := None\<rparr> else l)\<lparr>lg_total := lg_total l - sz\<rparr>"
    have r: "make_room n fs (?l, AList.delete p d, snd (disk w)) = (True, l', d', w')"
      using prems(1) False by (auto simp: split_beta Let_def split: if_splits)
    have "log_ok (?l\<lparr>lg_files := fs\<rparr>) (AList.delete p d)"
      using log_ok_drop [OF prems(2)] by (cases "fs = []") simp_all
    moreover have "n \<le> lg_max ?l" using prems(3) by simp
    ultimately have IH: "log_ok l' d' \<and> lg_total l' + n \<le> lg_max ?l \<and> lg_max l' = lg_max ?l \<and>
      lg_file_max l' = lg_file_max ?l \<and> lg_seq l' = lg_seq ?l \<and> (lg_file l' = lg_file ?l \<or> lg_file l' = None) \<and>
      (\<exists>k. lg_files l' = drop k fs \<and> (\<forall>j < k. lg_max ?l < sum_list (map snd (drop j fs)) + n)) \<and>
      (\<forall>e \<in> set (lg_files l'). map_of d' (fst e) = map_of (AList.delete p d) (fst e))"
      by (rule Cons.IH [OF r])
    then obtain k where k: "lg_files l' = drop k fs"
      and "\<forall>j < k. lg_max ?l < sum_list (map snd (drop j fs)) + n" by blast
    then have needed: "\<forall>j < k. lg_max l < sum_list (map snd (drop j fs)) + n"
      by (cases "fs = []") simp_all
    have "fst e \<noteq> p" if "e \<in> set (lg_files l')" for e
      using that k log_okD(2) [OF prems(2)] by (auto dest: in_set_dropD)
    with IH have "\<forall>e \<in> set (lg_files l'). map_of d' (fst e) = map_of d (fst e)"
      by (simp add: delete_conv')
    moreover have "lg_total l = sum_list (map snd ((p, sz) # fs))" using log_okD(3) [OF prems(2)] by simp
    then have "\<forall>j < Suc k. lg_max l < sum_list (map snd (drop j ((p, sz) # fs))) + n"
      using needed False by (auto simp: less_Suc_eq_0_disj)
    then have "\<exists>k. lg_files l' = drop k ((p, sz) # fs) \<and>
        (\<forall>j < k. lg_max l < sum_list (map snd (drop j ((p, sz) # fs))) + n)"
      using k by (intro exI [of _ "Suc k"]) simp
    moreover have "lg_file l' = lg_file l \<or> lg_file l' = None" using IH by (auto split: if_splits)
    ultimately show ?thesis using IH unfolding e by (cases "fs = []") simp_all
  qed
qed


lemma leave_full_ok: "log_ok l d \<Longrightarrow> log_ok (leave_full n l) d"
  by (auto simp: leave_full_def log_ok_def)

lemma leave_full_fields [simp]:
  "lg_max (leave_full n l) = lg_max l" "lg_files (leave_full n l) = lg_files l"
  "lg_file_max (leave_full n l) = lg_file_max l" "lg_total (leave_full n l) = lg_total l"
  by (simp_all add: leave_full_def)

lemma open_file_ok:
  assumes "open_file (l, d, w) = (Some f, l', d', w')" "log_ok l d"
  shows "log_ok l' d' \<and> lg_file l' = Some f \<and> lg_max l' = lg_max l \<and> lg_total l' = lg_total l \<and>
    stored d' (lg_files l') = stored d (lg_files l)"
proof (cases "lg_file l")
  case (Some g)
  with assms show ?thesis by (simp add: open_file_def)
next
  case None
  let ?f = "log_name ((lg_seq l + 1) mod 2 ^ 64)"
  have l': "l' = l\<lparr>lg_seq := (lg_seq l + 1) mod 2 ^ 64, lg_file := Some f, lg_files := lg_files l @ [(f, 0)]\<rparr>"
    and d': "d' = AList.update f [] d" and f: "f = ?f" "map_of d f = None"
    using assms(1) None by (auto simp: open_file_def split_beta Let_def split: if_splits)
  note D = log_okD [OF assms(2)]
  have new: "f \<notin> fst ` set (lg_files l)" using D(4) f(2) by fastforce
  then have "map_of d' (fst e) = map_of d (fst e)" if "e \<in> set (lg_files l)" for e
    using that by (auto simp: d' update_conv')
  then have "stored d' (lg_files l) = stored d (lg_files l)" by (rule stored_cong)
  moreover have "stored d' [(f, 0)] = []" by (simp add: stored_def content_def d' update_conv')
  ultimately have st: "stored d' (lg_files l') = stored d (lg_files l)" by (simp add: l' stored_def)
  have "log_ok l' d'"
    unfolding log_ok_def
  proof (intro conjI)
    show "\<forall>(p, n) \<in> set (lg_files l'). \<exists>b. map_of d' p = Some b \<and> length b = n"
      using D(4) new by (force simp: l' d' update_conv')
    show "\<forall>p. map_of d' p \<noteq> None \<and> log_number p \<noteq> None \<longrightarrow> p \<in> fst ` set (lg_files l')"
      using D(5) by (auto simp: l' d' update_conv')
  qed (use D new in \<open>auto simp: l' d' distinct_update\<close>)
  with st show ?thesis by (simp add: l')
qed

lemma append_ok:
  assumes ok: "log_ok l d" and f: "lg_file l = Some f" and n: "n = length line"
  shows "log_ok (add_bytes n l) (append_text f line d)"
    "stored (append_text f line d) (lg_files (add_bytes n l)) = stored d (lg_files l) @ text_bytes line"
proof -
  note D = log_okD [OF ok]
  obtain fs k where fs: "lg_files l = fs @ [(f, k)]"
    using D(6) [OF f] by (metis append_butlast_last_id prod.collapse)
  have new: "f \<notin> fst ` set fs" using D(2) by (simp add: fs)
  obtain b where b: "map_of d f = Some b" "length b = k" using D(4) [of f k] by (auto simp: fs)
  have up: "map_of (append_text f line d) q = (if q = f then Some (b @ text_bytes line) else map_of d q)" for q
    by (simp add: append_text_def content_def b update_conv')
  have l': "lg_files (add_bytes n l) = fs @ [(f, k + n)]" by (simp add: add_bytes_def fs)
  show "log_ok (add_bytes n l) (append_text f line d)"
    unfolding log_ok_def l'
  proof (intro conjI)
    show "\<forall>(p, m) \<in> set (fs @ [(f, k + n)]). \<exists>b. map_of (append_text f line d) p = Some b \<and> length b = m"
      using D(4) new b by (force simp: up fs n)
    show "\<forall>p. map_of (append_text f line d) p \<noteq> None \<and> log_number p \<noteq> None \<longrightarrow>
        p \<in> fst ` set (fs @ [(f, k + n)])"
      using D(5) by (auto simp: up fs split: if_splits)
  qed (use D f in \<open>auto simp: fs add_bytes_def append_text_def distinct_update\<close>)
  have "stored (append_text f line d) fs = stored d fs" by (rule stored_cong) (use new up in force)
  then show "stored (append_text f line d) (lg_files (add_bytes n l)) = stored d (lg_files l) @ text_bytes line"
    unfolding l' by (simp add: stored_def fs content_def up b)
qed

lemma log_text_fits: "log_text X record l w = (line, w1) \<Longrightarrow>
    line = record @ new_line \<or> length (record @ new_line) > lg_max l \<or> length (record @ new_line) > LINE_MAX"
  by (auto simp: log_text_def Let_def split: if_splits prod.splits)

text \<open>
  A record that is written is the end of the log, after whole files of what was there: only the
  oldest files go, and the directory is within its limit.
\<close>

lemma log_write_ok:
  assumes wr: "log_write X record (l, d, w) = (True, l', d', w')" and ok: "log_ok l d"
    and small: "lg_total l \<le> lg_max l"
  shows "log_ok l' d' \<and> lg_total l' \<le> lg_max l' \<and> lg_max l' = lg_max l \<and>
    (\<exists>k line. stored d' (lg_files l') = stored d (drop k (lg_files l)) @ text_bytes line \<and>
       (\<forall>j < k. lg_max l < sum_list (map snd (drop j (lg_files l))) + length line) \<and>
       (line = record @ new_line \<or> lg_max l < length (record @ new_line) \<or> LINE_MAX < length (record @ new_line)))"
proof -
  obtain line w1 where line: "log_text X record l w = (line, w1)" by fastforce
  let ?n = "length line"
  show ?thesis
  proof (cases "?n > lg_max l")
    case True
    then have "l' = l" "d' = d" using wr by (auto simp: log_write_def line)
    moreover have "lg_max l < length (record @ new_line) \<or> LINE_MAX < length (record @ new_line)"
      using True line by (auto simp: log_text_def Let_def split: if_splits prod.splits)
    ultimately show ?thesis using ok small
      by (intro conjI exI [of _ 0] exI [of _ "[]"]) (auto simp: text_bytes_def)
  next
    case False
    let ?l = "leave_full ?n l"
    obtain l1 d1 w2 where room: "make_room ?n (lg_files ?l) (?l, d, w1) = (True, l1, d1, w2)"
      using wr False by (auto simp: log_write_def line log_room_def Let_def split: prod.splits if_splits)
    obtain f l2 d2 w3 where opened: "open_file (l1, d1, w2) = (Some f, l2, d2, w3)"
      using wr False room by (auto simp: log_write_def line log_room_def Let_def
          split: prod.splits option.splits if_splits)
    have res: "l' = add_bytes ?n l2" "d' = append_text f line d2"
      using wr False room opened by (auto simp: log_write_def line log_room_def Let_def
          split: prod.splits if_splits)
    have same: "r\<lparr>lg_files := lg_files r\<rparr> = r" for r :: logger by simp
    have "log_ok (?l\<lparr>lg_files := lg_files ?l\<rparr>) d" unfolding same by (rule leave_full_ok [OF ok])
    from make_room_ok [OF room this] False obtain k where
      1: "log_ok l1 d1" "lg_total l1 + ?n \<le> lg_max l" "lg_max l1 = lg_max l" "lg_files l1 = drop k (lg_files l)"
        "\<forall>e \<in> set (lg_files l1). map_of d1 (fst e) = map_of d (fst e)"
        "\<forall>j < k. lg_max l < sum_list (map snd (drop j (lg_files l))) + ?n" by auto
    note 2 = open_file_ok [OF opened 1(1)]
    have 3: "log_ok l2 d2" "lg_file l2 = Some f" using 2 by auto
    have "stored d1 (lg_files l1) = stored d (drop k (lg_files l))"
      unfolding 1(4) [symmetric] by (rule stored_cong) (use 1(5) in blast)
    with 2 append_ok [OF 3 refl, of line] have
      "stored d' (lg_files l') = stored d (drop k (lg_files l)) @ text_bytes line" by (simp add: res)
    moreover have "lg_total l' \<le> lg_max l'" "lg_max l' = lg_max l" using 1(2,3) 2 by (simp_all add: res add_bytes_def)
    ultimately show ?thesis using append_ok(1) [OF 3 refl, of line] log_text_fits [OF line] res 1(6)
      by (intro conjI exI [of _ k] exI [of _ line]) auto
  qed
qed


section \<open>Restart\<close>

lemma scan_logs_ok:
  assumes "scan_logs d (s, fs) w = (Some (s', fs'), w')" "imap_ok d"
  shows "fs' = fs @ map (\<lambda>(p, b). (p, length b)) (filter (\<lambda>(p, b). log_number p \<noteq> None) d)"
proof -
  have "scan_logs d (s, fs) w = (Some (s', fs'), w') \<Longrightarrow>
    fs' = fs @ map (\<lambda>(p, b). (p, length b)) (filter (\<lambda>(p, b). log_number p \<noteq> None) d)"
    by (induction d arbitrary: s fs w) (fastforce simp: split_beta Let_def split: if_splits option.splits)+
  then show ?thesis using assms(1) .
qed

text \<open>The number of bytes in log files, whoever wrote them.\<close>

definition log_bytes :: "directory \<Rightarrow> nat" where
  "log_bytes d = sum_list (map (\<lambda>(p, b). if log_number p \<noteq> None then length b else 0) d)"

text \<open>Opening takes over every log file of the directory and brings it within the limit.\<close>

lemma logger_new_ok:
  assumes "logger_new cf d w = Some (l, d', w')" "imap_ok d"
  shows "log_ok l d'" "lg_total l \<le> lg_max l" "lg_max l = cfg_n cf ''logMaxBytes''"
    "\<exists>k. lg_files l = drop k (sort (map (\<lambda>(p, b). (p, length b)) (filter (\<lambda>(p, b). log_number p \<noteq> None) d)))"
proof -
  obtain s fs w2 w3 where sc: "scan_logs d (0, []) w2 = (Some (s, fs), w3)"
    and room: "make_room 0 (sort fs) (\<lparr>lg_max = cfg_n cf ''logMaxBytes'', lg_file_max = cfg_n cf ''logFileMaxBytes'',
       lg_files = sort fs, lg_total = sum_list (map snd (sort fs)), lg_seq = s, lg_file = None\<rparr>, d, w3) = (True, l, d', w')"
    using assms(1) by (auto simp: logger_new_def log_room_def Let_def split: prod.splits if_splits option.splits)
  note fs = scan_logs_ok [OF sc assms(2), simplified]
  have names: "map fst fs = map fst (filter (\<lambda>(p, b). log_number p \<noteq> None) d)"
    by (simp add: fs split_beta)
  have dist: "distinct (map fst fs)" unfolding names using assms(2) by (rule imap_ok_filter)
  have mem: "(p, n) \<in> set fs \<longleftrightarrow> log_number p \<noteq> None \<and> (\<exists>b. map_of d p = Some b \<and> length b = n)" for p n
    using assms(2) by (force simp: fs map_of_eq_Some_iff)
  have listed: "p \<in> fst ` set fs" if "map_of d p = Some b" "log_number p = Some k" for p b k
    using mem [of p "length b"] that by force
  have "distinct (map fst (sort fs))"
    using dist by (simp add: distinct_map)
  then have "log_ok (\<lparr>lg_max = cfg_n cf ''logMaxBytes'', lg_file_max = cfg_n cf ''logFileMaxBytes'',
       lg_files = sort fs, lg_total = sum_list (map snd (sort fs)), lg_seq = s, lg_file = None\<rparr>) d"
    using assms(2) mem listed by (auto simp: log_ok_def)
  from make_room_ok [OF room] this show "log_ok l d'" "lg_total l \<le> lg_max l" "lg_max l = cfg_n cf ''logMaxBytes''"
    "\<exists>k. lg_files l = drop k (sort (map (\<lambda>(p, b). (p, length b)) (filter (\<lambda>(p, b). log_number p \<noteq> None) d)))"
    unfolding fs by auto
qed

lemma is_digit_char: "n < 10 \<Longrightarrow> is_digit (char_of (48 + n :: nat))"
  by (simp add: is_digit_def in_range_def)

lemma dec_digits: "list_all is_digit (dec n)"
proof (induction n rule: dec.induct)
  case (1 n)
  then show ?case by (subst dec.simps) (auto simp: is_digit_char)
qed

definition decimal :: "string \<Rightarrow> nat \<Rightarrow> nat" where
  "decimal s a = fold (\<lambda>c n. n * 10 + (of_char c - 48)) s a"

lemma decimal_dec: "decimal (dec n) 0 = n"
proof (induction n rule: dec.induct)
  case (1 n)
  then show ?case by (subst dec.simps) (auto simp: decimal_def)
qed

lemma decimal_zeros: "decimal (replicate k (CHR ''0'') @ s) 0 = decimal s 0"
  by (induction k) (simp_all add: decimal_def)

lemma dec_length: "n < 10 ^ k \<Longrightarrow> 0 < k \<Longrightarrow> length (dec n) \<le> k"
proof (induction n arbitrary: k rule: dec.induct)
  case (1 n)
  show ?case
  proof (cases "n < 10")
    case False
    then obtain j where k: "k = Suc j" "0 < j" using "1.prems" by (cases k; cases "k - 1") auto
    then have "length (dec (n div 10)) \<le> j" using False "1.prems" by (intro "1.IH") auto
    with False k show ?thesis by (subst dec.simps) simp
  qed (use "1.prems" in \<open>subst dec.simps, simp\<close>)
qed

text \<open>The name of a file gives back its number, so a restart finds every file a run has written.\<close>

lemma log_number_name:
  assumes "n < 2 ^ 64"
  shows "log_number (log_name n) = Some n"
proof -
  let ?s = "replicate (20 - length (dec n)) CHR ''0'' @ dec n"
  have l: "length ?s = 20" using dec_length [of n 20] assms by simp
  have digits: "list_all is_digit ?s"
    using dec_digits [of n]
    by (auto simp: list_all_iff is_digit_def in_range_def set_replicate_conv_if split: if_splits)
  then have "hd ?s \<noteq> CHR ''+''" using l by (cases ?s) (auto simp: is_digit_def in_range_def)
  then have plain: "(case ?s of c # r \<Rightarrow> if c = CHR ''+'' \<and> r \<noteq> [] then r else ?s | [] \<Rightarrow> []) = ?s"
    by (cases ?s) auto
  have "decimal ?s 0 = n" by (simp only: decimal_zeros decimal_dec)
  then have "parse_u64 ?s = Some n"
    unfolding parse_u64_def plain Let_def using digits assms l by (auto simp: decimal_def)
  moreover have "log_name n = ''server-'' @ ?s @ ''.jsonl''" by (simp add: log_name_def)
  ultimately show ?thesis using l by (simp add: log_number_def Let_def del: replicate_append_same)
qed

lemma sum_list_map_set: "distinct xs \<Longrightarrow> sum_list (map f xs) = sum f (set xs)" for f :: "'a \<Rightarrow> nat"
  by (rule sum_list_distinct_conv_sum_set)

text \<open>What the books count is what lies on disk.\<close>

lemma log_bytes_le:
  assumes "log_ok l d"
  shows "log_bytes d \<le> lg_total l"
proof -
  note D = log_okD [OF assms]
  let ?f = "\<lambda>p. length (content d p)"
  let ?P = "\<lambda>p. log_number p \<noteq> None"
  have "log_bytes d = sum_list (map (\<lambda>p. if ?P p then ?f p else 0) (map fst d))"
    using D(1) by (auto simp: log_bytes_def content_def intro!: arg_cong [of _ _ sum_list])
  also have "\<dots> = sum (\<lambda>p. if ?P p then ?f p else 0) (fst ` set d)"
    using D(1) by (subst sum_list_map_set) simp_all
  also have "\<dots> = sum ?f {p \<in> fst ` set d. ?P p}" by (simp add: sum.inter_filter)
  also have "\<dots> \<le> sum ?f (fst ` set (lg_files l))"
  proof (rule sum_mono2)
    show "{p \<in> fst ` set d. ?P p} \<subseteq> fst ` set (lg_files l)"
      using D(5) by (auto simp: weak_map_of_SomeI dest!: map_of_is_SomeI [OF D(1)])
  qed simp_all
  also have "\<dots> = sum_list (map ?f (map fst (lg_files l)))"
    using D(2) by (subst sum_list_map_set) simp_all
  also have "map ?f (map fst (lg_files l)) = map snd (lg_files l)"
    using D(4) by (fastforce simp: content_def)
  also have "sum_list \<dots> = lg_total l" by (simp add: D(3))
  finally show ?thesis .
qed

section \<open>On a healthy disk\<close>

text \<open>Every log file on disk has a number the logger has passed.\<close>

definition numbered :: "logger \<Rightarrow> directory \<Rightarrow> bool" where
  "numbered l d \<longleftrightarrow> (\<forall>p k. map_of d p \<noteq> None \<and> log_number p = Some k \<longrightarrow> k \<le> lg_seq l)"

lemma make_room_complete:
  assumes "disk_ok w" "log_ok (l\<lparr>lg_files := fs\<rparr>) d" "numbered l d"
  shows "\<exists>l' d' w'. make_room n fs (l, d, w) = (True, l', d', w') \<and> disk_ok w' \<and> numbered l' d'"
  using assms
proof (induction fs arbitrary: l d w)
  case Nil
  then show ?case by (simp add: numbered_def)
next
  case (Cons e fs)
  obtain p sz where e: "e = (p, sz)" by (cases e)
  note prems = Cons.prems [unfolded e]
  show ?case
  proof (cases "lg_total l + n \<le> lg_max l")
    case True
    with prems show ?thesis by (simp add: e numbered_def)
  next
    case False
    let ?l = "(if fs = [] then l\<lparr>lg_file := None\<rparr> else l)\<lparr>lg_total := lg_total l - sz\<rparr>"
    have p: "map_of d p \<noteq> None" using log_okD(4) [OF prems(2), of p sz] by auto
    have "log_ok (?l\<lparr>lg_files := fs\<rparr>) (AList.delete p d)"
      using log_ok_drop [OF prems(2)] by (cases "fs = []") simp_all
    moreover have "numbered ?l (AList.delete p d)"
      using prems(3) by (auto simp: numbered_def delete_conv' split: if_splits)
    ultimately obtain l' d' w' where
      "make_room n fs (?l, AList.delete p d, snd (disk w)) = (True, l', d', w')" "disk_ok w'" "numbered l' d'"
      using Cons.IH [of "snd (disk w)" ?l "AList.delete p d"] prems(1) by auto
    with False p prems(1) show ?thesis by (cases "fs = []") (auto simp: e split_beta Let_def)
  qed
qed

lemma open_file_complete:
  assumes "disk_ok w" "numbered l d" "lg_seq l + 1 < 2 ^ 64"
  shows "\<exists>f l' d' w'. open_file (l, d, w) = (Some f, l', d', w') \<and> disk_ok w' \<and> numbered l' d'"
proof (cases "lg_file l")
  case (Some f)
  with assms show ?thesis by (simp add: open_file_def)
next
  case None
  let ?f = "log_name (lg_seq l + 1)"
  have m: "(lg_seq l + 1) mod 18446744073709551616 = lg_seq l + 1" using assms(3) by simp
  have nf: "log_number ?f = Some (lg_seq l + 1)" by (rule log_number_name [OF assms(3)])
  then have "map_of d ?f = None" using assms(2) by (fastforce simp: numbered_def)
  then have "open_file (l, d, w) = (Some ?f, l\<lparr>lg_seq := lg_seq l + 1, lg_file := Some ?f,
      lg_files := lg_files l @ [(?f, 0)]\<rparr>, AList.update ?f [] d, snd (disk w))"
    using None assms(1) by (simp add: open_file_def m split_beta Let_def del: One_nat_def add_Suc_right)
  moreover have "numbered (l\<lparr>lg_seq := lg_seq l + 1, lg_file := Some ?f,
      lg_files := lg_files l @ [(?f, 0)]\<rparr>) (AList.update ?f [] d)"
    using assms(2) nf by (fastforce simp: numbered_def update_conv')
  ultimately show ?thesis using assms(1) by auto
qed

lemma log_write_complete:
  assumes w: "disk_ok w" and ok: "log_ok l d" and num: "numbered l d" "lg_seq l + 1 < 2 ^ 64"
  shows "\<exists>l' d' w'. log_write X record (l, d, w) = (True, l', d', w') \<and> disk_ok w' \<and> numbered l' d'"
proof -
  obtain line w1 where line: "log_text X record l w = (line, w1)" by fastforce
  have w1: "disk_ok w1"
    using line w by (auto simp: log_text_def now_def disk_ok_def Let_def split: if_splits)
  let ?n = "length line"
  let ?l = "leave_full ?n l"
  show ?thesis
  proof (cases "?n > lg_max l")
    case True
    with w1 num show ?thesis by (simp add: log_write_def line)
  next
    case False
    have same: "r\<lparr>lg_files := lg_files r\<rparr> = r" for r :: logger by simp
    have okl: "log_ok (?l\<lparr>lg_files := lg_files ?l\<rparr>) d" unfolding same by (rule leave_full_ok [OF ok])
    have seq: "lg_seq ?l = lg_seq l" by (simp add: leave_full_def)
    then have "numbered ?l d" using num(1) by (simp add: numbered_def)
    from make_room_complete [OF w1 okl this] obtain l1 d1 w2 where
      room: "make_room ?n (lg_files ?l) (?l, d, w1) = (True, l1, d1, w2)" "disk_ok w2" "numbered l1 d1" by blast
    from make_room_ok [OF room(1) okl] False seq num(2) have "lg_seq l1 + 1 < 2 ^ 64" by simp
    from open_file_complete [OF room(2,3) this] obtain f l2 d2 w3 where
      opened: "open_file (l1, d1, w2) = (Some f, l2, d2, w3)" "disk_ok w3" "numbered l2 d2" by blast
    have "log_ok l1 d1" using make_room_ok [OF room(1) okl] False by simp
    from open_file_ok [OF opened(1) this] have ok2: "log_ok l2 d2" "lg_file l2 = Some f" by simp_all
    from log_okD(6) [OF ok2] have "(f, snd (last (lg_files l2))) \<in> set (lg_files l2)"
      by (metis last_in_set prod.collapse)
    from log_okD(4) [OF ok2(1) this] have "map_of d2 f \<noteq> None" by auto
    then have "numbered (add_bytes ?n l2) (append_text f line d2)"
      using opened(3) by (auto simp: numbered_def add_bytes_def append_text_def update_conv' split: if_splits)
    with room opened False show ?thesis
      by (simp add: log_write_def line log_room_def split_beta Let_def)
  qed
qed

section \<open>The writer thread\<close>

text \<open>
  It takes the lines off the channel in order; after a failed write it goes on without a file. A
  flush notes how many records were lost.
\<close>

type_synonym writer = "diag \<times> logger option \<times> directory \<times> world"

definition writer_line :: "externals \<Rightarrow> writer \<Rightarrow> writer" where
  "writer_line X = (\<lambda>(g, lo, d, w).
     case d_lines g of
       [] \<Rightarrow> (g, lo, d, w)
     | line # rest \<Rightarrow>
         let g1 = g\<lparr>d_lines := rest, d_queued := d_queued g - length line\<rparr> in
         (case lo of
            None \<Rightarrow> (g1, None, d, w)
          | Some l \<Rightarrow>
              let (ok, l1, d1, w1) = log_write X line (l, d, w)
              in (g1, if ok then Some l1 else None, d1, w1)))"

definition records_dropped :: "externals \<Rightarrow> nat \<Rightarrow> nat \<Rightarrow> string" where
  "records_dropped X t n = x_display X (JObj [(''time'', JStr (x_time X t)),
     (''event'', JStr ''log.records_dropped''), (''count'', jnat n)])"

definition writer_flush :: "externals \<Rightarrow> writer \<Rightarrow> writer" where
  "writer_flush X = (\<lambda>(g, lo, d, w).
     case lo of
       None \<Rightarrow> (g, None, d, w)
     | Some l \<Rightarrow>
         let count = d_dropped g; g1 = g\<lparr>d_dropped := 0\<rparr> in
         if count = 0 then (g1, Some l, d, w)
         else
           let (t, w1) = now w;
               (_, l1, d1, w2) = log_write X (records_dropped X t count) (l, d, w1)
           in (g1, Some l1, d1, w2))"

text \<open>The channel's bounds hold while the writer works, and its byte count stays exact.\<close>

lemma writer_line_bounded:
  assumes "diag_bounded g" "writer_line X (g, lo, d, w) = (g', lo', d', w')"
  shows "diag_bounded g'"
  using assms by (auto simp: writer_line_def diag_bounded_def Let_def split: list.splits option.splits prod.splits)

text \<open>One line of the channel becomes the end of the log, on a healthy disk.\<close>

lemma writer_line_ok:
  assumes g: "d_lines g = line # rest" and w: "disk_ok w" and ok: "log_ok l d" "numbered l d"
    and "lg_total l \<le> lg_max l" "lg_seq l + 1 < 2 ^ 64"
    and fits: "length (line @ new_line) \<le> lg_max l" "length (line @ new_line) \<le> LINE_MAX"
  shows "\<exists>g' l' d' w' k. writer_line X (g, Some l, d, w) = (g', Some l', d', w') \<and> d_lines g' = rest \<and>
    log_ok l' d' \<and> numbered l' d' \<and> disk_ok w' \<and> lg_total l' \<le> lg_max l' \<and>
    stored d' (lg_files l') = stored d (drop k (lg_files l)) @ text_bytes (line @ new_line)"
proof -
  obtain l' d' w' where wr: "log_write X line (l, d, w) = (True, l', d', w')" "disk_ok w'" "numbered l' d'"
    using log_write_complete [OF w ok assms(6)] by blast
  from log_write_ok [OF wr(1) ok(1) assms(5)] fits obtain k where
    "log_ok l' d'" "lg_total l' \<le> lg_max l'"
    "stored d' (lg_files l') = stored d (drop k (lg_files l)) @ text_bytes (line @ new_line)" by auto
  with wr g show ?thesis by (auto simp: writer_line_def)
qed

end
