(* ===== verification/Loadtest.thy ===== *)
theory Loadtest
  imports Client Logger
begin

text \<open>
  The load test of the developer tools (\<open>rust/tools/load.rs\<close>): its plan, the rooms it brings up, what
  a client sends and counts, and the verdict of a stage. Times are inputs. The percentiles of the
  report are those of the benchmark of \<open>local.rs\<close> too.
\<close>

section \<open>Doubles\<close>

text \<open>Rounding of a rational to the nearest double, ties to even, where the exponent is in range.\<close>

definition pow2 :: "int \<Rightarrow> rat" where
  "pow2 e = 2 powi e"

definition exponent :: "rat \<Rightarrow> int" where
  "exponent q =
     (let (n, d) = quotient_of q;
          e = int (bit_width (nat n)) - int (bit_width (nat d)) - 53
      in if q / pow2 e < 2 ^ 53 then e else e + 1)"

definition round_rat :: "rat \<Rightarrow> int" where
  "round_rat m =
     (let f = \<lfloor>m\<rfloor>; r = m - of_int f
      in if r > 1 / 2 \<or> (r = 1 / 2 \<and> odd f) then f + 1 else f)"

definition f64_pos :: "rat \<Rightarrow> rat" where
  "f64_pos q = (let s = pow2 (exponent q) in of_int (round_rat (q / s)) * s)"

definition f64 :: "rat \<Rightarrow> rat" where
  "f64 q = (if q = 0 then 0 else if 0 < q then f64_pos q else - f64_pos (- q))"

section \<open>The plan\<close>

definition numeric :: "json \<Rightarrow> string \<Rightarrow> nat \<Rightarrow> nat \<Rightarrow> nat \<Rightarrow> nat option" where
  "numeric cfg k d lo hi =
     (case (case getk cfg k of None \<Rightarrow> Some d | Some v \<Rightarrow> as_u64 v) of
        None \<Rightarrow> None
      | Some n \<Rightarrow> if lo \<le> n \<and> n \<le> hi then Some n else None)"

text \<open>\<open>windows(2).all(..)\<close>\<close>

fun rising :: "nat list \<Rightarrow> bool" where
  "rising (a # b # ns) = (a < b \<and> rising (b # ns))"
| "rising _ = True"

definition levels_ok :: "nat \<Rightarrow> nat list \<Rightarrow> bool" where
  "levels_ok rsize ns \<longleftrightarrow>
     ns \<noteq> [] \<and> list_all (\<lambda>n. 0 < n \<and> n \<le> 100000 \<and> n mod rsize = 0) ns \<and> rising ns"

fun each_u64 :: "json list \<Rightarrow> nat list option" where
  "each_u64 [] = Some []"
| "each_u64 (v # vs) =
     (case as_u64 v of
        None \<Rightarrow> None
      | Some n \<Rightarrow> (case each_u64 vs of None \<Rightarrow> None | Some ns \<Rightarrow> Some (n # ns)))"

definition is_socket_url :: "string \<Rightarrow> bool" where
  "is_socket_url u \<longleftrightarrow> take 5 u = ''ws://'' \<or> take 6 u = ''wss://''"

record plan =
  pl_url :: string
  pl_size :: nat
  pl_hz :: nat
  pl_state :: nat
  pl_input :: nat
  pl_warmup :: nat
  pl_duration :: nat
  pl_pause :: nat
  pl_levels :: "nat list"
  pl_ramp :: nat
  pl_retries :: nat

definition read_plan :: "json \<Rightarrow> plan option" where
  "read_plan cfg =
     Option.bind (as_str (idx cfg ''url'')) (\<lambda>url.
     if \<not> is_socket_url url then None else
     Option.bind (numeric cfg ''roomSize'' 4 2 64) (\<lambda>rsize.
     Option.bind (numeric cfg ''hz'' 20 1 1000) (\<lambda>hz.
     Option.bind (numeric cfg ''stateBytes'' 1000 100 60000) (\<lambda>state.
     Option.bind (numeric cfg ''inputBytes'' 100 100 60000) (\<lambda>inp.
     Option.bind (numeric cfg ''warmupSeconds'' 5 1 3600) (\<lambda>warmup.
     Option.bind (numeric cfg ''durationSeconds'' 60 1 86400) (\<lambda>duration.
     Option.bind (numeric cfg ''rampPauseMs'' 200 0 60000) (\<lambda>pause.
     Option.bind (as_array (idx cfg ''levels'')) (\<lambda>vs.
     Option.bind (each_u64 vs) (\<lambda>levels.
     if \<not> levels_ok rsize levels then None else
     Option.bind (numeric cfg ''rampRooms'' 4 1 1000) (\<lambda>ramp.
     Option.bind (numeric cfg ''rampRetryLimit'' 0 0 100) (\<lambda>retries.
       Some \<lparr>pl_url = url, pl_size = rsize, pl_hz = hz, pl_state = state, pl_input = inp,
         pl_warmup = warmup, pl_duration = duration, pl_pause = pause, pl_levels = levels,
         pl_ramp = ramp, pl_retries = retries\<rparr>))))))))))))"

section \<open>Bringing up the rooms\<close>

text \<open>
  The loop that brings up rooms until a level is reached, when every room comes up;
  \<^const>\<open>None\<close> is a loop that never ends.
\<close>

partial_function (option) ramp :: "nat \<Rightarrow> nat \<Rightarrow> nat \<Rightarrow> nat \<Rightarrow> nat option" where
  "ramp ramp_rooms rsize level count =
     (if count < level
      then ramp ramp_rooms rsize level (count + min ramp_rooms ((level - count) div rsize) * rsize)
      else Some count)"

fun ramps :: "nat \<Rightarrow> nat \<Rightarrow> nat list \<Rightarrow> nat \<Rightarrow> nat option" where
  "ramps ramp_rooms rsize [] count = Some count"
| "ramps ramp_rooms rsize (level # ls) count =
     Option.bind (ramp ramp_rooms rsize level count) (ramps ramp_rooms rsize ls)"

text \<open>
  The tries of one room: the first that comes up with its number, or nothing when the last allowed
  one fails too.
\<close>

function attempts :: "(nat \<Rightarrow> bool) \<Rightarrow> nat \<Rightarrow> nat \<Rightarrow> nat option" where
  "attempts up retry_limit k =
     (if up k then Some k
      else if k \<ge> retry_limit then None
      else attempts up retry_limit (Suc k))"
  by pat_completeness auto
termination by (relation "measure (\<lambda>(up, retry_limit, k). retry_limit - k)") auto

declare attempts.simps [simp del]

section \<open>The statistics of a stage\<close>

definition BUCKETS :: nat where "BUCKETS = 10002"

record tally =
  ta_sent :: nat
  ta_sent_bytes :: nat
  ta_expected :: nat
  ta_received :: nat
  ta_received_bytes :: nat
  ta_duplicates :: nat
  ta_missed :: nat
  ta_max_buffered :: nat
  ta_latencies :: "nat list"
  ta_total :: rat
  ta_max :: rat
  ta_errors :: nat
  ta_disconnects :: nat

definition tally_default :: tally where
  "tally_default = \<lparr>ta_sent = 0, ta_sent_bytes = 0, ta_expected = 0, ta_received = 0,
     ta_received_bytes = 0, ta_duplicates = 0, ta_missed = 0, ta_max_buffered = 0,
     ta_latencies = replicate BUCKETS 0, ta_total = 0, ta_max = 0, ta_errors = 0, ta_disconnects = 0\<rparr>"

definition latency :: "rat \<Rightarrow> tally \<Rightarrow> tally" where
  "latency ms ta =
     (let i = min (nat \<lfloor>max ms 0\<rfloor>) (BUCKETS - 1) in
      ta\<lparr>ta_latencies := (ta_latencies ta)[i := ta_latencies ta ! i + 1],
         ta_total := f64 (ta_total ta + ms), ta_max := max (ta_max ta) ms\<rparr>)"

definition share :: "nat \<Rightarrow> rat \<Rightarrow> nat" where
  "share n p = nat \<lceil>f64 (of_nat (f64_of_nat n) * p)\<rceil>"

fun bucket_of :: "nat \<Rightarrow> nat \<Rightarrow> nat \<Rightarrow> nat list \<Rightarrow> nat option" where
  "bucket_of target count i [] = None"
| "bucket_of target count i (n # ns) =
     (if count + n \<ge> target then Some i else bucket_of target (count + n) (Suc i) ns)"

definition percentile :: "rat \<Rightarrow> tally \<Rightarrow> nat option" where
  "percentile p ta =
     (if ta_received ta = 0 then None else bucket_of (share (ta_received ta) p) 0 0 (ta_latencies ta))"

text \<open>The percentile of the benchmark: a bin of a hundredth of a millisecond, and 0 without one.\<close>

definition bench_percentile :: "rat \<Rightarrow> nat \<Rightarrow> nat list \<Rightarrow> rat" where
  "bench_percentile q count hist =
     (case bucket_of (share count q) 0 0 hist of
        None \<Rightarrow> 0 | Some i \<Rightarrow> f64 (of_nat (f64_of_nat i) / 100))"

section \<open>A client of the load test\<close>

record sender =
  se_index :: nat
  se_owner :: string
  se_is_owner :: bool
  se_size :: nat
  se_padding :: string
  se_run :: string

definition test_payload :: "sender \<Rightarrow> nat \<Rightarrow> nat \<Rightarrow> jnum \<Rightarrow> json" where
  "test_payload w epoch sq t =
     JObj [(''lt'', JStr (se_run w)), (''e'', jnat epoch), (''s'', jnat (se_index w)), (''q'', jnat sq),
       (''t'', JNum t), (''pad'', JStr (se_padding w))]"

definition client_request :: "sender \<Rightarrow> json \<Rightarrow> json" where
  "client_request w p =
     (let (m, d) = (if se_is_owner w then (''shareGameState'', JObj [(''gamestate'', p)])
                    else (''sendTo'', JObj [(''to'', JArr [JStr (se_owner w)]), (''msg'', p)]))
      in JObj [(''method'', JStr m), (''data'', d)])"

text \<open>One tick: \<open>missed\<close> ticks were due before it. A frame the queue refuses ends the client.\<close>

definition tick :: "externals \<Rightarrow> sender \<Rightarrow> nat \<Rightarrow> nat \<Rightarrow> jnum \<Rightarrow> nat \<Rightarrow> send_queue \<times> tally \<Rightarrow>
    bool \<times> send_queue \<times> tally" where
  "tick X w epoch sq t missed = (\<lambda>(q, ta).
     let body = x_display X (client_request w (test_payload w epoch sq t));
         buffered = sq_queued q;
         (ok, q') = queue_frame (Text body) q
     in if \<not> ok then (False, q', ta)
        else (True, q', ta\<lparr>ta_sent := ta_sent ta + 1, ta_sent_bytes := ta_sent_bytes ta + length body,
               ta_expected := ta_expected ta + (if se_is_owner w then se_size w - 1 else 1),
               ta_missed := ta_missed ta + missed,
               ta_max_buffered := max (ta_max_buffered ta) buffered\<rparr>))"

text \<open>
  What comes in, for a client in a stage: the numbers seen last of every sender and the statistics.
  \<^const>\<open>False\<close> is an error, which ends the load test. The statistics stay when there is no stage.
\<close>

definition counted :: "rat \<Rightarrow> nat \<Rightarrow> nat \<Rightarrow> nat \<Rightarrow> (nat \<times> nat) list \<times> tally \<Rightarrow> (nat \<times> nat) list \<times> tally" where
  "counted ms bytes who sq = (\<lambda>(seen, ta).
     let again = (case map_of seen who of None \<Rightarrow> False | Some old \<Rightarrow> sq \<le> old) in
     (AList.update who sq seen,
      latency ms (ta\<lparr>ta_duplicates := ta_duplicates ta + (if again then 1 else 0),
        ta_received := ta_received ta + 1, ta_received_bytes := ta_received_bytes ta + bytes\<rparr>)))"

definition in_stage :: "nat option \<Rightarrow> (tally \<Rightarrow> tally) \<Rightarrow> (nat \<times> nat) list \<times> tally \<Rightarrow>
    (nat \<times> nat) list \<times> tally" where
  "in_stage stage f = (\<lambda>(seen, ta). (seen, if stage = None then ta else f ta))"

definition take_in :: "externals \<Rightarrow> sender \<Rightarrow> nat option \<Rightarrow> rat \<Rightarrow> message option \<Rightarrow>
    (nat \<times> nat) list \<times> tally \<Rightarrow> bool \<times> (nat \<times> nat) list \<times> tally" where
  "take_in X w stage t m st =
     (case m of
        None \<Rightarrow> (False, in_stage stage (\<lambda>ta. ta\<lparr>ta_disconnects := ta_disconnects ta + 1\<rparr>) st)
      | Some (Close f) \<Rightarrow> (False, in_stage stage (\<lambda>ta. ta\<lparr>ta_disconnects := ta_disconnects ta + 1\<rparr>) st)
      | Some (Text body) \<Rightarrow>
          (case x_from_str X body of
             None \<Rightarrow> (False, st)
           | Some v \<Rightarrow>
               if idx v ''method'' = JStr ''error'' \<or> idx v ''method'' = JStr ''wrongPassword''
               then (False, in_stage stage (\<lambda>ta. ta\<lparr>ta_errors := ta_errors ta + 1\<rparr>) st)
               else
                 let d = (if idx v ''method'' = JStr ''newGameState'' then idx v ''data''
                          else idx (idx v ''data'') ''msg'')
                 in (case stage of
                       None \<Rightarrow> (True, st)
                     | Some epoch \<Rightarrow>
                         if \<not> (idx d ''lt'' = JStr (se_run w) \<and> is_nat (idx d ''e'') epoch) then (True, st)
                         else (case (as_u64 (idx d ''s''), as_u64 (idx d ''q''), as_f64 (idx d ''t'')) of
                             (Some who, Some sq, Some sent) \<Rightarrow>
                               (True, counted (f64 (t - sent)) (length body) who sq st)
                           | _ \<Rightarrow> (False, st))))
      | Some (Binary b) \<Rightarrow> (False, st)
      | Some _ \<Rightarrow> (True, st))"

section \<open>The clients of a room\<close>

text \<open>The first client of every room of a batch, and the clients of a room that has come up.\<close>

definition batch_indices :: "nat \<Rightarrow> nat \<Rightarrow> nat \<Rightarrow> nat list" where
  "batch_indices batch rsize count = map (\<lambda>k. count + k * rsize) [0..<batch]"

definition room_senders :: "plan \<Rightarrow> string \<Rightarrow> nat \<Rightarrow> string list \<Rightarrow> sender list" where
  "room_senders p run index ids =
     map (\<lambda>i. \<lparr>se_index = index + i, se_owner = ids ! 0, se_is_owner = (i = 0), se_size = pl_size p,
          se_padding = (if i = 0 then replicate (pl_state p - 100) (CHR ''x'')
                        else replicate (pl_input p - 100) (CHR ''y'')),
          se_run = run\<rparr>) [0..<length ids]"

section \<open>The verdict of a stage\<close>

definition drained :: "tally \<Rightarrow> bool" where
  "drained ta \<longleftrightarrow> ta_received ta \<ge> ta_expected ta"

definition delivery_percent :: "tally \<Rightarrow> rat" where
  "delivery_percent ta =
     f64 (f64 (100 * of_nat (f64_of_nat (ta_received ta))) / of_nat (f64_of_nat (max (ta_expected ta) 1)))"

definition offered_percent :: "nat \<Rightarrow> nat \<Rightarrow> rat \<Rightarrow> tally \<Rightarrow> rat" where
  "offered_percent count hz elapsed ta =
     f64 (f64 (100 * of_nat (f64_of_nat (ta_sent ta))) /
       f64 (f64 (of_nat (f64_of_nat count) * of_nat (f64_of_nat hz)) * elapsed))"

definition stage_fails :: "json \<Rightarrow> bool \<Rightarrow> nat \<Rightarrow> nat \<Rightarrow> rat \<Rightarrow> tally \<Rightarrow> bool" where
  "stage_fails cfg fatal count hz elapsed ta \<longleftrightarrow>
     fatal \<or> delivery_percent ta < f64 (999 / 10) \<or> offered_percent count hz elapsed ta < 95 \<or>
     (case percentile (f64 (95 / 100)) ta of
        None \<Rightarrow> True
      | Some i \<Rightarrow> of_nat i > (case as_f64 (idx cfg ''stopP95Ms'') of None \<Rightarrow> 500 | Some q \<Rightarrow> q)) \<or>
     ta_duplicates ta \<noteq> 0"

section \<open>A plan that is read\<close>

lemma numeric_range: "numeric cfg k d lo hi = Some n \<Longrightarrow> lo \<le> n \<and> n \<le> hi"
  by (auto simp: numeric_def split: option.splits if_split_asm)

lemma rising_sorted: "rising ns \<Longrightarrow> sorted_wrt (<) ns"
proof (induction ns rule: rising.induct)
  case (1 a b ns)
  then have "a < b" "sorted_wrt (<) (b # ns)" by simp_all
  then show ?case by auto
qed auto

lemma read_plan_ok:
  assumes "read_plan cfg = Some p"
  shows "2 \<le> pl_size p \<and> pl_size p \<le> 64 \<and> 1 \<le> pl_hz p \<and> 100 \<le> pl_state p \<and> 100 \<le> pl_input p \<and>
    1 \<le> pl_ramp p \<and> pl_retries p \<le> 100 \<and> pl_levels p \<noteq> [] \<and> sorted_wrt (<) (pl_levels p) \<and>
    (\<forall>n \<in> set (pl_levels p). 0 < n \<and> n \<le> 100000 \<and> pl_size p dvd n)"
  using assms
  by (auto simp: read_plan_def levels_ok_def bind_eq_Some_conv list_all_iff dvd_eq_mod_eq_0
      dest!: numeric_range split: if_split_asm intro: rising_sorted)

section \<open>The ramp ends\<close>

lemma ramp_reaches:
  assumes "0 < rsize" "0 < ramp_rooms" "rsize dvd level" "rsize dvd count" "count \<le> level"
  shows "ramp ramp_rooms rsize level count = Some level"
  using assms(4,5)
proof (induction "level - count" arbitrary: count rule: less_induct)
  case less
  show ?case
  proof (cases "count < level")
    case False
    with less.prems show ?thesis by (subst ramp.simps) simp
  next
    case True
    let ?n = "min ramp_rooms ((level - count) div rsize)"
    have d: "rsize dvd level - count" using assms(3) less.prems(1) by simp
    then have "(level - count) div rsize * rsize = level - count" by simp
    then have "0 < (level - count) div rsize" using True by (intro gr0I) auto
    then have n: "0 < ?n * rsize" using assms(1,2) by simp
    have "?n * rsize \<le> (level - count) div rsize * rsize" by (rule mult_le_mono1) simp
    then have le: "count + ?n * rsize \<le> level" using d True by simp
    have "level - (count + ?n * rsize) < level - count" using n True by linarith
    from less.hyps [OF this _ le] less.prems(1)
    have "ramp ramp_rooms rsize level (count + ?n * rsize) = Some level" by simp
    with True show ?thesis by (subst ramp.simps) simp
  qed
qed

lemma ramps_reach:
  assumes "0 < rsize" "0 < ramp_rooms" "sorted_wrt (<) (count # levels)" "\<forall>n \<in> set (count # levels). rsize dvd n"
  shows "ramps ramp_rooms rsize levels count = Some (last (count # levels))"
  using assms(3,4)
proof (induction levels arbitrary: count)
  case (Cons l ls)
  then have "ramp ramp_rooms rsize l count = Some l" by (intro ramp_reaches [OF assms(1,2)]) auto
  with Cons show ?case by simp
qed simp

text \<open>Every level of a plan is reached, and no client is brought up beyond the last.\<close>

lemma plan_reaches:
  assumes "read_plan cfg = Some p"
  shows "ramps (pl_ramp p) (pl_size p) (pl_levels p) 0 = Some (last (pl_levels p))"
proof -
  note p = read_plan_ok [OF assms]
  have "ramps (pl_ramp p) (pl_size p) (pl_levels p) 0 = Some (last (0 # pl_levels p))"
    by (rule ramps_reach) (use p in auto)
  with p show ?thesis by simp
qed

text \<open>The rooms of a batch, full, give every number from the count on to exactly one client.\<close>

lemma batch_numbers:
  assumes "\<forall>i. length (ids i) = pl_size p"
  shows "concat (map (\<lambda>i. map se_index (room_senders p run i (ids i))) (batch_indices batch (pl_size p) count)) =
    [count..<count + batch * pl_size p]"
proof (induction batch)
  case (Suc batch)
  have room: "map se_index (room_senders p run i (ids i)) = [i..<i + pl_size p]" for i
    using assms map_add_upt [of i "pl_size p"] by (simp add: room_senders_def comp_def add.commute)
  have "[count..<count + Suc batch * pl_size p] =
      [count..<count + batch * pl_size p] @ [count + batch * pl_size p..<count + batch * pl_size p + pl_size p]"
    by (subst upt_add_eq_append [symmetric]) (simp_all add: algebra_simps)
  with Suc show ?case by (simp add: batch_indices_def room)
qed (simp add: batch_indices_def)

lemma attempts_first:
  "k \<le> retry_limit \<Longrightarrow> attempts up retry_limit k =
     (if \<exists>j \<ge> k. j \<le> retry_limit \<and> up j then Some (LEAST j. k \<le> j \<and> up j) else None)"
proof (induction up retry_limit k rule: attempts.induct)
  case (1 up retry_limit k)
  show ?case
  proof (cases "up k")
    case True
    then have "(LEAST j. k \<le> j \<and> up j) = k" by (intro Least_equality) auto
    with True 1 show ?thesis by (subst attempts.simps) auto
  next
    case False
    have e: "(\<lambda>j. k \<le> j \<and> up j) = (\<lambda>j. Suc k \<le> j \<and> up j)"
      using False by (auto simp: fun_eq_iff Suc_le_eq order_le_less)
    show ?thesis
    proof (cases "k \<ge> retry_limit")
      case True
      with False 1(2) show ?thesis by (subst attempts.simps) (auto simp: le_antisym)
    next
      case below: False
      have x: "(\<exists>j \<ge> k. j \<le> retry_limit \<and> up j) = (\<exists>j \<ge> Suc k. j \<le> retry_limit \<and> up j)"
        using fun_cong [OF e] by blast
      show ?thesis using 1(1) [OF False below] below False unfolding e x by (subst attempts.simps) simp
    qed
  qed
qed

section \<open>The statistics add up\<close>

definition tally_ok :: "tally \<Rightarrow> bool" where
  "tally_ok ta \<longleftrightarrow> length (ta_latencies ta) = BUCKETS \<and> sum_list (ta_latencies ta) = ta_received ta \<and>
     ta_duplicates ta \<le> ta_received ta"

lemma tally_default_ok: "tally_ok tally_default"
  by (simp add: tally_ok_def tally_default_def)

lemma sum_list_bump:
  "i < length ns \<Longrightarrow> sum_list (ns[i := Suc (ns ! i)]) = Suc (sum_list ns)" for ns :: "nat list"
  by (induction ns arbitrary: i) (auto split: nat.splits)

lemma counted_ok:
  assumes "counted ms bytes who sq (seen, ta) = (seen', ta')" "tally_ok ta"
  shows "tally_ok ta'" "ta_received ta' = ta_received ta + 1"
    "map_of seen' = (map_of seen)(who \<mapsto> sq)"
proof -
  have i: "min (nat \<lfloor>max ms 0\<rfloor>) (BUCKETS - 1) < BUCKETS" by (simp add: BUCKETS_def)
  show "tally_ok ta'" "ta_received ta' = ta_received ta + 1"
    using assms i by (auto simp: counted_def latency_def Let_def tally_ok_def sum_list_bump)
  show "map_of seen' = (map_of seen)(who \<mapsto> sq)"
    using assms(1) by (auto simp: counted_def Let_def update_conv')
qed

lemma take_in_ok:
  assumes "take_in X w stage t m (seen, ta) = (go, seen', ta')" "tally_ok ta"
  shows "tally_ok ta'"
proof -
  have 1: "tally_ok (ta\<lparr>ta_disconnects := n\<rparr>)" "tally_ok (ta\<lparr>ta_errors := n\<rparr>)" for n
    using assms(2) by (simp_all add: tally_ok_def)
  have 2: "tally_ok (snd (counted ms bytes who sq (seen, ta)))" for ms bytes who sq
    using counted_ok(1) [OF _ assms(2)] by (metis prod.collapse)
  show ?thesis
    using assms(1) 1 2 assms(2)
    by (auto simp: take_in_def in_stage_def Let_def
        split: option.splits message.splits if_split_asm) (metis snd_conv)+
qed

lemma tick_sends:
  assumes "tick X w epoch sq t missed (q, ta) = (ok, q', ta')"
  shows "ok \<Longrightarrow> ta_sent ta' = ta_sent ta + 1" "\<not> ok \<Longrightarrow> ta' = ta" "tally_ok ta \<Longrightarrow> tally_ok ta'"
    "client_run q \<Longrightarrow> client_run q'"
proof -
  let ?m = "Text (x_display X (client_request w (test_payload w epoch sq t)))"
  show "ok \<Longrightarrow> ta_sent ta' = ta_sent ta + 1" "\<not> ok \<Longrightarrow> ta' = ta" "tally_ok ta \<Longrightarrow> tally_ok ta'"
    using assms by (auto simp: tick_def Let_def tally_ok_def split: prod.splits if_split_asm)
  have "q' = snd (queue_frame ?m q)"
    using assms by (auto simp: tick_def Let_def split: prod.splits if_split_asm)
  then show "client_run q \<Longrightarrow> client_run q'" by (simp add: client_run.queued)
qed

section \<open>Percentiles\<close>

lemma bucket_of_least:
  "bucket_of target count i ns = Some k \<longleftrightarrow>
     (\<exists>j. k = i + j \<and> j < length ns \<and> target \<le> count + sum_list (take (Suc j) ns) \<and>
        (\<forall>l < j. count + sum_list (take (Suc l) ns) < target))"
proof (induction target count i ns rule: bucket_of.induct)
  case (2 target count i n ns)
  show ?case
  proof (cases "count + n \<ge> target")
    case True
    then show ?thesis by (auto simp: gr0_conv_Suc) (metis add_0_right leD not_gr_zero take0 sum_list.Nil)+
  next
    case False
    have "(\<exists>j. k = Suc i + j \<and> P (Suc j)) = (\<exists>j. k = i + j \<and> 0 < j \<and> P j)" for P
      by (auto simp: gr0_conv_Suc)
    with 2 False show ?thesis
      by (auto simp: add.assoc less_Suc_eq_0_disj gr0_conv_Suc)
  qed
qed auto

section \<open>The error of a double\<close>

lemma pow2_pos [simp]: "0 < pow2 e"
  by (simp add: pow2_def)

lemma pow2_nonzero [simp]: "pow2 e \<noteq> 0"
  by (simp add: pow2_def)

lemma pow2_add: "pow2 (a + b) = pow2 a * pow2 b"
  by (simp add: pow2_def power_int_add)

lemma pow2_nat: "pow2 (int n) = 2 ^ n"
  by (simp add: pow2_def)

lemma round_rat_error: "\<bar>of_int (round_rat m) - m\<bar> \<le> 1 / 2"
proof -
  have f: "of_int \<lfloor>m\<rfloor> \<le> m" "m < of_int \<lfloor>m\<rfloor> + 1" by linarith+
  show ?thesis
  proof (cases "m - of_int \<lfloor>m\<rfloor> > 1 / 2 \<or> (m - of_int \<lfloor>m\<rfloor> = 1 / 2 \<and> odd \<lfloor>m\<rfloor>)")
    case True
    then have "of_int (round_rat m) = of_int \<lfloor>m\<rfloor> + (1 :: rat)" "m - of_int \<lfloor>m\<rfloor> \<ge> 1 / 2"
      by (auto simp: round_rat_def Let_def)
    with f show ?thesis by linarith
  next
    case False
    then have "round_rat m = \<lfloor>m\<rfloor>" by (auto simp: round_rat_def Let_def)
    moreover have "m - of_int \<lfloor>m\<rfloor> \<le> 1 / 2" using False by linarith
    ultimately show ?thesis using f by linarith
  qed
qed

lemma width_bounds:
  assumes "0 < n"
  shows "pow2 (int (bit_width n) - 1) \<le> of_nat n" "of_nat n < pow2 (int (bit_width n))"
proof -
  from bit_width_bounds [OF assms] obtain k where k: "bit_width n = Suc k" "2 ^ k \<le> n" "n < 2 ^ Suc k"
    by (cases "bit_width n") auto
  have "(of_nat (2 ^ k) :: rat) \<le> of_nat n" using k(2) by (simp only: of_nat_le_iff)
  moreover have "(of_nat n :: rat) < of_nat (2 ^ Suc k)" using k(3) by (simp only: of_nat_less_iff)
  ultimately show "pow2 (int (bit_width n) - 1) \<le> of_nat n" "of_nat n < pow2 (int (bit_width n))"
    using pow2_nat [of k] pow2_nat [of "Suc k"] by (simp_all add: k(1))
qed

lemma exponent_low:
  assumes "0 < q"
  shows "2 ^ 52 \<le> q / pow2 (exponent q)"
proof -
  obtain n d where nd: "quotient_of q = (n, d)" by fastforce
  have q: "q = of_int n / of_int d" and d: "0 < d"
    using quotient_of_div [OF nd] quotient_of_denom_pos [OF nd] by simp_all
  with assms have n: "0 < n" by (simp add: zero_less_divide_iff)
  let ?a = "int (bit_width (nat n))" and ?b = "int (bit_width (nat d))"
  have nn: "pow2 (?a - 1) \<le> of_int n"
    using width_bounds(1) [of "nat n"] n by simp
  have dd: "of_int d < pow2 ?b"
    using width_bounds(2) [of "nat d"] d by simp
  have "pow2 (?a - 1) / pow2 ?b \<le> q"
    unfolding q using nn dd d n by (intro frac_le) auto
  moreover have "pow2 (?a - 1) = pow2 ?b * pow2 (?a - ?b - 53) * 2 ^ 52"
    using pow2_add [of "?b + (?a - ?b - 53)" 52] pow2_add [of ?b "?a - ?b - 53"] pow2_nat [of 52] by simp
  ultimately have low: "2 ^ 52 * pow2 (?a - ?b - 53) \<le> q"
    by (simp add: mult.commute mult.left_commute)
  have step: "pow2 (?a - ?b - 52) = 2 * pow2 (?a - ?b - 53)"
    using pow2_add [of "?a - ?b - 53" 1] pow2_nat [of 1] by simp
  show ?thesis
    using low by (auto simp: exponent_def nd Let_def step pos_le_divide_eq pos_divide_less_eq not_less)
qed

lemma f64_error:
  assumes "0 \<le> q"
  shows "\<bar>f64 q - q\<bar> \<le> q / 2 ^ 53"
proof (cases "q = 0")
  case False
  with assms have q: "0 < q" by simp
  let ?s = "pow2 (exponent q)"
  have "f64 q - q = (of_int (round_rat (q / ?s)) - q / ?s) * ?s"
    using q by (simp add: f64_def f64_pos_def Let_def left_diff_distrib less_imp_neq [THEN not_sym])
  then have "\<bar>f64 q - q\<bar> = \<bar>of_int (round_rat (q / ?s)) - q / ?s\<bar> * ?s"
    by (simp add: abs_mult less_imp_le)
  also have "\<dots> \<le> 1 / 2 * ?s"
    by (rule mult_right_mono [OF round_rat_error]) (simp add: less_imp_le)
  also have "\<dots> \<le> q / 2 ^ 53"
    using exponent_low [OF q] by (simp add: pos_le_divide_eq)
  finally show ?thesis .
qed (simp add: f64_def)

section \<open>The percentile of a stage\<close>

lemma share_le:
  assumes "0 \<le> p" "p \<le> 99 / 100" "n < 2 ^ 53"
  shows "share n p \<le> n"
proof -
  define q where "q = of_nat n * p"
  have "q \<le> of_nat n * (99 / 100)" unfolding q_def using assms(2) by (intro mult_left_mono) auto
  moreover have "\<bar>f64 q - q\<bar> \<le> q / 2 ^ 53" using assms(1) by (intro f64_error) (simp add: q_def)
  then have "f64 q - q \<le> q / 2 ^ 53" by (rule order_trans [OF abs_ge_self])
  then have "f64 q \<le> q + q / 9007199254740992" by simp
  moreover have "0 \<le> (of_nat n :: rat)" by simp
  ultimately have "f64 q \<le> of_nat n" by linarith
  then have "\<lceil>f64 q\<rceil> \<le> int n" by (simp add: ceiling_le_iff)
  then show ?thesis using assms(3) by (simp add: share_def f64_of_nat_def q_def)
qed

text \<open>
  The percentile of a stage that received something is there: it is the first bucket up to which at
  least the share asked for was received.
\<close>

lemma percentile_least:
  assumes "tally_ok ta" "0 < ta_received ta" "ta_received ta < 2 ^ 53" "0 \<le> p" "p \<le> 99 / 100"
  obtains i where "percentile p ta = Some i" "i < BUCKETS"
    "share (ta_received ta) p \<le> sum_list (take (Suc i) (ta_latencies ta))"
    "\<forall>j < i. sum_list (take (Suc j) (ta_latencies ta)) < share (ta_received ta) p"
proof -
  let ?ns = "ta_latencies ta" and ?t = "share (ta_received ta) p"
  let ?P = "\<lambda>i. ?t \<le> sum_list (take (Suc i) ?ns)"
  have "?P (BUCKETS - 1)"
    using share_le [OF assms(4,5,3)] assms(1) by (simp add: tally_ok_def BUCKETS_def)
  then have P: "?P (LEAST i. ?P i)" and le: "(LEAST i. ?P i) \<le> BUCKETS - 1"
    by (rule LeastI, rule Least_le)
  have less: "(LEAST i. ?P i) < BUCKETS" using le by (simp add: BUCKETS_def)
  have min: "\<forall>j < (LEAST i. ?P i). sum_list (take (Suc j) ?ns) < ?t"
    using not_less_Least [of _ ?P] by (auto simp: not_le)
  have "percentile p ta = Some (LEAST i. ?P i)"
    using P less min assms(1,2) by (simp add: percentile_def bucket_of_least tally_ok_def)
  from that [OF this less P min] show thesis .
qed

end
