(* ===== verification/Config.thy ===== *)
theory Config
  imports Udp
begin

text \<open>
  Loading the settings (\<open>rust/config.rs\<close>): defaults, environment, arguments, and the checks that
  make a configuration acceptable. The environment is a parameter.
\<close>

section \<open>Text\<close>

text \<open>\<open>char::is_whitespace\<close>, and \<open>\s\<close> of a regular expression.\<close>

definition white_space :: "nat \<Rightarrow> bool" where
  "white_space c \<longleftrightarrow> (9 \<le> c \<and> c \<le> 13) \<or> c = 32 \<or> c = 133 \<or> c = 160 \<or> c = 5760 \<or>
     (8192 \<le> c \<and> c \<le> 8202) \<or> c = 8232 \<or> c = 8233 \<or> c = 8239 \<or> c = 8287 \<or> c = 12288"

definition text_of :: "nat list \<Rightarrow> string" where
  "text_of cs = map char_of (concat (map utf8_encode cs))"

definition trimmed :: "string \<Rightarrow> string" where
  "trimmed s = text_of (trim_matches white_space (chars s))"

definition digits :: "string \<Rightarrow> bool" where
  "digits s \<longleftrightarrow> s \<noteq> [] \<and> list_all is_digit s"

definition digits_value :: "string \<Rightarrow> nat" where
  "digits_value s = fold (\<lambda>c n. n * 10 + (of_char c - 48)) s 0"

text \<open>\<open>str::parse\<close> of a text of digits to an unsigned integer of the given width.\<close>

definition parse_uint :: "nat \<Rightarrow> string \<Rightarrow> nat option" where
  "parse_uint width s =
     (if digits s \<and> digits_value s < 2 ^ width then Some (digits_value s) else None)"

definition ascii_upper :: "char \<Rightarrow> char" where
  "ascii_upper c = (if is_lower c then char_of (of_char c - 32 :: nat) else c)"

text \<open>The names of the settings are ASCII, so upper-casing a character is upper-casing a byte.\<close>

definition env_key :: "string \<Rightarrow> string" where
  "env_key k = concat (map (\<lambda>c. if is_upper c then [CHR ''_'', c] else [ascii_upper c]) k)"

section \<open>Defaults and limits\<close>

text \<open>What \<open>std::env::var\<close> says of a name.\<close>

datatype setting = Unset | Garbled | Given string

type_synonym env = "string \<Rightarrow> setting"

definition defaults :: "(string \<times> json) list" where
  "defaults =
     [(''host'', JStr ''127.0.0.1''), (''port'', jnat 8080), (''devMode'', JBool False),
      (''sendDelayMs'', jnat 0), (''udpEnabled'', JBool False), (''udpHost'', JStr ''127.0.0.1''),
      (''udpPort'', jnat 8080), (''udpMaxDatagramBytes'', jnat 1200),
      (''udpIncomingPacketsPerSecond'', jnat 120), (''udpOutgoingPacketsPerSecond'', jnat 120),
      (''udpGlobalPacketsPerSecond'', jnat 4096), (''udpReceiveBufferBytes'', jnat 1048576),
      (''udpSendBufferBytes'', jnat 1048576), (''udpEndpointTtlMs'', jnat 60000),
      (''udpChallengeTtlMs'', jnat 5000), (''udpSendTimeoutMs'', jnat 2),
      (''udpReceiveErrorBackoffMs'', jnat 100), (''maxPayloadBytes'', jnat 65536),
      (''maxBufferedBytes'', jnat 262144), (''maxConnections'', jnat 256),
      (''maxConnectionsPerIp'', jnat 32), (''maxAccounts'', jnat 1024), (''maxRooms'', jnat 128),
      (''maxRoomPlayers'', jnat 16), (''maxMessagesPerSecond'', jnat 120),
      (''maxConnectionsPerMinute'', jnat 60), (''accountTtlMs'', jnat 300000),
      (''heartbeatIntervalMs'', jnat 10000), (''idleTimeoutMs'', jnat 50000),
      (''authTimeoutMs'', jnat 5000), (''maintenanceIntervalMs'', jnat 1000),
      (''shutdownTimeoutMs'', jnat 1000),
      (''allowedOrigins'', jstrs [''http://127.0.0.1:8081'', ''http://localhost:8081'']),
      (''allowNoOrigin'', JBool True), (''verboseLogs'', JBool False),
      (''logDirectory'', JStr ''./logs''), (''logMaxBytes'', jnat 1073741824),
      (''logFileMaxBytes'', jnat 16777216), (''sessionDirectory'', JStr ''./sessions''),
      (''sessionMaxBytes'', jnat 1073741824), (''maxSessionBytes'', jnat 16777216)]"

definition setting_max :: "string \<Rightarrow> nat" where
  "setting_max k =
     (if k = ''port'' \<or> k = ''udpPort'' then 65535
      else if k \<in> {''logMaxBytes'', ''logFileMaxBytes'', ''sessionMaxBytes''} then 9007199254740991
      else 2147483647)"

definition may_be_zero :: "string \<Rightarrow> bool" where
  "may_be_zero k \<longleftrightarrow> k = ''port'' \<or> k = ''udpPort'' \<or> k = ''sendDelayMs''"

section \<open>Reading\<close>

text \<open>The value of a variable, read at the type of the setting's default.\<close>

definition read_setting :: "string \<Rightarrow> json \<Rightarrow> string \<Rightarrow> json option" where
  "read_setting k v s =
     (if is_boolean v then
        (if s = ''true'' then Some (JBool True) else if s = ''false'' then Some (JBool False) else None)
      else if is_number v then
        (case parse_uint 64 s of
           None \<Rightarrow> None
         | Some n \<Rightarrow> if n > setting_max k \<or> (n = 0 \<and> \<not> may_be_zero k) then None else Some (jnat n))
      else if as_array v \<noteq> None then
        Some (jstrs (filter (\<lambda>t. t \<noteq> []) (map trimmed (split_on (CHR '','') s))))
      else Some (JStr s))"

fun settings :: "env \<Rightarrow> (string \<times> json) list \<Rightarrow> (string \<times> json) list option" where
  "settings env [] = Some []"
| "settings env ((k, v) # kvs) =
     (case (case env (env_key k) of Given s \<Rightarrow> read_setting k v s | _ \<Rightarrow> Some v) of
        None \<Rightarrow> None
      | Some w \<Rightarrow> (case settings env kvs of None \<Rightarrow> None | Some m \<Rightarrow> Some ((k, w) # m)))"

text \<open>Installations that only set the shared message quota keep it for datagrams.\<close>

definition shared_quota :: "env \<Rightarrow> string \<times> string \<Rightarrow> config \<Rightarrow> config" where
  "shared_quota env = (\<lambda>(k, name) v.
     if env name = Unset then setk k (idx v ''maxMessagesPerSecond'') v else v)"

definition quota_names :: "(string \<times> string) list" where
  "quota_names = [(''udpIncomingPacketsPerSecond'', ''UDP_INCOMING_PACKETS_PER_SECOND''),
     (''udpOutgoingPacketsPerSecond'', ''UDP_OUTGOING_PACKETS_PER_SECOND'')]"

definition strip_prefix :: "string \<Rightarrow> string \<Rightarrow> string option" where
  "strip_prefix p s = (if take (length p) s = p then Some (drop (length p) s) else None)"

fun arguments :: "string list \<Rightarrow> config \<Rightarrow> config option" where
  "arguments [] v = Some v"
| "arguments (arg # args) v =
     (let v1 = (if arg = ''dev'' then setk ''devMode'' (JBool True) v else v) in
      case strip_prefix ''delay='' arg of
        None \<Rightarrow> arguments args v1
      | Some s \<Rightarrow>
          (case parse_uint 32 s of
             None \<Rightarrow> None
           | Some n \<Rightarrow> if n > 2147483647 then None else arguments args (setk ''sendDelayMs'' (jnat n) v1)))"

section \<open>Checks\<close>

text \<open>\<open>^https?://[^\s/?#]+$\<close>\<close>

definition origin_ok :: "string \<Rightarrow> bool" where
  "origin_ok s =
     (let host = (\<lambda>h. case h of None \<Rightarrow> False
         | Some t \<Rightarrow> t \<noteq> [] \<and> list_all (\<lambda>c. \<not> white_space c \<and> c \<notin> {47, 63, 35}) (chars t))
      in host (strip_prefix ''http://'' s) \<or> host (strip_prefix ''https://'' s))"

definition blank :: "config \<Rightarrow> string \<Rightarrow> bool" where
  "blank v k \<longleftrightarrow> trimmed (cfg_s v k) = []"

definition key_text :: "nat \<Rightarrow> string \<Rightarrow> bool" where
  "key_text low s \<longleftrightarrow> low \<le> length s \<and> length s \<le> 128 \<and>
     list_all (\<lambda>c. is_alnum c \<or> c \<in> set ''_-'') s"

definition given_or_empty :: "env \<Rightarrow> string \<Rightarrow> string" where
  "given_or_empty env name = (case env name of Given s \<Rightarrow> s | _ \<Rightarrow> '''')"

definition config_ok :: "config \<Rightarrow> bool" where
  "config_ok v \<longleftrightarrow> \<not> blank v ''host'' \<and> \<not> blank v ''udpHost'' \<and> \<not> blank v ''logDirectory'' \<and>
     list_all (\<lambda>a. case as_str a of None \<Rightarrow> False | Some s \<Rightarrow> origin_ok s)
       (case as_array (idx v ''allowedOrigins'') of Some a \<Rightarrow> a | None \<Rightarrow> [])"

definition load_config :: "env \<Rightarrow> string list \<Rightarrow> config option" where
  "load_config env args =
     (case settings env defaults of
        None \<Rightarrow> None
      | Some m \<Rightarrow>
          let v = fold (shared_quota env) quota_names (JObj m);
              size_limit = cfg_n v ''udpMaxDatagramBytes''
          in if \<not> (85 \<le> size_limit \<and> size_limit \<le> 65507) then None
             else
               (case arguments args v of
                  None \<Rightarrow> None
                | Some v1 \<Rightarrow>
                    if \<not> config_ok v1 then None
                    else
                      let key = given_or_empty env ''MODERATION_SIGNING_KEY''
                      in if key \<noteq> [] \<and> \<not> key_text 32 key then None
                         else Some (setk ''moderationSigningKey'' (JStr key) v1)))"

section \<open>What an accepted configuration is\<close>

definition kind_ok :: "string \<Rightarrow> json \<Rightarrow> json \<Rightarrow> bool" where
  "kind_ok k d w \<longleftrightarrow>
     (case d of
        JBool b \<Rightarrow> is_boolean w
      | JNum n \<Rightarrow> (\<exists>n. w = jnat n \<and> n \<le> setting_max k \<and> (n = 0 \<longrightarrow> may_be_zero k))
      | JArr a \<Rightarrow> (\<exists>xs. w = jstrs xs)
      | _ \<Rightarrow> is_string w)"

text \<open>Every setting is there and has the type of its default; numbers are within their limits.\<close>

definition config_typed :: "config \<Rightarrow> bool" where
  "config_typed v \<longleftrightarrow> is_object v \<and>
     (\<forall>(k, d) \<in> set defaults. \<exists>w. getk v k = Some w \<and> kind_ok k d w)"

lemma kind_ok_simps [simp]:
  "kind_ok k (JBool b) w \<longleftrightarrow> is_boolean w"
  "kind_ok k (JNum n) w \<longleftrightarrow> (\<exists>n. w = jnat n \<and> n \<le> setting_max k \<and> (n = 0 \<longrightarrow> may_be_zero k))"
  "kind_ok k (JStr s) w \<longleftrightarrow> is_string w"
  "kind_ok k (jstrs ys) w \<longleftrightarrow> (\<exists>xs. w = jstrs xs)"
  "kind_ok k (JArr a) w \<longleftrightarrow> (\<exists>xs. w = jstrs xs)"
  by (simp_all add: kind_ok_def jstrs_def)

lemma defaults_ok: "list_all (\<lambda>(k, d). kind_ok k d d) defaults"
  by (auto simp: defaults_def is_boolean_def is_string_def setting_max_def may_be_zero_def)

lemma defaults_cases:
  "list_all (\<lambda>(k, d). (\<exists>b. d = JBool b) \<or> is_number d \<or> (\<exists>a. d = JArr a) \<or> (\<exists>s. d = JStr s)) defaults"
  by (auto simp: defaults_def is_number_def jstrs_def)

lemma read_setting_kind:
  assumes "read_setting k d s = Some w" "(k, d) \<in> set defaults"
  shows "kind_ok k d w"
proof -
  have "(\<exists>b. d = JBool b) \<or> is_number d \<or> (\<exists>a. d = JArr a) \<or> (\<exists>s. d = JStr s)"
    using defaults_cases assms(2) by (auto simp: list_all_iff)
  with assms(1) show ?thesis
    by (cases d) (auto simp: read_setting_def kind_ok_def is_boolean_def is_number_def is_string_def
        split: if_splits option.splits)
qed

definition setting_from :: "env \<Rightarrow> string \<Rightarrow> json \<Rightarrow> json \<Rightarrow> bool" where
  "setting_from env k d w \<longleftrightarrow>
     (case env (env_key k) of Given s \<Rightarrow> read_setting k d s = Some w | _ \<Rightarrow> w = d)"

lemma settings_ok:
  assumes "settings env kvs = Some m" "set kvs \<subseteq> set defaults" "distinct (map fst kvs)"
  shows "map fst m = map fst kvs"
    "(k, d) \<in> set kvs \<Longrightarrow> \<exists>w. map_of m k = Some w \<and> kind_ok k d w \<and>
       setting_from env k d w"
proof -
  have "map fst m = map fst kvs \<and> (\<forall>(k, d) \<in> set kvs. \<exists>w. map_of m k = Some w \<and> kind_ok k d w \<and>
       setting_from env k d w)"
    using assms
  proof (induction kvs arbitrary: m)
    case (Cons e kvs)
    obtain k d where e: "e = (k, d)" by (cases e)
    obtain w m1 where w: "(case env (env_key k) of Given s \<Rightarrow> read_setting k d s | _ \<Rightarrow> Some d) = Some w"
      and m1: "settings env kvs = Some m1" "m = (k, w) # m1"
      using Cons.prems(1) by (auto simp: e split: option.splits)
    have kd: "(k, d) \<in> set defaults" using Cons.prems(2) e by simp
    then have "kind_ok k d d" using defaults_ok by (auto simp: list_all_iff)
    with w kd have 1: "kind_ok k d w" by (auto split: setting.splits intro: read_setting_kind)
    have 2: "setting_from env k d w"
      using w by (auto simp: setting_from_def split: setting.splits)
    have IH: "map fst m1 = map fst kvs" "\<forall>(k, d) \<in> set kvs. \<exists>w. map_of m1 k = Some w \<and> kind_ok k d w \<and>
        setting_from env k d w"
      using Cons.IH [OF m1(1)] Cons.prems(2,3) by auto
    have "k \<notin> fst ` set kvs" using Cons.prems(3) e by simp
    then have "\<forall>(k', d') \<in> set kvs. map_of m k' = map_of m1 k'" using m1(2) by force
    with 1 2 IH m1(2) e show ?case by (auto simp: split_beta)
  qed simp
  then show "map fst m = map fst kvs"
    "(k, d) \<in> set kvs \<Longrightarrow> \<exists>w. map_of m k = Some w \<and> kind_ok k d w \<and>
       setting_from env k d w"
    by auto
qed

lemma distinct_defaults: "distinct (map fst defaults)"
  by code_simp

text \<open>No two settings read the same variable.\<close>

lemma distinct_env_keys: "distinct (map env_key (map fst defaults))"
  by code_simp

lemma config_typed_settings:
  assumes "settings env defaults = Some m"
  shows "config_typed (JObj m)"
  using settings_ok(2) [OF assms subset_refl distinct_defaults]
  by (fastforce simp: config_typed_def is_object_def)

lemma getk_setk: "is_object v \<Longrightarrow> getk (setk k w v) k' = (if k' = k then Some w else getk v k')"
  by (cases v) (auto simp: is_object_def update_conv)

lemma setk_keeps_object [simp]: "is_object v \<Longrightarrow> is_object (setk k w v)"
  by (cases v) (auto simp: is_object_def)

lemma config_typed_setk:
  assumes "config_typed v" "\<And>d. (k, d) \<in> set defaults \<Longrightarrow> kind_ok k d w"
  shows "config_typed (setk k w v)"
  using assms by (fastforce simp: config_typed_def getk_setk)

lemma config_typed_number:
  assumes "config_typed v" "(k, JNum d) \<in> set defaults"
  shows "idx v k = jnat (cfg_n v k)" "cfg_n v k \<le> setting_max k"
    "cfg_n v k = 0 \<Longrightarrow> may_be_zero k"
  using assms by (auto simp: config_typed_def kind_ok_def cfg_n_def idx_def dest!: bspec)

lemma shared_quota_typed:
  assumes "config_typed v" "e \<in> set quota_names"
  shows "config_typed (shared_quota env e v)"
proof -
  have "(''maxMessagesPerSecond'', jnat 120) \<in> set defaults" by (simp add: defaults_def)
  from config_typed_number [OF assms(1) this]
  have "idx v ''maxMessagesPerSecond'' = jnat (cfg_n v ''maxMessagesPerSecond'')"
    "cfg_n v ''maxMessagesPerSecond'' \<le> 2147483647" "cfg_n v ''maxMessagesPerSecond'' \<noteq> 0"
    by (auto simp: setting_max_def may_be_zero_def)
  then have "kind_ok (fst e) (jnat 120) (idx v ''maxMessagesPerSecond'')"
    using assms(2) by (auto simp: kind_ok_def setting_max_def quota_names_def)
  moreover have "d = jnat 120" if "(fst e, d) \<in> set defaults" for d
    using that assms(2) by (auto simp: quota_names_def defaults_def)
  ultimately have "config_typed (setk (fst e) (idx v ''maxMessagesPerSecond'') v)"
    using assms(1) by (intro config_typed_setk) auto
  with assms(1) show ?thesis by (simp add: shared_quota_def split_beta)
qed

lemma shared_quota_other:
  assumes "e \<in> set quota_names" "k \<notin> fst ` set quota_names" "is_object v"
  shows "getk (shared_quota env e v) k = getk v k"
  using assms by (auto simp: shared_quota_def split_beta getk_setk)

lemma arguments_ok:
  assumes "arguments args v = Some v'" "config_typed v"
  shows "config_typed v' \<and> (\<forall>k. k \<notin> {''devMode'', ''sendDelayMs''} \<longrightarrow> getk v' k = getk v k)"
  using assms
proof (induction args v arbitrary: v' rule: arguments.induct)
  case (2 arg args v)
  define v1 where "v1 = (if arg = ''dev'' then setk ''devMode'' (JBool True) v else v)"
  have obj: "is_object v" using "2.prems"(2) by (simp add: config_typed_def)
  have t1: "config_typed v1"
    using "2.prems"(2) by (auto simp: v1_def defaults_def kind_ok_def is_boolean_def
        intro!: config_typed_setk)
  have o1: "is_object v1" using t1 by (simp add: config_typed_def)
  have g1: "\<forall>k. k \<noteq> ''devMode'' \<longrightarrow> getk v1 k = getk v k" using obj by (simp add: v1_def getk_setk)
  show ?case
  proof (cases "strip_prefix ''delay='' arg")
    case None
    then have "arguments args v1 = Some v'" using "2.prems"(1) by (simp add: v1_def Let_def)
    from "2.IH"(1) [OF v1_def None this t1] g1 show ?thesis by simp
  next
    case (Some s)
    obtain n where n: "parse_uint 32 s = Some n" "n \<le> 2147483647"
      "arguments args (setk ''sendDelayMs'' (jnat n) v1) = Some v'"
      using "2.prems"(1) Some by (auto simp: v1_def Let_def split: option.splits if_splits)
    have "config_typed (setk ''sendDelayMs'' (jnat n) v1)"
      by (rule config_typed_setk [OF t1]) (use n(2) in \<open>auto simp: defaults_def kind_ok_def
          setting_max_def may_be_zero_def\<close>)
    from "2.IH"(2) [OF v1_def Some n(1) _ n(3) this] n(2) g1 o1 show ?thesis
      by (simp add: getk_setk)
  qed
qed simp


lemma load_config_cases:
  assumes "load_config env args = Some c"
  obtains m v v1 key where "settings env defaults = Some m" "v = fold (shared_quota env) quota_names (JObj m)"
    "85 \<le> cfg_n v ''udpMaxDatagramBytes''" "cfg_n v ''udpMaxDatagramBytes'' \<le> 65507"
    "arguments args v = Some v1" "config_ok v1" "key = [] \<or> key_text 32 key"
    "c = setk ''moderationSigningKey'' (JStr key) v1"
  using assms by (auto simp: load_config_def Let_def split: option.splits if_splits)

lemma quota_fold_ok:
  assumes "config_typed v"
  shows "config_typed (fold (shared_quota env) quota_names v)"
    "k \<notin> fst ` set quota_names \<Longrightarrow> getk (fold (shared_quota env) quota_names v) k = getk v k"
proof -
  have "config_typed (fold (shared_quota env) es v) \<and>
      (k \<notin> fst ` set quota_names \<longrightarrow> getk (fold (shared_quota env) es v) k = getk v k)"
    if "set es \<subseteq> set quota_names" for es
    using that assms
  proof (induction es arbitrary: v)
    case (Cons e es)
    have "config_typed (shared_quota env e v)"
      by (rule shared_quota_typed) (use Cons.prems in auto)
    moreover have "is_object v" using Cons.prems(2) by (simp add: config_typed_def)
    ultimately show ?case using Cons shared_quota_other [of e k v env] by auto
  qed simp
  then show "config_typed (fold (shared_quota env) quota_names v)"
    "k \<notin> fst ` set quota_names \<Longrightarrow> getk (fold (shared_quota env) quota_names v) k = getk v k" by auto
qed

lemma mod_key_fresh: "(''moderationSigningKey'', d) \<notin> set defaults"
  by (simp add: defaults_def)

text \<open>An accepted configuration is typed; a handshake datagram fits; the texts are usable.\<close>

lemma load_config_ok:
  assumes l: "load_config env args = Some c"
  shows "config_typed c" "85 \<le> cfg_n c ''udpMaxDatagramBytes'' \<and> cfg_n c ''udpMaxDatagramBytes'' \<le> 65507"
    "config_ok c" "cfg_s c ''moderationSigningKey'' = [] \<or> key_text 32 (cfg_s c ''moderationSigningKey'')"
proof -
  obtain m v v1 key where s: "settings env defaults = Some m"
    and v: "v = fold (shared_quota env) quota_names (JObj m)"
    and n: "85 \<le> cfg_n v ''udpMaxDatagramBytes''" "cfg_n v ''udpMaxDatagramBytes'' \<le> 65507"
    and a: "arguments args v = Some v1" "config_ok v1" and k: "key = [] \<or> key_text 32 key"
    and c: "c = setk ''moderationSigningKey'' (JStr key) v1"
    by (rule load_config_cases [OF l])
  have tv: "config_typed v" unfolding v by (rule quota_fold_ok(1) [OF config_typed_settings [OF s]])
  have t1: "config_typed v1" and g: "getk v1 ''udpMaxDatagramBytes'' = getk v ''udpMaxDatagramBytes''"
    using arguments_ok [OF a(1) tv] by auto
  show "config_typed c" unfolding c using t1 mod_key_fresh by (auto intro: config_typed_setk)
  have o: "is_object v1" using t1 by (simp add: config_typed_def)
  then have same: "idx c k' = idx v1 k'" if "k' \<noteq> ''moderationSigningKey''" for k'
    using that by (simp add: c idx_def getk_setk)
  then show "85 \<le> cfg_n c ''udpMaxDatagramBytes'' \<and> cfg_n c ''udpMaxDatagramBytes'' \<le> 65507"
    using n g by (simp add: cfg_n_def idx_def)
  show "config_ok c" using a(2) same by (simp add: config_ok_def blank_def cfg_s_def)
  show "cfg_s c ''moderationSigningKey'' = [] \<or> key_text 32 (cfg_s c ''moderationSigningKey'')"
    using k o by (simp add: c cfg_s_def idx_def getk_setk)
qed

text \<open>A variable that is set decides its setting, and one that is not leaves the default.\<close>

lemma load_config_setting:
  assumes l: "load_config env args = Some c" and k: "(k, d) \<in> set defaults"
    and "k \<notin> fst ` set quota_names" "k \<notin> {''devMode'', ''sendDelayMs''}"
  shows "setting_from env k d (idx c k)"
proof -
  obtain m v v1 key where s: "settings env defaults = Some m"
    and v: "v = fold (shared_quota env) quota_names (JObj m)" and a: "arguments args v = Some v1"
    and c: "c = setk ''moderationSigningKey'' (JStr key) v1"
    by (rule load_config_cases [OF l])
  have tv: "config_typed v" unfolding v by (rule quota_fold_ok(1) [OF config_typed_settings [OF s]])
  have "getk v1 k = getk v k" "config_typed v1" using arguments_ok [OF a tv] assms(4) by auto
  moreover have "getk v k = map_of m k"
    unfolding v using quota_fold_ok(2) [OF config_typed_settings [OF s] assms(3)] by simp
  moreover have "k \<noteq> ''moderationSigningKey''" using k mod_key_fresh by auto
  ultimately have "idx c k = (case map_of m k of Some w \<Rightarrow> w | None \<Rightarrow> JNull)"
    by (simp add: c idx_def getk_setk config_typed_def)
  with settings_ok(2) [OF s subset_refl distinct_defaults k] show ?thesis by auto
qed

text \<open>What the listener's size check lets through: at least the packets of the handshake.\<close>

lemma handshake_fits:
  assumes "load_config env args = Some c" "length address = 16" "length payload = 16"
    and "\<And>m. length (x_hmac X secret m) = TAG"
  shows "length (encode X secret kind cid sequence address payload) \<le> cfg_n c ''udpMaxDatagramBytes''"
  using load_config_ok(2) [OF assms(1)] assms(2-4)
  by (simp add: encode_def Let_def length_signed_part HEADER_def TAG_def)

text \<open>With nothing set the defaults are accepted.\<close>

lemma default_config: "load_config (\<lambda>_. Unset) [] \<noteq> None"
  by code_simp

end
