(* ===== verification/Handle.thy ===== *)
theory Handle
  imports Sessions
begin

text \<open>
  The commands of an authenticated player (\<open>rust/server.rs\<close>: \<open>handle\<close>, \<open>room_message\<close>), one
  definition per command, and their dispatch.
\<close>

section \<open>Commands outside a room\<close>

definition open_udp :: "externals \<Rightarrow> nat \<Rightarrow> string \<Rightarrow> server \<Rightarrow> server outcome" where
  "open_udp X cid p s =
     (if \<not> cfg_b (config s) ''udpEnabled'' then Ret (err X p ''udp_disabled'' s)
      else case player_of s p of
          None \<Rightarrow> Panic
        | Some pl \<Rightarrow>
            if p_room pl = None then Ret (err X p ''no_room'' s)
            else
              let (u, s1) = with_world (session_new (p_version pl)) s in
              (case conn_of s1 cid of
                 None \<Rightarrow> Panic
               | Some c \<Rightarrow>
                   Ret (send_c X cid (msg ''udpSession'' (JObj ([(''connectionId'', JStr (dec cid)),
                       (''secret'', JStr (x_b64 X (s_secret u))),
                       (''port'', jnat (limit s ''udpPort'')), (''version'', jnat 1)] @ udp_info s)))
                     (put_conn cid (c\<lparr>c_udp := Some u\<rparr>) s1))))"

definition close_udp :: "externals \<Rightarrow> nat \<Rightarrow> server \<Rightarrow> server outcome" where
  "close_udp X cid s =
     (case conn_of s cid of
        None \<Rightarrow> Panic
      | Some c \<Rightarrow> Ret (send_c X cid (msg ''udpClosed'' JNull) (put_conn cid (c\<lparr>c_udp := None\<rparr>) s)))"

definition pong :: "nat \<Rightarrow> string \<Rightarrow> json \<Rightarrow> server \<Rightarrow> server outcome" where
  "pong cid p d s =
     (case conn_of s cid of
        None \<Rightarrow> Panic
      | Some c \<Rightarrow>
          (case c_ping c of
             None \<Rightarrow> Ret s
           | Some t0 \<Rightarrow>
               if d \<noteq> jnat t0 then Ret s
               else case player_of s p of
                   None \<Rightarrow> Panic
                 | Some pl \<Rightarrow>
                     let (t, s1) = clock s
                     in Ret (put_player p (pl\<lparr>p_rtt := Some (t - t0)\<rparr>)
                               (put_conn cid (c\<lparr>c_ping := None\<rparr>) s1))))"

text \<open>A page of the room list: as many rooms as fit in one frame, and the id to go on after.\<close>

definition rooms_msg :: "json list \<Rightarrow> json \<Rightarrow> json" where
  "rooms_msg data next_id = JObj [(''method'', JStr ''onGetRooms''), (''data'', JArr data),
     (''nextCursor'', next_id)]"

fun page :: "externals \<Rightarrow> server \<Rightarrow> room list \<Rightarrow> json list \<Rightarrow> json \<Rightarrow> (json list \<times> json) option" where
  "page X s [] data cursor = Some (data, cursor)"
| "page X s (r # rs) data cursor =
     (let next_id = (if rs = [] then JNull else JStr (r_id r)); data1 = data @ [dto s r] in
      if encoded X s (rooms_msg data1 next_id) = None
      then (if data = [] then None else Some (data, cursor))
      else page X s rs data1 next_id)"

definition listed :: "string \<Rightarrow> string \<Rightarrow> room \<Rightarrow> bool" where
  "listed p after_id r \<longleftrightarrow> after_id < r_id r \<and> (\<not> r_started r \<or> p \<in> set (r_active r) \<or> rejoin r p)"

definition listing :: "string \<Rightarrow> string \<Rightarrow> server \<Rightarrow> room list" where
  "listing p after_id s = sort_key r_id (filter (listed p after_id) (map snd (rooms s)))"

definition get_rooms :: "externals \<Rightarrow> string \<Rightarrow> json \<Rightarrow> server \<Rightarrow> server outcome" where
  "get_rooms X p d s =
     (case page X s (listing p (ascii_lower (str_or '''' (idx d ''after''))) s) [] JNull of
        None \<Rightarrow> Ret (err X p ''response_too_large'' s)
      | Some (data, cursor) \<Rightarrow> Ret (send X p (rooms_msg data cursor) s))"

fun saved_rooms :: "externals \<Rightarrow> string \<Rightarrow> json list \<Rightarrow> server \<Rightarrow> server outcome" where
  "saved_rooms X p [] s = Ret s"
| "saved_rooms X p (v # vs) s =
     (case as_str v of
        None \<Rightarrow> Panic
      | Some key \<Rightarrow>
          let (loaded, w) = (if room_at s key \<noteq> None then (Some None, world s)
                             else load X key False (store s, world s));
              s1 = s\<lparr>world := w\<rparr>
          in case loaded of
               None \<Rightarrow> Fail s1
             | Some found \<Rightarrow>
                 let room = (case room_at s1 key of Some r \<Rightarrow> Some r | None \<Rightarrow> found);
                     view = (case room of
                         Some r \<Rightarrow> if r_persistent r \<and> p \<in> set (r_players r) then dto s1 r else JNull
                       | None \<Rightarrow> JNull)
                 in saved_rooms X p vs
                      (send X p (msg ''savedRoom'' (JObj [(''roomId'', v), (''room'', view)])) s1))"

definition get_saved_rooms :: "externals \<Rightarrow> string \<Rightarrow> json \<Rightarrow> server \<Rightarrow> server outcome" where
  "get_saved_rooms X p d s =
     (case as_array (idx d ''ids'') of None \<Rightarrow> Panic | Some ids \<Rightarrow> saved_rooms X p ids s)"

text \<open>The players asked for: \<open>Inl\<close> is a panic or an error, with the world read so far.\<close>

fun select_players ::
  "externals \<Rightarrow> server \<Rightarrow> json list \<Rightarrow> player list \<Rightarrow> world \<Rightarrow> (bool \<times> world) + (player list \<times> world)"
where
  "select_players X s [] sel w = Inr (sel, w)"
| "select_players X s (v # vs) sel w =
     (case as_str v of
        None \<Rightarrow> Inl (True, w)
      | Some i \<Rightarrow>
          (case player_of s i of
             Some pl \<Rightarrow> select_players X s vs (sel @ [pl]) w
           | None \<Rightarrow>
               (case account X i (store s, w) of
                  (None, w1) \<Rightarrow> Inl (False, w1)
                | (Some None, w1) \<Rightarrow> select_players X s vs sel w1
                | (Some (Some pl), w1) \<Rightarrow> select_players X s vs (sel @ [pl]) w1)))"

definition entry_rank :: "player \<Rightarrow> nat \<times> string" where
  "entry_rank pl = (case p_entered pl of Some t \<Rightarrow> t | None \<Rightarrow> 2 ^ 64 - 1, p_id pl)"

definition get_players :: "externals \<Rightarrow> string \<Rightarrow> json \<Rightarrow> server \<Rightarrow> server outcome" where
  "get_players X p d s =
     (case (case as_array d of
              Some ids \<Rightarrow> select_players X s ids [] (world s)
            | None \<Rightarrow> Inr (filter (\<lambda>pl. p_connection pl \<noteq> None) (map snd (players s)), world s)) of
        Inl (True, w) \<Rightarrow> Panic
      | Inl (False, w) \<Rightarrow> Fail (s\<lparr>world := w\<rparr>)
      | Inr (sel, w) \<Rightarrow>
          Ret (send X p (msg ''onGetPlayers'' (JArr (map player_dto (sort_key entry_rank sel))))
                 (s\<lparr>world := w\<rparr>)))"

definition change_name :: "externals \<Rightarrow> string \<Rightarrow> json \<Rightarrow> server \<Rightarrow> server outcome" where
  "change_name X p d s =
     (case player_of s p of
        None \<Rightarrow> Panic
      | Some pl \<Rightarrow>
          (case as_str d of
             None \<Rightarrow> Panic
           | Some n \<Rightarrow>
               let pl1 = pl\<lparr>p_name := n\<rparr>;
                   (saved, s1) = with_store (save_account X pl1) (put_player p pl1 s)
               in if \<not> saved then Fail s1
                  else Ret (case Option.bind (p_room pl1) (room_at s1) of
                      None \<Rightarrow> s1
                    | Some r \<Rightarrow> broadcast X r (msg ''nameChanged''
                        (JObj [(''name'', d), (''playerId'', JStr p)])) None None s1)))"

section \<open>Push devices\<close>

definition DEVICES_MAX :: nat where "DEVICES_MAX = 4"

text \<open>A token is registered to one device of one account.\<close>

definition claim_token :: "string \<Rightarrow> string \<Rightarrow> json \<Rightarrow> player \<Rightarrow> player" where
  "claim_token p device token a =
     a\<lparr>p_devices := filter (\<lambda>(i, v). idx v ''token'' \<noteq> token \<or> (p_id a = p \<and> i = device))
                       (p_devices a)\<rparr>"

definition add_push_device :: "string \<Rightarrow> json \<Rightarrow> player \<Rightarrow> player" where
  "add_push_device device d a =
     (let ds = (if map_of (p_devices a) device = None \<and> length (p_devices a) \<ge> DEVICES_MAX
                then tl (p_devices a) else p_devices a);
          v = JObj [(''token'', idx d ''token''), (''foreground'', idx d ''foreground''),
                (''language'', JStr (str_or ''en'' (idx d ''language'')))]
      in a\<lparr>p_devices := AList.update device v ds\<rparr>)"

definition set_push_device :: "externals \<Rightarrow> string \<Rightarrow> json \<Rightarrow> server \<Rightarrow> server outcome" where
  "set_push_device X p d s =
     (if \<not> push s then Ret (err X p ''push_unavailable'' s)
      else case as_str (idx d ''deviceId'') of
          None \<Rightarrow> Panic
        | Some device \<Rightarrow>
            let ps = (if idx d ''token'' = JNull then players s
                      else map_values (claim_token p device (idx d ''token'')) (players s))
            in case map_of ps p of
                 None \<Rightarrow> Panic
               | Some a \<Rightarrow>
                   let a1 = (if idx d ''token'' = JNull
                             then a\<lparr>p_devices := AList.delete device (p_devices a)\<rparr>
                             else add_push_device device d a);
                       (saved, s1) = with_store (save_account X a1)
                                       (s\<lparr>players := AList.update p a1 ps\<rparr>)
                   in if \<not> saved then Fail s1
                      else Ret (send X p (JObj [(''method'', JStr ''pushDeviceUpdated'')]) s1))"

section \<open>Moderation\<close>

definition may_report :: "server \<Rightarrow> string \<Rightarrow> string \<Rightarrow> string \<Rightarrow> bool" where
  "may_report s p target room_id =
     (case room_at s room_id of None \<Rightarrow> False
      | Some r \<Rightarrow> target \<noteq> p \<and>
          (r_owner r = target \<or> (p \<in> set (r_players r) \<and> target \<in> set (r_players r))))"

definition get_moderation_ticket :: "externals \<Rightarrow> string \<Rightarrow> json \<Rightarrow> server \<Rightarrow> server outcome" where
  "get_moderation_ticket X p d s =
     (case (as_str (idx d ''target''), as_str (idx d ''room'')) of
        (Some target, Some room_id) \<Rightarrow>
          let req = idx d ''requestId''; key = cfg_s (config s) ''moderationSigningKey'' in
          if key = [] \<or> \<not> may_report s p target room_id
          then Ret (reply X p req (JObj [(''error'', JStr ''moderation_unavailable'')]) s)
          else
            let (t, s1) = clock s;
                payload = x_b64url X (x_to_vec X (JObj [(''reporter'', JStr p),
                  (''target'', JStr target), (''room'', JStr room_id),
                  (''expires'', jnat (t + 300000)), (''purpose'', JStr ''profile-report-v1'')]));
                signature = x_b64url X (x_hmac X (text_bytes key) (text_bytes payload))
            in Ret (reply X p req (JObj [(''ticket'', JStr (payload @ ''.'' @ signature))]) s1)
      | _ \<Rightarrow> Panic)"

section \<open>Creating a room\<close>

definition create_room :: "externals \<Rightarrow> string \<Rightarrow> json \<Rightarrow> server \<Rightarrow> server outcome" where
  "create_room X p d s =
     (case player_of s p of
        None \<Rightarrow> Panic
      | Some pl \<Rightarrow>
          if p_room pl \<noteq> None then Ret (err X p ''in_other_room'' s)
          else if length (rooms s) \<ge> limit s ''maxRooms'' then Ret (err X p ''limit_exceeded'' s)
          else case (as_str (idx d ''name''), as_u64 (idx d ''maxPlayers'')) of
              (Some n, Some cap) \<Rightarrow>
                let (r0, s1) = with_world (room_new n p cap (idx d ''password'') (idx d ''gameData'')) s;
                    r = r0\<lparr>r_binary := (idx d ''binaryRelay'' = JBool True)\<rparr>
                in if \<not> room_fits X s1 r then Ret (err X p ''payload_too_large'' s1)
                   else
                     let i = r_id r;
                         s2 = put_room i r
                           (emit X ''room.created'' (JObj [(''roomId'', JStr i)]) s1)
                     in andthen (enter X p i (idx d ''password'') s2) (\<lambda>s3.
                          case room_at s3 i of
                            None \<Rightarrow> Panic
                          | Some r1 \<Rightarrow> Ret (lobby X (msg ''roomCreated'' (dto s3 r1)) s3))
            | _ \<Rightarrow> Panic)"

section \<open>Commands inside a room\<close>

type_synonym pushes = "nat \<times> legacy_push list"

text \<open>The pushes of a notice: one per device that is not in front of its player.\<close>

definition push_device ::
  "string \<Rightarrow> json \<Rightarrow> string \<Rightarrow> string \<Rightarrow> player \<Rightarrow> string \<times> json \<Rightarrow> pushes \<Rightarrow> pushes option" where
  "push_device room_id d event_id target pl = (\<lambda>(device_id, device) (n, ps).
     if n \<ge> 32 \<or> (p_connection pl \<noteq> None \<and> idx device ''foreground'' = JBool True)
     then Some (n, ps)
     else
       let translated = idx (idx d ''translations'') (str_or ''en'' (idx device ''language''));
           t = (if is_object translated then translated else d)
       in case as_str (idx device ''token'') of
            None \<Rightarrow> None
          | Some token \<Rightarrow> Some (n + 1, ps @ [\<lparr>lp_player = target, lp_device = device_id,
              lp_token = token, lp_notice = JObj [(''title'', idx t ''title''),
                (''body'', idx t ''body''), (''roomId'', JStr room_id),
                (''eventId'', JStr event_id)]\<rparr>]))"

fun push_devices ::
  "string \<Rightarrow> json \<Rightarrow> string \<Rightarrow> string \<Rightarrow> player \<Rightarrow> (string \<times> json) list \<Rightarrow> pushes \<Rightarrow> pushes option" where
  "push_devices i d e target pl [] acc = Some acc"
| "push_devices i d e target pl (dev # devs) acc =
     (case push_device i d e target pl dev acc of
        None \<Rightarrow> None | Some acc1 \<Rightarrow> push_devices i d e target pl devs acc1)"

fun push_targets ::
  "server \<Rightarrow> string \<Rightarrow> json \<Rightarrow> string \<Rightarrow> string \<Rightarrow> json list \<Rightarrow> pushes \<Rightarrow> pushes option" where
  "push_targets s i d e p [] acc = Some acc"
| "push_targets s i d e p (v # vs) acc =
     (case as_str v of
        None \<Rightarrow> None
      | Some target \<Rightarrow>
          if target = p then push_targets s i d e p vs acc
          else case player_of s target of
              None \<Rightarrow> push_targets s i d e p vs acc
            | Some pl \<Rightarrow>
                (case push_devices i d e target pl (p_devices pl) acc of
                   None \<Rightarrow> None | Some acc1 \<Rightarrow> push_targets s i d e p vs acc1))"

definition notify_players :: "externals \<Rightarrow> string \<Rightarrow> json \<Rightarrow> work \<Rightarrow> work outcome" where
  "notify_players X p d = (\<lambda>(r, s).
     if \<not> push s then Ret (r, err X p ''push_unavailable'' s)
     else if r_owner r \<noteq> p then Ret (r, err X p ''not_room_owner'' s)
     else if \<not> r_started r \<or> \<not> r_fixed r then Ret (r, err X p ''invalid_message'' s)
     else case as_array (idx d ''to'') of
         None \<Rightarrow> Panic
       | Some to_ids \<Rightarrow>
           (case stranger (r_players r) to_ids of
              None \<Rightarrow> Panic
            | Some True \<Rightarrow> Ret (r, err X p ''invalid_message'' s)
            | Some False \<Rightarrow>
                (case as_str (idx d ''eventId'') of
                   None \<Rightarrow> Panic
                 | Some e \<Rightarrow>
                     if e \<in> set (r_events r) then Ret (r, s)
                     else
                       let (t1, s1) = clock s in
                       if t1 - r_last_push r < 30000 \<or> pushes_in_flight s1 \<ge> 32
                       then Ret (r, err X p ''push_rate_limited'' s1)
                       else
                         let (t2, s2) = clock s1;
                             r1 = r\<lparr>r_last_push := t2, r_events := remember e (r_events r)\<rparr>
                         in case push_targets s2 (r_id r1) d e p to_ids
                                   (pushes_in_flight s2, legacy_pushes s2) of
                              None \<Rightarrow> Panic
                            | Some (n, ps) \<Rightarrow>
                                Ret (r1, s2\<lparr>pushes_in_flight := n, legacy_pushes := ps,
                                            legacy_wake := True\<rparr>))))"

definition new_settings :: "json \<Rightarrow> nat \<Rightarrow> room \<Rightarrow> room" where
  "new_settings d cap r =
     r\<lparr>r_max := cap,
       r_name := (case as_str (idx d ''name'') of Some n \<Rightarrow> n | None \<Rightarrow> r_name r),
       r_password := (case getk d ''password'' of
           None \<Rightarrow> r_password r
         | Some w \<Rightarrow> (case as_str w of Some (c # cs) \<Rightarrow> w | _ \<Rightarrow> JNull))\<rparr>"

definition update_room :: "externals \<Rightarrow> string \<Rightarrow> json \<Rightarrow> work \<Rightarrow> work outcome" where
  "update_room X p d = (\<lambda>(r, s).
     if r_owner r \<noteq> p then Ret (r, err X p ''not_room_owner'' s)
     else if r_started r then Ret (r, err X p ''already_started'' s)
     else
       let cap = nat_or (r_max r) (idx d ''maxPlayers'') in
       if cap < length (r_active r) then Ret (r, err X p ''room_too_small'' s)
       else
         let r1 = new_settings d cap r in
         if \<not> room_fits X s r1 then Ret (r, err X p ''payload_too_large'' s)
         else
           let r2 = (case as_bool (idx d ''joinClosed'') of Some b \<Rightarrow> r1\<lparr>r_closed := b\<rparr> | None \<Rightarrow> r1);
               s1 = emit X ''room.settings_changed'' (JObj [(''roomId'', JStr (r_id r2)),
                      (''ownerId'', JStr p), (''maxPlayers'', jnat (r_max r2))]) s;
               m = msg ''roomUpdated'' (dto s1 r2)
           in Ret (r2, lobby X m (broadcast X r2 m None None s1)))"

definition send_in_room :: "externals \<Rightarrow> string \<Rightarrow> string \<Rightarrow> json \<Rightarrow> work \<Rightarrow> work outcome" where
  "send_in_room X p m d = (\<lambda>(r, s).
     let out = (if m = ''sendChatMsg''
                then msg ''chatMsg'' (JObj [(''text'', d), (''from'', JStr p)])
                else msg ''messageFromPlayer'' (JObj [(''from'', JStr p),
                       (''msg'', if m = ''sendTo'' then idx d ''msg'' else d)]));
         (enc, s1) = relay X p out s
     in case enc of
          None \<Rightarrow> Ret (r, s1)
        | Some f \<Rightarrow> Ret (r, broadcast_frame X r f (if m = ''sendToRoom'' then Some p else None)
                              (if m = ''sendTo'' then getk d ''to'' else None) s1))"

definition request_state :: "externals \<Rightarrow> string \<Rightarrow> work \<Rightarrow> work outcome" where
  "request_state X p = (\<lambda>(r, s).
     if r_owner r \<notin> set (r_active r) then Ret (r, s)
     else case player_of s p of
         None \<Rightarrow> Panic
       | Some pl \<Rightarrow> Ret (r, send X (r_owner r) (msg ''gameStateRequested'' (player_dto pl)) s))"

text \<open>The flags a start sets: each of the stronger ones needs the weaker.\<close>

definition started_room :: "server \<Rightarrow> json \<Rightarrow> nat \<Rightarrow> room \<Rightarrow> room" where
  "started_room s d t r =
     (let fixed = (idx d ''fixedRoster'' = JBool True);
          migration = (fixed \<and> idx d ''hostMigration'' = JBool True);
          persistent = (st_enabled (store s) \<and> migration \<and> idx d ''persistent'' = JBool True)
      in r\<lparr>r_fixed := fixed, r_migration := migration, r_persistent := persistent,
           r_start := (if persistent then d else JNull), r_updated := t,
           r_players := (if fixed then r_active r else r_players r), r_started := True\<rparr>)"

definition start_game :: "externals \<Rightarrow> string \<Rightarrow> json \<Rightarrow> work \<Rightarrow> work outcome" where
  "start_game X p d = (\<lambda>(r, s).
     if r_owner r \<noteq> p then Ret (r, err X p ''not_room_owner'' s)
     else if r_started r then Ret (r, err X p ''already_started'' s)
     else
       let (enc, s1) = relay X p (msg ''gameStarted'' d) s in
       case enc of
         None \<Rightarrow> Ret (r, s1)
       | Some f \<Rightarrow>
           let (t, s2) = clock s1;
               r1 = started_room s2 d t r;
               s3 = emit X ''room.game_started'' (JObj [(''roomId'', JStr (r_id r1)),
                      (''ownerId'', JStr p)]) s2
           in Ret (r1, lobby X (msg ''roomBlock'' (JStr (r_id r1)))
                         (broadcast_frame X r1 f None None s3)))"

definition share_state :: "externals \<Rightarrow> string \<Rightarrow> json \<Rightarrow> work \<Rightarrow> work outcome" where
  "share_state X p d = (\<lambda>(r, s).
     if r_owner r \<noteq> p then Ret (r, err X p ''not_room_owner'' s)
     else
       let (enc, s1) = relay X p (msg ''newGameState'' (idx d ''gamestate'')) s in
       case enc of
         None \<Rightarrow> Ret (r, s1)
       | Some f \<Rightarrow> Ret (r, broadcast_frame X r f (if getk d ''to'' \<noteq> None then None else Some p)
                            (getk d ''to'') s1))"

definition set_meta :: "externals \<Rightarrow> string \<Rightarrow> json \<Rightarrow> work \<Rightarrow> work outcome" where
  "set_meta X p d = (\<lambda>(r, s).
     if r_owner r \<noteq> p then Ret (r, err X p ''not_room_owner'' s)
     else
       let r1 = r\<lparr>r_meta := d\<rparr> in
       if \<not> room_fits X s r1 then Ret (r, err X p ''payload_too_large'' s)
       else
         let (enc, s1) = relay X p (msg ''onSetRoomMeta'' d) s in
         case enc of
           None \<Rightarrow> Ret (r, s1)
         | Some f \<Rightarrow> Ret (r1, broadcast_frame X r1 f None None s1))"

definition room_message :: "externals \<Rightarrow> string \<Rightarrow> string \<Rightarrow> json \<Rightarrow> work \<Rightarrow> work outcome" where
  "room_message X p m d w =
     (if m \<in> {''getSession'', ''getSessionChunk'', ''beginSession'', ''commitSession''}
      then session_request X p m d w
      else if m = ''notifyPlayers'' then notify_players X p d w
      else if m = ''updateRoom'' then update_room X p d w
      else if m \<in> {''sendChatMsg'', ''sendToRoom'', ''sendTo''} then send_in_room X p m d w
      else if m = ''requestGameState'' then request_state X p w
      else if m = ''startGame'' then start_game X p d w
      else if m = ''shareGameState'' then share_state X p d w
      else if m = ''setRoomMeta'' then set_meta X p d w
      else Ret w)"

section \<open>Dispatch\<close>

text \<open>The room is taken out of the map, worked on and put back, whatever the result.\<close>

definition in_room :: "externals \<Rightarrow> string \<Rightarrow> string \<Rightarrow> json \<Rightarrow> server \<Rightarrow> server outcome" where
  "in_room X p m d s =
     (case player_of s p of
        None \<Rightarrow> Panic
      | Some pl \<Rightarrow>
          (case p_room pl of
             None \<Rightarrow> Ret (err X p ''no_room'' s)
           | Some i \<Rightarrow>
               (case room_at s i of
                  None \<Rightarrow> Ret (err X p ''no_room'' s)
                | Some r \<Rightarrow>
                    (case room_message X p m d (r, s\<lparr>rooms := swap_remove i (rooms s)\<rparr>) of
                       Panic \<Rightarrow> Panic
                     | Fail (r1, s1) \<Rightarrow> Fail (put_room i r1 s1)
                     | Ret (r1, s1) \<Rightarrow> Ret (put_room i r1 s1)))))"

definition handle :: "externals \<Rightarrow> nat \<Rightarrow> string \<Rightarrow> json \<Rightarrow> server \<Rightarrow> server outcome" where
  "handle X cid p v s =
     (let d = idx v ''data'' in
      case as_str (idx v ''method'') of
        None \<Rightarrow> Panic
      | Some m \<Rightarrow>
          if m = ''openUdp'' then open_udp X cid p s
          else if m = ''closeUdp'' then close_udp X cid s
          else if m = ''Pong'' then pong cid p d s
          else if m = ''getRooms'' then get_rooms X p d s
          else if m = ''getSavedRooms'' then get_saved_rooms X p d s
          else if m = ''getPlayers'' then get_players X p d s
          else if m = ''changeName'' then change_name X p d s
          else if m = ''enterRoom'' then
            (case as_str (idx d ''roomId'') of
               None \<Rightarrow> Panic | Some i \<Rightarrow> enter X p i (idx d ''password'') s)
          else if m = ''leaveRoom'' then leave X p False s
          else if m = ''setPushDevice'' then set_push_device X p d s
          else if m = ''getModerationTicket'' then get_moderation_ticket X p d s
          else if m = ''createRoom'' then create_room X p d s
          else in_room X p m d s)"

end
