(* ===== verification/Commands.thy ===== *)
theory Commands
  imports Handle
begin

text \<open>
  Every command keeps the membership invariant and does not panic, on a request the protocol's
  validator has accepted: the lemmas take from \<open>validate\<close> the shape each \<open>unwrap\<close> relies on.
\<close>

section \<open>Accepted requests\<close>

definition accepted_request :: "json \<Rightarrow> nat \<Rightarrow> nat \<Rightarrow> bool" where
  "accepted_request v room_max accounts \<longleftrightarrow>
     (\<exists>w. v = normalize w) \<and> validate v room_max accounts"

lemma accepted_data: "accepted_request v rm ac \<Longrightarrow> data_ok v (method_of v) (idx v ''data'') rm ac"
  by (simp add: accepted_request_def validate_def)

lemma accepted_method:
  assumes "accepted_request v rm ac"
  shows "as_str (idx v ''method'') = Some (method_of v)"
proof -
  have "method_of v \<noteq> ''''"
    using accepted_data [OF assms] by (auto simp: data_ok_def Let_def)
  then show ?thesis by (simp add: method_of_def split: option.splits)
qed

text \<open>A whole number inside an accepted request is stored as one.\<close>

lemma accepted_integer:
  assumes "accepted_request v rm ac" "integer (idx (idx v ''data'') k)"
  shows "as_u64 (idx (idx v ''data'') k) \<noteq> None"
proof -
  from assms(1) obtain w where "v = normalize w" by (auto simp: accepted_request_def)
  then have "idx (idx v ''data'') k = normalize (idx (idx w ''data'') k)"
    by (simp add: idx_normalize)
  with assms(2) show ?thesis by (metis integer_normalize as_u64.simps(1) option.distinct(1))
qed

lemma uuidE:
  assumes "uuid v"
  obtains i where "v = JStr i" "uuid_text i"
  using assms by (auto simp: uuid_def split: option.splits)

lemma stranger_defined:
  assumes "list_all uuid vs"
  shows "stranger roster vs \<noteq> None"
  using assms by (induction vs) (auto elim!: uuidE)

lemma strangers_defined:
  assumes "list_all (\<lambda>n. list_all uuid (elems (idx n ''to''))) ns"
  shows "strangers roster ns \<noteq> None"
  using assms
proof (induction ns)
  case (Cons n ns)
  then obtain b where "stranger roster (elems (idx n ''to'')) = Some b"
    using stranger_defined [of "elems (idx n ''to'')" roster] by auto
  with Cons show ?case by (cases b) auto
qed simp

lemma notice_targets: "notice v \<Longrightarrow> list_all uuid (elems (idx v ''to''))"
  by (auto simp: notice_def ids_ok_def elems_def idx_def split: option.splits)

section \<open>Commands inside a room\<close>

lemma keeps_session_request:
  assumes v: "accepted_request v rm ac" and X: "parses X"
    and m: "method_of v \<in> {''getSession'', ''getSessionChunk'', ''beginSession'', ''commitSession''}"
  shows "after (keeps_work (r, s)) (session_request X p (method_of v) (idx v ''data'') (r, s))"
proof -
  let ?d = "idx v ''data''"
  note ok = accepted_data [OF v]
  have "uuid (idx ?d ''requestId'')" using ok m by (auto simp: data_ok_def Let_def)
  then obtain q where q: "idx ?d ''requestId'' = JStr q" "uuid_text q" by (rule uuidE)
  have chunk: "after (keeps_work (r, s)) (get_chunk X p (JStr q) ?d (r, s))"
    if "method_of v = ''getSessionChunk''"
    using ok that by (intro keeps_get_chunk [OF X _ refl q(2)] accepted_integer [OF v])
      (auto simp: data_ok_def Let_def)
  have begin_: "after (keeps_work (r, s)) (begin_session X p (JStr q) ?d (r, s))"
    if "method_of v = ''beginSession''"
    using ok that by (intro keeps_begin_session [OF _ refl q(2)] accepted_integer [OF v])
      (auto simp: data_ok_def Let_def)
  have commit: "after (keeps_work (r, s)) (commit_session X p (JStr q) ?d (r, s))"
    if "method_of v = ''commitSession''"
  proof (intro keeps_commit_session strangers_defined)
    have n: "notice (idx ?d ''scheduled'')" "notice (idx ?d ''immediate'')"
      using ok that by (auto simp: data_ok_def Let_def required_def idx_def split: option.splits)
    then show "list_all (\<lambda>n. list_all uuid (elems (idx n ''to'')))
        [idx ?d ''scheduled'', idx ?d ''immediate'']"
      by (simp add: notice_targets)
    show "idx ?d ''scheduled'' = JNull \<or> is_object (idx ?d ''scheduled'')"
      "idx ?d ''immediate'' = JNull \<or> is_object (idx ?d ''immediate'')"
      using n by (auto simp: notice_def)
  qed
  show ?thesis
    using m chunk begin_ commit
    by (auto simp: session_request_def Let_def q keeps_session_error keeps_get_session)
qed

lemma keeps_room_settings:
  assumes "length (r_active r) \<le> cap" "\<not> r_started r"
  shows "keeps_room r (new_settings d cap r)" "keeps_room r (new_settings d cap r\<lparr>r_closed := b\<rparr>)"
  using assms by (auto simp: keeps_room_def entry_ok_def room_ok_def new_settings_def)

lemma keeps_update_room: "after (keeps_work (r, s)) (update_room X p d (r, s))"
  by (auto simp: update_room_def Let_def keeps_room_settings
      intro!: keeps_workI lobby.then_same_books broadcast.then_same_books split: option.splits)

lemma same_books_relay: "relay X p v s = (e, t) \<Longrightarrow> same_books s t"
  using relay.same_books_op [of s X p v] by simp

lemma keeps_send_in_room: "after (keeps_work (r, s)) (send_in_room X p m d (r, s))"
proof -
  define out where "out = (if m = ''sendChatMsg''
                then msg ''chatMsg'' (JObj [(''text'', d), (''from'', JStr p)])
                else msg ''messageFromPlayer'' (JObj [(''from'', JStr p),
                       (''msg'', if m = ''sendTo'' then idx d ''msg'' else d)]))"
  obtain e t where 1: "relay X p out s = (e, t)" by fastforce
  have "same_books s t" by (rule same_books_relay [OF 1])
  then show ?thesis
    by (cases e) (simp_all add: send_in_room_def 1 flip: out_def
        add: keeps_workI broadcast_frame.then_same_books)
qed

lemma keeps_request_state:
  "player_of s p \<noteq> None \<Longrightarrow> after (keeps_work (r, s)) (request_state X p (r, s))"
  by (auto simp: request_state_def intro!: keeps_workI)

lemma keeps_started_room:
  assumes "\<not> r_started r"
  shows "keeps_room r (started_room s d t r)"
  using assms by (auto simp: keeps_room_def entry_ok_def room_ok_def started_room_def Let_def)

lemma keeps_start_game: "after (keeps_work (r, s)) (start_game X p d (r, s))"
proof (cases "r_owner r \<noteq> p \<or> r_started r")
  case True
  then show ?thesis by (auto simp: start_game_def intro!: keeps_workI)
next
  case False
  obtain e s1 where 1: "relay X p (msg ''gameStarted'' d) s = (e, s1)" by fastforce
  obtain t s2 where 2: "clock s1 = (t, s2)" by fastforce
  have k1: "same_books s s1" by (rule same_books_relay [OF 1])
  then have k2: "same_books s s2" by (rule same_books_trans) (rule same_books_clock [OF 2])
  show ?thesis
    using False 1 2 k1 k2
    by (cases e) (auto simp: start_game_def Let_def keeps_started_room
        intro!: keeps_workI lobby.then_same_books broadcast_frame.then_same_books emit.then_same_books)
qed

lemma keeps_share_state: "after (keeps_work (r, s)) (share_state X p d (r, s))"
  by (auto simp: share_state_def Let_def split: prod.splits option.splits
      intro!: keeps_workI broadcast_frame.then_same_books dest!: same_books_relay)

lemma keeps_set_meta: "after (keeps_work (r, s)) (set_meta X p d (r, s))"
proof -
  have "keeps_room r (r\<lparr>r_meta := d\<rparr>)" by (auto simp: keeps_room_def entry_ok_def room_ok_def)
  then show ?thesis
    by (auto simp: set_meta_def Let_def split: prod.splits option.splits
        intro!: keeps_workI broadcast_frame.then_same_books dest!: same_books_relay)
qed

lemma push_devices_defined:
  assumes "devices_ok devs"
  shows "push_devices i d e target pl devs acc \<noteq> None"
  using assms
proof (induction devs arbitrary: acc)
  case (Cons dev devs)
  obtain j v where dev: "dev = (j, v)" by fastforce
  with Cons.prems obtain tok where "as_str (idx v ''token'') = Some tok"
    by (auto simp: devices_ok_def is_string_def)
  then have "push_device i d e target pl dev acc \<noteq> None"
    using dev by (auto simp: push_device_def Let_def split: prod.splits)
  with Cons show ?case by (auto simp: devices_ok_def)
qed simp

lemma push_targets_defined:
  assumes "list_all uuid vs" and "\<And>q ql. player_of s q = Some ql \<Longrightarrow> devices_ok (p_devices ql)"
  shows "push_targets s i d e p vs acc \<noteq> None"
  using assms(1)
proof (induction vs arbitrary: acc)
  case (Cons v vs)
  then obtain t where "v = JStr t" by (auto elim: uuidE)
  moreover have "\<exists>acc1. push_devices i d e t ql (p_devices ql) acc = Some acc1"
    if "player_of s t = Some ql" for ql
    using push_devices_defined [OF assms(2) [OF that]] by blast
  ultimately show ?case using Cons by (auto split: option.split)
qed simp

lemma same_books_pushes [simp]:
  "same_books s (t\<lparr>pushes_in_flight := n, legacy_pushes := ps, legacy_wake := b\<rparr>) = same_books s t"
  by (simp add: same_books_def)

lemma keeps_notify_players:
  assumes v: "accepted_request v rm ac" "method_of v = ''notifyPlayers''"
    and dev: "\<And>q ql. player_of s q = Some ql \<Longrightarrow> devices_ok (p_devices ql)"
  shows "after (keeps_work (r, s)) (notify_players X p (idx v ''data'') (r, s))"
proof -
  let ?d = "idx v ''data''"
  have ok: "ids_ok (idx ?d ''to'') ac True" "str_such event_text (idx ?d ''eventId'')"
    using accepted_data [OF v(1)] v(2) by (auto simp: data_ok_def Let_def)
  from ok(1) obtain ids where ids: "idx ?d ''to'' = JArr ids" "list_all uuid ids"
    by (auto simp: ids_ok_def split: option.splits)
  from ok(2) obtain e where e: "idx ?d ''eventId'' = JStr e"
    by (auto simp: str_such_def split: option.splits)
  obtain b where b: "stranger (r_players r) ids = Some b" using stranger_defined [OF ids(2)] by auto
  obtain t1 s1 where 1: "clock s = (t1, s1)" by fastforce
  obtain t2 s2 where 2: "clock s1 = (t2, s2)" by fastforce
  have k1: "same_books s s1" by (rule same_books_clock [OF 1])
  then have k2: "same_books s s2" by (rule same_books_trans) (rule same_books_clock [OF 2])
  then have "player_of s2 q = Some ql \<Longrightarrow> devices_ok (p_devices ql)" for q ql
    using dev by (simp add: same_books_def)
  then obtain n ps where ps: "push_targets s2 (r_id r) ?d e p ids
      (pushes_in_flight s2, legacy_pushes s2) = Some (n, ps)"
    using push_targets_defined [OF ids(2)] by fastforce
  have room: "keeps_room r (r\<lparr>r_last_push := t, r_events := es\<rparr>)" for t es
    by (auto simp: keeps_room_def entry_ok_def room_ok_def)
  show ?thesis
  proof (cases b)
    case True
    with ids e b show ?thesis by (auto simp: notify_players_def intro!: keeps_workI)
  next
    case False
    with ids e b 1 2 k1 k2 ps room show ?thesis
      by (auto simp: notify_players_def intro!: keeps_workI err.then_same_books)
  qed
qed

text \<open>A room worked on outside the map and put back.\<close>

lemma wf_put_back:
  assumes wf: "wf_but (X, cf) {} s" and r: "room_at s i = Some r"
    and k: "keeps_work (r, s\<lparr>rooms := swap_remove i (rooms s)\<rparr>) (r1, s1)"
  shows "wf_but (X, cf) {} (put_room i r1 s1)"
proof -
  have b: "books {} (player_of s) (room_at s) (bound_to s)" and ok: "imap_ok (rooms s)"
    using wf by (simp_all add: wf_but_def)
  have r1: "entry_ok i r1" "r_active r1 = r_active r"
    using k books_room [OF b r] by (simp_all add: keeps_work_def keeps_room_def)
  have "books {} (player_of s) ((room_at s)(i \<mapsto> r1)) (bound_to s)"
  proof (rule books_same_rooms [OF b])
    fix j
    show "rel_option (\<lambda>r s. r_active s = r_active r \<and> (entry_ok j r \<longrightarrow> entry_ok j s))
        (room_at s j) (((room_at s)(i \<mapsto> r1)) j)"
      using r r1 by (auto intro: option.rel_refl)
  qed
  then show ?thesis
    using wf k swap.lookup_put_back [OF ok, of i r1] swap.ok_put_back [OF ok, of i r1]
    by (simp add: wf_but_def keeps_work_def same_books_def)
qed

lemma keeps_room_message:
  assumes v: "accepted_request v rm ac" and X: "parses X" and p: "player_of s p \<noteq> None"
    and dev: "\<And>q ql. player_of s q = Some ql \<Longrightarrow> devices_ok (p_devices ql)"
  shows "after (keeps_work (r, s)) (room_message X p (method_of v) (idx v ''data'') (r, s))"
  using keeps_session_request [OF v X, where r = r and s = s and p = p]
    keeps_notify_players [OF v _ dev, where r = r and X = X and p = p] p
  by (simp add: room_message_def keeps_update_room keeps_send_in_room keeps_request_state
      keeps_start_game keeps_share_state keeps_set_meta keeps_workI)

lemma wf_in_room:
  assumes v: "accepted_request v rm ac" and X: "parses X" and wf: "wf_but (X, cf) {} s"
    and p: "player_of s p = Some pl"
  shows "after (wf_but (X, cf) {}) (in_room X p (method_of v) (idx v ''data'') s)"
proof (cases "Option.bind (p_room pl) (room_at s)")
  case None
  then show ?thesis using wf p by (auto simp: in_room_def bind_eq_None_conv split: option.splits)
next
  case (Some r)
  then obtain i where i: "p_room pl = Some i" "room_at s i = Some r" by (auto simp: bind_eq_Some_conv)
  let ?t = "s\<lparr>rooms := swap_remove i (rooms s)\<rparr>"
  have dev: "devices_ok (p_devices ql)" if "player_of ?t q = Some ql" for q ql
    using that wf player_okD(4) by (auto simp: wf_but_def dest: books_player)
  have "after (keeps_work (r, ?t)) (room_message X p (method_of v) (idx v ''data'') (r, ?t))"
    by (rule keeps_room_message [OF v X _ dev]) (simp_all add: p)
  then show ?thesis
    using p i wf_put_back [OF wf i(2)]
    by (cases "room_message X p (method_of v) (idx v ''data'') (r, ?t)") (auto simp: in_room_def)
qed

section \<open>Commands outside a room\<close>

lemma same_books_put_conn:
  assumes "same_books s t" "conn_of t cid = Some c" "c_player d = c_player c"
  shows "same_books s (put_conn cid d t)"
proof -
  have "cid \<in> set (keys (connections t))"
    using assms(2) by (metis map_of_eq_None_iff option.distinct(1) list.set_map)
  then have "keys (AList.update cid d (connections t)) = keys (connections t)"
    by (rule keys_update)
  moreover have "bound_to (put_conn cid d t) = bound_to t"
    using assms(2,3) by (auto simp: fun_eq_iff)
  ultimately show ?thesis using assms(1) by (simp add: same_books_def)
qed

lemma wf_put_player:
  assumes wf: "wf_but (X, cf) {} s" and p: "player_of s p = Some pl" "p_id q = p_id pl"
    "p_room q = p_room pl" "p_connection q = p_connection pl" "p_offline q = p_offline pl"
    "devices_ok (p_devices pl) \<Longrightarrow> devices_ok (p_devices q)"
  shows "wf_but (X, cf) {} (put_player p q s)"
  using wf books_same_player [of "{}" "player_of s" "room_at s" "bound_to s" p pl q] p
  by (simp add: wf_but_def update_conv')

lemma acting_conn:
  assumes "wf_but (X, cf) {} s" "acting s p cid"
  obtains pl c where "player_of s p = Some pl" "p_connection pl = Some cid" "conn_of s cid = Some c"
    "c_player c = Some p"
proof -
  from assms(2) obtain pl where pl: "player_of s p = Some pl" "p_connection pl = Some cid"
    by (auto simp: acting_def)
  have b: "books {} (player_of s) (room_at s) (bound_to s)"
    using assms(1) by (simp add: wf_but_def)
  have "bound_to s cid = Some (Some p)"
    using player_okD(3) [OF books_player [OF b pl(1)] pl(2)] .
  then show thesis using pl that by auto
qed

lemma wf_open_udp:
  assumes wf: "wf_but (X, cf) {} s" and a: "acting s p cid"
  shows "after (wf_but (X, cf) {}) (open_udp X cid p s)"
proof -
  obtain pl c where pl: "player_of s p = Some pl" and c: "conn_of s cid = Some c"
    using acting_conn [OF wf a] .
  obtain u s1 where 1: "with_world (session_new (p_version pl)) s = (u, s1)" by fastforce
  then have k: "same_books s s1" by (rule same_books_with_world)
  have c1: "conn_of s1 cid = Some c"
    using 1 c by (auto simp: with_world_def Let_def split: prod.splits)
  have "wf_but (X, cf) {} (put_conn cid (c\<lparr>c_udp := v\<rparr>) s1)" for v
    using wf_same_books [OF same_books_put_conn [OF k c1]] wf by simp
  then show ?thesis using pl 1 c1 wf by (auto simp: open_udp_def)
qed

lemma wf_close_udp:
  assumes wf: "wf_but (X, cf) {} s" and a: "acting s p cid"
  shows "after (wf_but (X, cf) {}) (close_udp X cid s)"
proof -
  obtain pl c where c: "conn_of s cid = Some c" using acting_conn [OF wf a] .
  then show ?thesis
    using wf_same_books [OF same_books_put_conn [OF same_books_refl c]] wf
    by (simp add: close_udp_def)
qed

lemma wf_pong:
  assumes wf: "wf_but (X, cf) {} s" and a: "acting s p cid"
  shows "after (wf_but (X, cf) {}) (pong cid p d s)"
proof -
  obtain pl c where pl: "player_of s p = Some pl" and c: "conn_of s cid = Some c"
    using acting_conn [OF wf a] .
  obtain t s1 where 1: "clock s = (t, s1)" by fastforce
  have s1: "conn_of s1 cid = Some c" "player_of s1 p = Some pl"
    using clock_frame [of s] 1 pl c by simp_all
  let ?s2 = "put_conn cid (c\<lparr>c_ping := None\<rparr>) s1"
  have "same_books s ?s2"
    by (rule same_books_put_conn [OF same_books_clock [OF 1] s1(1)]) simp
  then have "wf_but (X, cf) {} ?s2" using wf by (simp only: wf_same_books)
  then have "wf_but (X, cf) {} (put_player p (pl\<lparr>p_rtt := r\<rparr>) ?s2)" for r
    by (rule wf_put_player) (simp_all add: s1)
  then show ?thesis using wf c pl 1 by (auto simp: pong_def split: option.splits)
qed

lemma wf_get_rooms: "wf_but (X, cf) {} s \<Longrightarrow> after (wf_but (X, cf) {}) (get_rooms X p d s)"
  by (auto simp: get_rooms_def split: option.splits)

lemma wf_saved_rooms:
  assumes "wf_but (X, cf) {} s" "list_all uuid vs"
  shows "after (wf_but (X, cf) {}) (saved_rooms X p vs s)"
  using assms
proof (induction vs arbitrary: s)
  case (Cons v vs)
  then obtain key where v: "v = JStr key" by (auto elim: uuidE)
  obtain found w where l: "(if room_at s key \<noteq> None then (Some None, world s)
      else load X key False (store s, world s)) = (found, w)" by fastforce
  have wf1: "wf_but (X, cf) {} (s\<lparr>world := w\<rparr>)"
    using Cons.prems by (simp add: wf_same_books [OF same_books_world])
  have step: "after (wf_but (X, cf) {}) (saved_rooms X p vs (send X p u (s\<lparr>world := w\<rparr>)))" for u
    using Cons.prems wf1 by (intro Cons.IH) simp_all
  show ?case
    using wf1 step unfolding saved_rooms.simps v
    by (simp only: as_str.simps option.case l Let_def prod.case) (simp split: option.split)
qed simp

lemma wf_get_saved_rooms:
  "wf_but (X, cf) {} s \<Longrightarrow> ids_ok (idx d ''ids'') n u \<Longrightarrow> after (wf_but (X, cf) {}) (get_saved_rooms X p d s)"
  by (auto simp: get_saved_rooms_def ids_ok_def wf_saved_rooms split: option.splits)

lemma select_players_defined:
  "list_all uuid vs \<Longrightarrow> select_players X s vs sel w \<noteq> Inl (True, w')"
proof (induction vs arbitrary: sel w)
  case (Cons v vs)
  then obtain i where "v = JStr i" by (auto elim: uuidE)
  with Cons show ?case by (auto split: option.splits prod.splits)
qed simp

lemma wf_get_players:
  assumes wf: "wf_but (X, cf) {} s" and d: "d = JNull \<or> ids_ok d n u"
  shows "after (wf_but (X, cf) {}) (get_players X p d s)"
proof -
  have w: "wf_but (X, cf) {} (s\<lparr>world := w\<rparr>)" for w
    using wf by (simp add: wf_same_books [OF same_books_world])
  show ?thesis
  proof (cases "as_array d")
    case None
    then show ?thesis using w wf by (simp add: get_players_def)
  next
    case (Some ids)
    with d have "list_all uuid ids" by (auto simp: ids_ok_def)
    with Some w show ?thesis
      using select_players_defined [of ids X s "[]" "world s"]
      by (auto simp: get_players_def split: sum.splits bool.splits)
  qed
qed

lemma wf_change_name:
  assumes wf: "wf_but (X, cf) {} s" and p: "player_of s p = Some pl" and d: "d = JStr n"
  shows "after (wf_but (X, cf) {}) (change_name X p d s)"
proof -
  obtain ok s1 where 1: "with_store (save_account X (pl\<lparr>p_name := n\<rparr>))
      (put_player p (pl\<lparr>p_name := n\<rparr>) s) = (ok, s1)" by fastforce
  have "wf_but (X, cf) {} (put_player p (pl\<lparr>p_name := n\<rparr>) s)"
    by (rule wf_put_player [OF wf p]) simp_all
  then have "wf_but (X, cf) {} s1" using wf_same_books [OF same_books_with_store [OF 1 keeps_jobs_save_account]] by simp
  then show ?thesis using p d 1 by (auto simp: change_name_def Let_def split: option.splits)
qed

lemma devices_ok_update:
  "devices_ok ds \<Longrightarrow> is_string (idx v ''token'') \<Longrightarrow> devices_ok (AList.update i v ds)"
proof -
  have "list_all (\<lambda>(i, v). is_string (idx v ''token'')) ds \<Longrightarrow> is_string (idx v ''token'') \<Longrightarrow>
      list_all (\<lambda>(i, v). is_string (idx v ''token'')) (AList.update i v ds)"
    by (induction ds) auto
  then show "devices_ok ds \<Longrightarrow> is_string (idx v ''token'') \<Longrightarrow> ?thesis" by (simp add: devices_ok_def)
qed

lemma devices_ok_delete: "devices_ok ds \<Longrightarrow> devices_ok (AList.delete i ds)"
  by (auto simp: devices_ok_def list_all_iff AList.delete_eq)

lemma devices_ok_tl: "devices_ok ds \<Longrightarrow> devices_ok (tl ds)"
  by (cases ds) (auto simp: devices_ok_def)

lemma claim_token_fields [simp]:
  "p_id (claim_token p i t a) = p_id a" "p_room (claim_token p i t a) = p_room a"
  "p_connection (claim_token p i t a) = p_connection a"
  "p_offline (claim_token p i t a) = p_offline a"
  "devices_ok (p_devices a) \<Longrightarrow> devices_ok (p_devices (claim_token p i t a))"
  by (auto simp: claim_token_def devices_ok_def list_all_iff)

lemma add_push_device_fields [simp]:
  "p_id (add_push_device i d a) = p_id a" "p_room (add_push_device i d a) = p_room a"
  "p_connection (add_push_device i d a) = p_connection a"
  "p_offline (add_push_device i d a) = p_offline a"
  by (simp_all add: add_push_device_def Let_def)

lemma devices_ok_add:
  "devices_ok (p_devices a) \<Longrightarrow> is_string (idx d ''token'') \<Longrightarrow>
   devices_ok (p_devices (add_push_device i d a))"
  by (auto simp: add_push_device_def Let_def intro!: devices_ok_update devices_ok_tl)

lemma books_map_players:
  assumes b: "books E P R C" and Q: "\<And>p. Q p = map_option f (P p)"
    and f: "\<And>a. p_id (f a) = p_id a" "\<And>a. p_room (f a) = p_room a"
      "\<And>a. p_connection (f a) = p_connection a" "\<And>a. p_offline (f a) = p_offline a"
      "\<And>a. devices_ok (p_devices a) \<Longrightarrow> devices_ok (p_devices (f a))"
  shows "books E Q R C"
proof -
  have "player_ok E C p q" if "Q p = Some q" for p q
  proof -
    from that Q obtain a where a: "P p = Some a" "q = f a" by (auto simp: map_option_eq_Some)
    show ?thesis
      using books_player [OF b a(1)] f(5) [of a] unfolding a(2) player_ok_def f(1-4) by blast
  qed
  moreover have "(\<exists>q. Q p = Some q \<and> p_room q = Some i) = (\<exists>a. P p = Some a \<and> p_room a = Some i)"
    for p i
    using f(2) by (auto simp: Q map_option_eq_Some)
  ultimately show ?thesis using b unfolding books_def members_agree_def by auto
qed

lemma wf_set_push_device:
  assumes wf: "wf_but (X, cf) {} s" and p: "player_of s p \<noteq> None"
    and d: "is_string (idx d ''deviceId'')" "idx d ''token'' = JNull \<or> is_string (idx d ''token'')"
  shows "after (wf_but (X, cf) {}) (set_push_device X p d s)"
proof (cases "push s")
  case False
  with wf show ?thesis by (simp add: set_push_device_def)
next
  case True
  obtain device where dev: "idx d ''deviceId'' = JStr device" using d by (auto simp: is_string_def)
  let ?tok = "idx d ''token''"
  define ps where "ps = (if ?tok = JNull then players s
                      else map_values (claim_token p device ?tok) (players s))"
  have b: "books {} (map_of ps) (room_at s) (bound_to s)"
    using wf books_map_players [of "{}" "player_of s" "room_at s" "bound_to s" "map_of ps"
        "claim_token p device ?tok"]
    by (auto simp: ps_def wf_but_def)
  then have wf1: "wf_but (X, cf) {} (s\<lparr>players := ps\<rparr>)"
    using wf by (auto simp: wf_but_def ps_def)
  from p obtain a where a: "map_of ps p = Some a"
    by (cases "?tok = JNull") (auto simp: ps_def)
  define a1 where "a1 = (if ?tok = JNull then a\<lparr>p_devices := AList.delete device (p_devices a)\<rparr>
                             else add_push_device device d a)"
  have "wf_but (X, cf) {} (put_player p a1 (s\<lparr>players := ps\<rparr>))"
    by (rule wf_put_player [OF wf1, of p a])
      (use a d in \<open>auto simp: a1_def devices_ok_delete devices_ok_add\<close>)
  then have wf2: "wf_but (X, cf) {} (s\<lparr>players := AList.update p a1 ps\<rparr>)" by simp
  obtain ok s1 where 1: "with_store (save_account X a1) (s\<lparr>players := AList.update p a1 ps\<rparr>) = (ok, s1)"
    by fastforce
  have "wf_but (X, cf) {} s1" using wf_same_books [OF same_books_with_store [OF 1 keeps_jobs_save_account]] wf2 by simp
  moreover have "set_push_device X p d s = (if \<not> ok then Fail s1
      else Ret (send X p (JObj [(''method'', JStr ''pushDeviceUpdated'')]) s1))"
    using True dev a 1 by (simp add: set_push_device_def Let_def flip: ps_def a1_def)
  ultimately show ?thesis by simp
qed

lemma wf_get_moderation_ticket:
  assumes wf: "wf_but (X, cf) {} s" and d: "uuid (idx d ''target'')" "uuid (idx d ''room'')"
  shows "after (wf_but (X, cf) {}) (get_moderation_ticket X p d s)"
proof -
  obtain t where t: "idx d ''target'' = JStr t" using d(1) by (rule uuidE)
  obtain i where i: "idx d ''room'' = JStr i" using d(2) by (rule uuidE)
  obtain c s1 where 1: "clock s = (c, s1)" by fastforce
  have "wf_but (X, cf) {} s1" using wf_same_books [OF same_books_clock [OF 1]] wf by simp
  with wf t i 1 show ?thesis by (simp add: get_moderation_ticket_def Let_def)
qed

lemma room_new_fields:
  assumes "room_new n p cap pw g w = (r, w')"
  shows "r_id r \<in> future_ids w" "r_owner r = p" "r_max r = cap" "r_password r = pw"
    "r_active r = []" "\<not> r_started r" "\<not> r_closed r" "\<not> r_fixed r" "\<not> r_migration r"
    "\<not> r_persistent r" "r_upload r = None"
  using assms new_id_future [of w] by (auto simp: room_new_def Let_def split: prod.splits)

lemma wf_create_room:
  assumes wf: "wf_but (X, cf) {} s" and p: "player_of s p = Some pl" "p_connection pl \<noteq> None"
    and d: "idx d ''name'' = JStr n" "as_u64 (idx d ''maxPlayers'') = Some cap" "cap > 0"
    and fresh: "fresh_ids s"
  shows "after (wf_but (X, cf) {}) (create_room X p d s)"
proof (cases "p_room pl \<noteq> None \<or> length (rooms s) \<ge> limit s ''maxRooms''")
  case True
  then show ?thesis using wf p by (auto simp: create_room_def)
next
  case False
  then have out: "p_room pl = None" and few: "\<not> length (rooms s) \<ge> limit s ''maxRooms''" by auto
  let ?pw = "idx d ''password''"
  obtain r0 s1 where 1: "with_world (room_new n p cap ?pw (idx d ''gameData'')) s = (r0, s1)"
    by fastforce
  then obtain w where r0: "room_new n p cap ?pw (idx d ''gameData'') (world s) = (r0, w)"
    by (auto simp: with_world_def Let_def split: prod.splits)
  note f = room_new_fields [OF r0]
  define r where "r = r0\<lparr>r_binary := (idx d ''binaryRelay'' = JBool True)\<rparr>"
  define s2 where "s2 = put_room (r_id r) r
      (emit X ''room.created'' (JObj [(''roomId'', JStr (r_id r))]) s1)"
  have k: "same_books s s1" by (rule same_books_with_world [OF 1])
  have none: "room_at s (r_id r) = None"
    using fresh_ids_room [OF fresh f(1)] by (simp add: r_def)
  have b: "books {} (player_of s2) (room_at s) (bound_to s2)" and R: "room_at s2 = (room_at s)(r_id r \<mapsto> r)"
    and ok: "imap_ok (players s2)" "imap_ok (rooms s2)" "imap_ok (connections s2)"
      "config s2 = fst cf" "set (keys (connections s2)) \<subseteq> snd cf"
      "sound_jobs (store s2)" "list_all (frame_valid X (fst cf)) (delayed s2)"
    and p2: "player_of s2 p = Some pl"
    using wf k p by (simp_all add: s2_def wf_but_def same_books_def update_conv')
  have e: "entry_error p ?pw r = None"
    using f d by (simp add: entry_error_def r_def)
  have j: "entry_ok (r_id r) (join p r)"
    by (rule entry_ok_join [OF _ refl e]) (use f in \<open>auto simp: r_def room_ok_def\<close>)
  obtain t where t: "admit X p (r_id r) r s2 = Ret t" "wf_but (X, cf) {} t" "room_at t (r_id r) = Some (join p r)"
    using wf_admit [OF b R _ ok p2 out p(2) j] none f by (auto simp: r_def)
  have "enter X p (r_id r) ?pw s2 = admit X p (r_id r) r s2"
    using p2 out R e by (simp add: enter_def)
  with t have en: "enter X p (r_id r) ?pw s2 = Ret t" by simp
  have w1: "wf_but (X, cf) {} s1" using wf_same_books [OF k] wf by simp
  have "create_room X p d s = (if \<not> room_fits X s1 r then Ret (err X p ''payload_too_large'' s1)
      else andthen (enter X p (r_id r) ?pw s2) (\<lambda>s3. case room_at s3 (r_id r) of
          None \<Rightarrow> Panic | Some r1 \<Rightarrow> Ret (lobby X (msg ''roomCreated'' (dto s3 r1)) s3)))"
    using p out few d 1 by (simp add: create_room_def Let_def r_def s2_def)
  with en t w1 show ?thesis by simp
qed

section \<open>Every command\<close>

lemma integer_positive: "integer v \<Longrightarrow> as_u64 v = Some n \<Longrightarrow> 1 \<le> num_f64 (PosInt n) \<Longrightarrow> n > 0"
  by (cases n) (auto simp: num_f64_def f64_of_nat_exact)

lemma name_okE:
  assumes "name_ok v"
  obtains n where "v = JStr n"
  using assms by (auto simp: name_ok_def string_ok_def split: option.splits)

lemma wf_handle:
  assumes v: "accepted_request v rm ac" and X: "parses X" and wf: "wf_but (X, cf) {} s"
    and a: "acting s p cid" and fresh: "fresh_ids s"
  shows "after (wf_but (X, cf) {}) (handle X cid p v s)"
proof -
  let ?d = "idx v ''data''" and ?m = "method_of v"
  note ok = accepted_data [OF v]
  obtain pl where pl: "player_of s p = Some pl" "p_connection pl = Some cid"
    using acting_conn [OF wf a] .
  have saved: "after (wf_but (X, cf) {}) (get_saved_rooms X p ?d s)" if "?m = ''getSavedRooms''"
    by (rule wf_get_saved_rooms [OF wf, of _ 20 False]) (use ok that in \<open>auto simp: data_ok_def Let_def\<close>)
  have got: "after (wf_but (X, cf) {}) (get_players X p ?d s)" if "?m = ''getPlayers''"
    by (rule wf_get_players [OF wf, of _ ac True]) (use ok that in \<open>auto simp: data_ok_def Let_def\<close>)
  have name: "after (wf_but (X, cf) {}) (change_name X p ?d s)" if "?m = ''changeName''"
  proof -
    have "name_ok ?d" using ok that by (simp add: data_ok_def Let_def)
    then obtain n where "?d = JStr n" by (rule name_okE)
    then show ?thesis by (rule wf_change_name [OF wf pl(1)])
  qed
  have enter_: "\<exists>i. idx ?d ''roomId'' = JStr i" if "?m = ''enterRoom''"
    using ok that by (auto simp: data_ok_def Let_def elim: uuidE)
  have device: "after (wf_but (X, cf) {}) (set_push_device X p ?d s)" if "?m = ''setPushDevice''"
    by (rule wf_set_push_device [OF wf]) (use ok that pl in \<open>auto simp: data_ok_def Let_def
        str_such_def is_string_def uuid_def split: option.splits\<close>)
  have ticket: "after (wf_but (X, cf) {}) (get_moderation_ticket X p ?d s)" if "?m = ''getModerationTicket''"
    by (rule wf_get_moderation_ticket [OF wf]) (use ok that in \<open>auto simp: data_ok_def Let_def\<close>)
  have create: "after (wf_but (X, cf) {}) (create_room X p ?d s)" if "?m = ''createRoom''"
  proof -
    have "name_ok (idx ?d ''name'')" using ok that by (simp add: data_ok_def Let_def)
    then obtain n where n: "idx ?d ''name'' = JStr n" by (rule name_okE)
    have i: "integer (idx ?d ''maxPlayers'')" and c: "cap_ok rm (idx ?d ''maxPlayers'')"
      using ok that by (auto simp: data_ok_def Let_def cap_ok_def)
    obtain cap where cap: "idx ?d ''maxPlayers'' = jnat cap"
      using accepted_integer [OF v i] by auto
    with c i have "cap > 0"
      using integer_positive [OF i, of cap] by (auto simp: cap_ok_def split: option.splits)
    then show ?thesis
      using wf_create_room [OF wf pl(1) _ n _ _ fresh] pl cap by simp
  qed
  have leave_: "after (wf_but (X, cf) {}) (leave X p False s)"
    using wf_leave [OF wf pl(1)] by simp
  have room: "after (wf_but (X, cf) {}) (in_room X p ?m ?d s)"
    by (rule wf_in_room [OF v X wf pl(1)])
  have enter_wf: "after (wf_but (X, cf) {}) (enter X p i w s)" for i w
    by (rule wf_enter [OF wf pl(1)]) (simp add: pl)
  show ?thesis
    using wf_open_udp [OF wf a] wf_close_udp [OF wf a] wf_pong [OF wf a] wf_get_rooms [OF wf]
      saved got name enter_ device ticket create leave_ room enter_wf
    unfolding handle_def Let_def accepted_method [OF v] option.case
    by (auto split: if_splits)
qed

end
