(* ===== verification/Serve.thy ===== *)
theory Serve
  imports Commands
begin

text \<open>
  The entry points of the state worker (\<open>rust/server.rs\<close>: \<open>receive\<close>, \<open>dispatch\<close>, \<open>sweep\<close>,
  \<open>stop\<close>): the quota and the checks of an incoming frame, the delay queue, and the periodic
  maintenance.
\<close>

section \<open>Incoming frames\<close>

text \<open>An error is reported to the client as a storage error.\<close>

fun report :: "externals \<Rightarrow> nat \<Rightarrow> server outcome \<Rightarrow> server outcome" where
  "report X cid Panic = Panic"
| "report X cid (Fail s) = Ret (error X cid ''storage_error'' s)"
| "report X cid (Ret s) = Ret s"

definition dispatch :: "externals \<Rightarrow> nat \<Rightarrow> message \<Rightarrow> json option \<Rightarrow> server \<Rightarrow> server outcome" where
  "dispatch X cid frame parsed s =
     (case Option.bind (conn_of s cid) c_player of
        None \<Rightarrow> Ret s
      | Some p \<Rightarrow> report X cid
          (case frame of
             Text t \<Rightarrow>
               (case (case parsed of Some v \<Rightarrow> Some v | None \<Rightarrow> parse X t) of
                  None \<Rightarrow> Panic | Some v \<Rightarrow> handle X cid p v s)
           | Binary b \<Rightarrow> binary X p b s
           | _ \<Rightarrow> Ret s))"

text \<open>The frame goes to its handler now or into the delay queue.\<close>

definition schedule ::
  "externals \<Rightarrow> nat \<Rightarrow> message \<Rightarrow> nat \<Rightarrow> string \<Rightarrow> bool \<Rightarrow> bool \<Rightarrow> json option \<Rightarrow> server \<Rightarrow> server outcome"
where
  "schedule X cid frame t p scoped immediate parsed s =
     (let delay = limit s ''sendDelayMs'' in
      if delay > 0 \<and> \<not> immediate then
        (case conn_of s cid of
           None \<Rightarrow> Panic
         | Some c \<Rightarrow>
             if c_delayed c + msg_len frame > limit s ''maxBufferedBytes'' \<or>
                c_pending c \<ge> limit s ''maxMessagesPerSecond''
             then Ret (close X cid 1008 ''Delay limit'' s)
             else (case player_of s p of
                 None \<Rightarrow> Panic
               | Some pl \<Rightarrow>
                   let s1 = put_conn cid (c\<lparr>c_delayed := c_delayed c + msg_len frame,
                              c_pending := c_pending c + 1\<rparr>) s
                   in Ret (s1\<lparr>delayed := delayed s1 @ [\<lparr>dl_at = t + delay, dl_cid = cid,
                        dl_version = p_version pl, dl_scoped = scoped, dl_frame = frame,
                        dl_size = msg_len frame\<rparr>]\<rparr>)))
      else dispatch X cid frame parsed s)"

definition unscoped_methods :: "string list" where
  "unscoped_methods = [''getRooms'', ''getSavedRooms'', ''getPlayers'', ''changeName'',
     ''createRoom'', ''enterRoom'', ''leaveRoom'', ''setPushDevice'']"

definition valid_text :: "externals \<Rightarrow> server \<Rightarrow> string \<Rightarrow> json option" where
  "valid_text X s t =
     (case parse X t of
        None \<Rightarrow> None
      | Some v \<Rightarrow>
          if validate v (limit s ''maxRoomPlayers'') (limit s ''maxAccounts'') then Some v else None)"

definition receive_text ::
  "externals \<Rightarrow> nat \<Rightarrow> string \<Rightarrow> nat \<Rightarrow> string option \<Rightarrow> server \<Rightarrow> server outcome" where
  "receive_text X cid text t player s =
     (case valid_text X s text of
        None \<Rightarrow> Ret (error X cid ''invalid_message'' s)
      | Some v \<Rightarrow>
          if length (stringify X v) > limit s ''maxPayloadBytes''
          then Ret (error X cid ''payload_too_large'' s)
          else case as_str (idx v ''method'') of
              None \<Rightarrow> Panic
            | Some m \<Rightarrow>
                (case player of
                   None \<Rightarrow>
                     if m = ''authenticate'' then report X cid (auth X cid (idx v ''data'') s)
                     else Ret (error X cid ''invalid_message'' s)
                 | Some p \<Rightarrow>
                     if m = ''authenticate'' then Ret (error X cid ''invalid_message'' s)
                     else schedule X cid (Text text) t p (m \<notin> set unscoped_methods) (m = ''Pong'')
                            (Some v) s))"

definition receive_frame ::
  "externals \<Rightarrow> nat \<Rightarrow> message \<Rightarrow> nat \<Rightarrow> string option \<Rightarrow> server \<Rightarrow> server outcome" where
  "receive_frame X cid frame t player s =
     (if msg_len frame > limit s ''maxPayloadBytes''
      then Ret (close X cid 1009 ''Message too large'' s)
      else case frame of
          Text text \<Rightarrow> receive_text X cid text t player s
        | _ \<Rightarrow>
            (case player of
               None \<Rightarrow> Ret (error X cid ''invalid_message'' s)
             | Some p \<Rightarrow>
                 if \<not> fits s (msg_len frame) then Ret (error X cid ''payload_too_large'' s)
                 else schedule X cid frame t p True False None s))"

text \<open>The message quota: one window a second, from the first message after the last one.\<close>

definition count_message :: "nat \<Rightarrow> connection \<Rightarrow> connection" where
  "count_message t c =
     (let c1 = (if t - c_rate_at c \<ge> 1000 then c\<lparr>c_rate_at := t, c_messages := 0\<rparr> else c)
      in c1\<lparr>c_messages := c_messages c1 + 1, c_activity := t\<rparr>)"

text \<open>The connection was taken over by a later login of its player.\<close>

definition replaced :: "server \<Rightarrow> nat \<Rightarrow> connection \<Rightarrow> bool" where
  "replaced s cid c = (case c_player c of None \<Rightarrow> False
     | Some i \<Rightarrow> (case player_of s i of None \<Rightarrow> True | Some pl \<Rightarrow> p_connection pl \<noteq> Some cid))"

definition receive :: "externals \<Rightarrow> nat \<Rightarrow> message \<Rightarrow> server \<Rightarrow> server outcome" where
  "receive X cid frame s =
     (let s0 = log_frame X cid ''in'' frame s in
      case conn_of s0 cid of
        None \<Rightarrow> Ret s0
      | Some c \<Rightarrow>
          if c_closing c \<or> replaced s0 cid c then Ret s0
          else
            let (t, s1) = clock s0; c1 = count_message t c; s2 = put_conn cid c1 s1 in
            if c_messages c1 > limit s2 ''maxMessagesPerSecond'' then
              Ret (close X cid 1008 ''Message rate limit''
                (emit X ''connection.terminate'' (JObj [(''reason'', JStr ''message_rate_limit'')]) s2))
            else (case frame of
                Ping b \<Rightarrow> Ret (raw X cid (Pong b) s2)
              | Pong b \<Rightarrow> Ret s2
              | _ \<Rightarrow> receive_frame X cid frame t (c_player c1) s2))"

section \<open>Maintenance\<close>

text \<open>The release of one delayed frame; \<open>t\<close> is the time the sweep started.\<close>

definition still_current :: "server \<Rightarrow> delayed_frame \<Rightarrow> connection \<Rightarrow> bool" where
  "still_current s d c =
     (case Option.bind (c_player c) (player_of s) of None \<Rightarrow> False
      | Some pl \<Rightarrow> \<not> c_closing c \<and> p_connection pl = Some (dl_cid d) \<and>
          (\<not> dl_scoped d \<or> p_version pl = dl_version d))"

definition release_one :: "externals \<Rightarrow> nat \<Rightarrow> delayed_frame \<Rightarrow> server \<Rightarrow> server outcome" where
  "release_one X t d s =
     (if dl_at d > t then Ret (s\<lparr>delayed := delayed s @ [d]\<rparr>)
      else case conn_of s (dl_cid d) of
          None \<Rightarrow> Ret s
        | Some c \<Rightarrow>
            let c1 = c\<lparr>c_delayed := c_delayed c - dl_size d, c_pending := c_pending c - 1\<rparr>;
                s1 = put_conn (dl_cid d) c1 s
            in if still_current s1 d c1 then dispatch X (dl_cid d) (dl_frame d) None s1
               else Ret (emit X ''message.discarded''
                 (JObj [(''reason'', JStr ''session_or_room_changed''),
                        (''bytes'', jnat (dl_size d))]) s1))"

fun release :: "externals \<Rightarrow> nat \<Rightarrow> delayed_frame list \<Rightarrow> server \<Rightarrow> server outcome" where
  "release X t [] s = Ret s"
| "release X t (d # ds) s = andthen (release_one X t d s) (release X t ds)"

text \<open>Uploads without a chunk for thirty seconds end; persistent rooms without members are stored.\<close>

definition drop_upload :: "nat \<Rightarrow> room \<Rightarrow> room" where
  "drop_upload t r =
     (case r_upload r of
        Some u \<Rightarrow> if t - u_at u > 30000 then r\<lparr>r_upload := None\<rparr> else r
      | None \<Rightarrow> r)"

fun store_empty :: "externals \<Rightarrow> string list \<Rightarrow> server \<Rightarrow> server outcome" where
  "store_empty X [] s = Ret s"
| "store_empty X (i # ids) s =
     (case room_at s i of
        None \<Rightarrow> Panic
      | Some r \<Rightarrow> store_empty X ids (keep X r (s\<lparr>rooms := AList.delete i (rooms s)\<rparr>)))"

definition empty_rooms :: "server \<Rightarrow> string list" where
  "empty_rooms s =
     map (r_id \<circ> snd) (filter (\<lambda>(_, r). r_persistent r \<and> r_active r = []) (rooms s))"

definition sweep_rooms :: "externals \<Rightarrow> nat \<Rightarrow> server \<Rightarrow> server outcome" where
  "sweep_rooms X t s =
     (let s1 = s\<lparr>rooms := map_values (drop_upload t) (rooms s)\<rparr>
      in store_empty X (empty_rooms s1) s1)"

text \<open>One connection: the time-outs, and the heartbeat that asks for the round-trip time.\<close>

definition idle :: "server \<Rightarrow> nat \<Rightarrow> connection \<Rightarrow> bool" where
  "idle s t c \<longleftrightarrow> t - c_activity c \<ge> limit s ''idleTimeoutMs'' \<or>
     (case c_ping c of None \<Rightarrow> False | Some since \<Rightarrow> t - since \<ge> limit s ''idleTimeoutMs'')"

definition beat :: "externals \<Rightarrow> nat \<Rightarrow> nat \<Rightarrow> bool \<times> server \<Rightarrow> (bool \<times> server) outcome" where
  "beat X t cid = (\<lambda>(h, s).
     case conn_of s cid of
       None \<Rightarrow> Panic
     | Some c \<Rightarrow>
         if c_player c = None then
           if t - c_created c \<ge> limit s ''authTimeoutMs'' then
             Ret (h, close X cid 1008 ''Authentication timeout''
               (emit X ''connection.terminate''
                 (JObj [(''reason'', JStr ''authentication_timeout'')]) s))
           else Ret (h, s)
         else if idle s t c then Ret (h, close X cid 1008 ''Idle timeout'' s)
         else if t - c_last_ping c \<ge> limit s ''heartbeatIntervalMs'' then
           let c1 = c\<lparr>c_last_ping := t\<rparr> in
           if c_ping c = None
           then Ret (True, send_c X cid (msg ''Ping'' (jnat t)) (put_conn cid (c1\<lparr>c_ping := Some t\<rparr>) s))
           else Ret (True, put_conn cid c1 s)
         else Ret (h, s))"

fun beats :: "externals \<Rightarrow> nat \<Rightarrow> nat list \<Rightarrow> bool \<times> server \<Rightarrow> (bool \<times> server) outcome" where
  "beats X t [] hs = Ret hs"
| "beats X t (cid # cids) hs = andthen (beat X t cid hs) (beats X t cids)"

definition room_rtt :: "server \<Rightarrow> room \<Rightarrow> json" where
  "room_rtt s r =
     fold (\<lambda>i v. case Option.bind (player_of s i) p_rtt of
             Some rtt \<Rightarrow> setk i (jnat rtt) v | None \<Rightarrow> v) (r_active r) (JObj [])"

definition broadcast_rtt :: "externals \<Rightarrow> server \<Rightarrow> server" where
  "broadcast_rtt X s =
     fold (\<lambda>(_, r) s. broadcast X r (msg ''RoomRTT'' (room_rtt s r)) None None s) (rooms s) s"

definition sweep :: "externals \<Rightarrow> server \<Rightarrow> server outcome" where
  "sweep X s =
     (let (t, s1) = clock s in
      andthen (release X t (delayed s1) (s1\<lparr>delayed := []\<rparr>)) (\<lambda>s2.
        andthen (sweep_rooms X t s2) (\<lambda>s3.
          case beats X t (keys (connections s3)) (False, s3) of
            Panic \<Rightarrow> Panic
          | Fail (h, s4) \<Rightarrow> Fail s4
          | Ret (h, s4) \<Rightarrow> Ret (expire X (if h then broadcast_rtt X s4 else s4)))))"

section \<open>Shutdown\<close>

definition close_all :: "externals \<Rightarrow> server \<Rightarrow> server" where
  "close_all X s = fold (\<lambda>cid s. close X cid 1001 ''Server shutting down'' s) (keys (connections s)) s"

fun save_rooms :: "externals \<Rightarrow> room list \<Rightarrow> server \<Rightarrow> server outcome" where
  "save_rooms X [] s = Ret s"
| "save_rooms X (r # rs) s =
     (if r_persistent r then
        let (ok, s1) = with_store (save X r) s in
        if ok then save_rooms X rs s1 else Fail s1
      else save_rooms X rs s)"

definition stop :: "externals \<Rightarrow> server \<Rightarrow> server outcome" where
  "stop X s =
     (let s1 = close_all X s in
      andthen (save_rooms X (map snd (rooms s1)) s1)
        (\<lambda>s2. Ret (emit X ''server stopped'' (JObj []) s2)))"

end
