(* ===== verification/Worker.thy ===== *)
theory Worker
  imports Serve
begin

text \<open>
  The entry points keep the membership invariant and do not panic. \<open>receive\<close> checks the
  connection and validates the request before the command runs; \<open>sweep\<close> checks it again.
\<close>

section \<open>Frames\<close>

lemma wf_report: "after (wf_but (X, cf) {}) r \<Longrightarrow> after (wf_but (X, cf) {}) (report X cid r)"
  by (cases r) simp_all

lemma wf_binary:
  assumes X: "parses X" and wf: "wf_but (X, cf) {} s" and p: "player_of s p \<noteq> None"
  shows "after (wf_but (X, cf) {}) (binary X p b s)"
proof -
  have bk: "books {} (player_of s) (room_at s) (bound_to s)" using wf by (simp add: wf_but_def)
  obtain pl where pl: "player_of s p = Some pl" using p by auto
  obtain sender where sender: "x_uuid_parse X p = Some sender"
    using parsesE [OF X player_okD(2) [OF books_player [OF bk pl]]] .
  have ad: "after (wf_but (X, cf) {}) (addressed X p r b s)" for r
    using wf sender by (simp add: addressed_def Let_def)
  have up: "after (wf_but (X, cf) {}) (case upload X p b (r, s\<lparr>rooms := swap_remove i (rooms s)\<rparr>) of
      Ret (r1, s1) \<Rightarrow> Ret (put_room i r1 s1) | Fail (r1, s1) \<Rightarrow> Fail s1 | Panic \<Rightarrow> Panic)"
    if r: "room_at s i = Some r" for i r
  proof -
    let ?t = "s\<lparr>rooms := swap_remove i (rooms s)\<rparr>"
    have k: "after (keeps_work (r, ?t)) (upload X p b (r, ?t))"
      by (rule keeps_upload [OF X books_room [OF bk r]])
    have "upload X p b (r, ?t) \<noteq> Fail w" for w
      by (auto simp: upload_def Let_def split: option.splits prod.splits)
    with k wf_put_back [OF wf r] show ?thesis
      by (cases "upload X p b (r, ?t)") auto
  qed
  show ?thesis
    using wf pl ad up unfolding binary_def by (auto split: option.splits)
qed

lemma wf_dispatch:
  assumes X: "parses X" and wf: "wf_but (X, cf) {} s" and fresh: "fresh_ids s"
    and acts: "\<And>p. Option.bind (conn_of s cid) c_player = Some p \<Longrightarrow> acting s p cid"
    and v: "\<And>t. frame = Text t \<Longrightarrow> \<exists>v. (case parsed of Some v \<Rightarrow> Some v | None \<Rightarrow> parse X t) = Some v \<and>
      accepted_request v rm ac"
  shows "after (wf_but (X, cf) {}) (dispatch X cid frame parsed s)"
proof (cases "Option.bind (conn_of s cid) c_player")
  case None
  with wf show ?thesis by (simp add: dispatch_def)
next
  case (Some p)
  note a = acts [OF Some]
  then have p: "player_of s p \<noteq> None" by (auto simp: acting_def)
  show ?thesis
  proof (cases frame)
    case (Text t)
    then obtain w where w: "(case parsed of Some v \<Rightarrow> Some v | None \<Rightarrow> parse X t) = Some w"
      "accepted_request w rm ac" using v by blast
    then show ?thesis
      using Some Text wf_report [OF wf_handle [OF w(2) X wf a fresh]]
      by (simp add: dispatch_def)
  qed (use Some wf wf_report [OF wf_binary [OF X wf p]] in \<open>simp_all add: dispatch_def\<close>)
qed

lemma valid_text_accepted:
  "valid_text X s t = Some v \<Longrightarrow>
   parse X t = Some v \<and> accepted_request v (limit s ''maxRoomPlayers'') (limit s ''maxAccounts'')"
  by (auto simp: valid_text_def accepted_request_def parse_def split: option.splits if_splits)

lemma frame_valid_accepted:
  assumes "frame_valid X (fst cf) d" "dl_frame d = Text t"
  obtains v where "parse X t = Some v"
    "accepted_request v (cfg_n (fst cf) ''maxRoomPlayers'') (cfg_n (fst cf) ''maxAccounts'')"
  using assms by (auto simp: frame_valid_def accepted_request_def parse_def split: option.splits)

text \<open>The frame is text that was validated, or no text at all.\<close>

definition frame_checked :: "externals \<Rightarrow> server \<Rightarrow> message \<Rightarrow> json option \<Rightarrow> bool" where
  "frame_checked X s frame parsed \<longleftrightarrow> (\<forall>t. frame = Text t \<longrightarrow>
     (\<exists>v. valid_text X s t = Some v \<and> parsed = Some v))"

lemma wf_schedule:
  assumes X: "parses X" and wf: "wf_but (X, cf) {} s" and fresh: "fresh_ids s"
    and a: "acting s p cid" and f: "frame_checked X s frame parsed"
  shows "after (wf_but (X, cf) {}) (schedule X cid frame t p scoped immediate parsed s)"
proof -
  obtain pl c where pl: "player_of s p = Some pl" and c: "conn_of s cid = Some c" "c_player c = Some p"
    using acting_conn [OF wf a] .
  have now: "after (wf_but (X, cf) {}) (dispatch X cid frame parsed s)"
  proof (rule wf_dispatch [OF X wf fresh])
    show "acting s q cid" if "Option.bind (conn_of s cid) c_player = Some q" for q
      using that c a by simp
    show "\<exists>v. (case parsed of Some v \<Rightarrow> Some v | None \<Rightarrow> parse X t) = Some v \<and>
        accepted_request v (limit s ''maxRoomPlayers'') (limit s ''maxAccounts'')"
      if "frame = Text t" for t
      using f that valid_text_accepted by (fastforce simp: frame_checked_def)
  qed
  let ?c = "c\<lparr>c_delayed := c_delayed c + msg_len frame, c_pending := c_pending c + 1\<rparr>"
  have "same_books s (put_conn cid ?c s)"
    by (rule same_books_put_conn [OF same_books_refl c(1)]) simp
  then have "wf_but (X, cf) {} (put_conn cid ?c s)" using wf by (simp only: wf_same_books)
  moreover have "frame_valid X (config s) d" if "dl_frame d = frame" for d
    using f that unfolding frame_valid_def frame_checked_def
    by (auto simp: valid_text_def split: message.splits option.splits if_splits)
  ultimately have "wf_but (X, cf) {} (put_conn cid ?c s\<lparr>delayed := delayed s @
      [\<lparr>dl_at = t', dl_cid = cid, dl_version = p_version pl, dl_scoped = scoped, dl_frame = frame,
        dl_size = msg_len frame\<rparr>]\<rparr>)" for t'
    by (simp add: wf_but_def)
  then show ?thesis
    using now wf c pl by (auto simp: schedule_def Let_def)
qed

text \<open>A login names an account whose file is its own.\<close>

definition login_ok :: "externals \<Rightarrow> server \<Rightarrow> message \<Rightarrow> bool" where
  "login_ok X s frame \<longleftrightarrow> (case frame of
       Text t \<Rightarrow> (case parse X t of
           None \<Rightarrow> True
         | Some v \<Rightarrow> own_account X (str_or '''' (idx (idx v ''data'') ''playerId'')) (store s))
     | _ \<Rightarrow> True)"

lemma login_ok_store: "store t = store s \<Longrightarrow> login_ok X t frame = login_ok X s frame"
  by (simp only: login_ok_def)

lemma wf_receive_text:
  assumes X: "parses X" and wf: "wf_but (X, cf) {} s" and fresh: "fresh_ids s"
    and login: "login_ok X s (Text text)"
    and anon: "player = None \<Longrightarrow> bound_to s cid = Some None"
    and acts: "\<And>p. player = Some p \<Longrightarrow> acting s p cid"
  shows "after (wf_but (X, cf) {}) (receive_text X cid text t player s)"
proof (cases "valid_text X s text")
  case None
  with wf show ?thesis by (simp add: receive_text_def)
next
  case (Some v)
  note v = valid_text_accepted [OF Some]
  then have m: "as_str (idx v ''method'') = Some (method_of v)"
    using accepted_method by blast
  have own: "own_account X (str_or '''' (idx (idx v ''data'') ''playerId'')) (store s)"
    using login v by (simp add: login_ok_def)
  have au: "after (wf_but (X, cf) {}) (report X cid (auth X cid (idx v ''data'') s))" if "player = None"
    by (rule wf_report [OF wf_auth [OF wf anon [OF that] fresh own]])
  have sch: "after (wf_but (X, cf) {}) (schedule X cid (Text text) t p sc im (Some v) s)"
    if "player = Some p" for p sc im
    by (rule wf_schedule [OF X wf fresh acts [OF that]]) (simp add: frame_checked_def Some)
  show ?thesis
    using wf Some m au sch by (auto simp: receive_text_def split: option.splits)
qed

lemma wf_receive_frame:
  assumes "parses X" "wf_but (X, cf) {} s" "fresh_ids s" "login_ok X s frame"
    "player = None \<Longrightarrow> bound_to s cid = Some None" "\<And>p. player = Some p \<Longrightarrow> acting s p cid"
  shows "after (wf_but (X, cf) {}) (receive_frame X cid frame t player s)"
proof -
  have sch: "after (wf_but (X, cf) {}) (schedule X cid frame t p sc im None s)"
    if "player = Some p" "\<And>u. frame \<noteq> Text u" for p sc im
    by (rule wf_schedule [OF assms(1-3) assms(6) [OF that(1)]]) (simp add: frame_checked_def that(2))
  have texts: "after (wf_but (X, cf) {}) (receive_text X cid u t player s)" if "frame = Text u" for u
    by (rule wf_receive_text [OF assms(1-3)]) (use assms that in simp_all)
  show ?thesis
    using assms(2) sch texts by (cases frame; cases player) (auto simp: receive_frame_def)
qed

lemma count_message_player [simp]: "c_player (count_message t c) = c_player c"
  by (simp add: count_message_def Let_def)

lemma fresh_ids_same:
  assumes "same_books s t" "future_ids (world t) \<subseteq> future_ids (world s)"
  shows "fresh_ids s \<Longrightarrow> fresh_ids t"
  using assms unfolding fresh_ids_def same_books_def by auto

lemma wf_receive:
  assumes X: "parses X" and wf: "wf_but (X, cf) {} s" and fresh: "fresh_ids s" and login: "login_ok X s frame"
  shows "after (wf_but (X, cf) {}) (receive X cid frame s)"
proof -
  let ?s0 = "log_frame X cid ''in'' frame s"
  show ?thesis
  proof (cases "conn_of s cid")
    case None
    with wf show ?thesis by (simp add: receive_def Let_def)
  next
    case (Some c)
    show ?thesis
    proof (cases "c_closing c \<or> replaced ?s0 cid c")
      case True
      with Some wf show ?thesis by (auto simp: receive_def Let_def)
    next
      case False
      obtain t s1 where t: "clock ?s0 = (t, s1)" by fastforce
      let ?c = "count_message t c"
      let ?s2 = "put_conn cid ?c s1"
      have k0: "same_books s ?s0" by simp
      have k1: "same_books s s1" by (rule same_books_trans [OF k0 same_books_clock [OF t]])
      have s1: "connections s1 = connections s" "store s1 = store s"
        "future_ids (world s1) = future_ids (world s)"
        using clock_frame [of ?s0] t by simp_all
      have c1: "conn_of s1 cid = Some c" using Some s1 by simp
      have k2: "same_books s ?s2" by (rule same_books_put_conn [OF k1 c1]) simp
      then have wf2: "wf_but (X, cf) {} ?s2" using wf by (simp only: wf_same_books)
      have fresh2: "fresh_ids ?s2" by (rule fresh_ids_same [OF k2 _ fresh]) (simp add: s1)
      have "store ?s2 = store s" using s1 by simp
      from login_ok_store [OF this] have login2: "login_ok X ?s2 frame" using login by blast
      have acts: "acting ?s2 p cid" if "c_player c = Some p" for p
      proof -
        have pl: "player_of ?s2 = player_of ?s0" using k2 k0 by (simp add: same_books_def)
        from False that obtain pl where "player_of ?s0 p = Some pl" "p_connection pl = Some cid"
          by (auto simp: replaced_def split: option.splits)
        then show ?thesis unfolding acting_def pl by blast
      qed
      have "after (wf_but (X, cf) {}) (receive_frame X cid frame t (c_player ?c) ?s2)"
      proof (rule wf_receive_frame [OF X wf2 fresh2 login2])
        show "bound_to ?s2 cid = Some None" if "c_player ?c = None"
          using that by (simp add: update_conv')
        show "acting ?s2 p cid" if "c_player ?c = Some p" for p
          using that by (intro acts) simp
      qed
      then show ?thesis
        using Some False t wf2 by (auto simp: receive_def Let_def split: message.split)
    qed
  qed
qed

section \<open>Maintenance\<close>

text \<open>Whenever a delayed frame is released the ids drawn next are not in use.\<close>

fun fresh_run :: "externals \<Rightarrow> nat \<Rightarrow> delayed_frame list \<Rightarrow> server \<Rightarrow> bool" where
  "fresh_run X t [] s = True"
| "fresh_run X t (d # ds) s = (fresh_ids s \<and>
     (case release_one X t d s of Ret s1 \<Rightarrow> fresh_run X t ds s1 | _ \<Rightarrow> True))"

lemma wf_config: "wf_but (X, cf) E s \<Longrightarrow> config s = fst cf"
  by (simp add: wf_but_def)

lemma wf_release_one:
  assumes X: "parses X" and wf: "wf_but (X, cf) {} s" and fresh: "fresh_ids s"
    and d: "frame_valid X (fst cf) d"
  shows "after (wf_but (X, cf) {}) (release_one X t d s)"
proof (cases "dl_at d > t")
  case True
  have "wf_but (X, cf) {} (s\<lparr>delayed := delayed s @ [d]\<rparr>)" using wf d by (simp add: wf_but_def)
  with True show ?thesis by (simp add: release_one_def)
next
  case due: False
  show ?thesis
  proof (cases "conn_of s (dl_cid d)")
    case None
    with due wf show ?thesis by (simp add: release_one_def)
  next
    case (Some c)
    let ?c = "c\<lparr>c_delayed := c_delayed c - dl_size d, c_pending := c_pending c - 1\<rparr>"
    let ?s = "put_conn (dl_cid d) ?c s"
    have k: "same_books s ?s" by (rule same_books_put_conn [OF same_books_refl Some]) simp
    have wf1: "wf_but (X, cf) {} ?s" using wf wf_same_books [OF k] by simp
    have fresh1: "fresh_ids ?s" by (rule fresh_ids_same [OF k _ fresh]) simp
    have "after (wf_but (X, cf) {}) (dispatch X (dl_cid d) (dl_frame d) None ?s)"
      if cur: "still_current ?s d ?c"
    proof (rule wf_dispatch [OF X wf1 fresh1])
      show "acting ?s p (dl_cid d)" if "Option.bind (conn_of ?s (dl_cid d)) c_player = Some p" for p
        using that cur by (auto simp: update_conv' still_current_def acting_def split: option.splits)
      show "\<exists>v. (case None of Some v \<Rightarrow> Some v | None \<Rightarrow> parse X u) = Some v \<and>
          accepted_request v (cfg_n (fst cf) ''maxRoomPlayers'') (cfg_n (fst cf) ''maxAccounts'')"
        if "dl_frame d = Text u" for u
        using frame_valid_accepted [OF d that] by auto
    qed
    with due Some wf1 show ?thesis by (simp add: release_one_def Let_def)
  qed
qed

lemma wf_release:
  assumes X: "parses X" and "wf_but (X, cf) {} s" and "list_all (frame_valid X (fst cf)) ds"
    and "fresh_run X t ds s"
  shows "after (wf_but (X, cf) {}) (release X t ds s)"
  using assms(2-4)
proof (induction ds arbitrary: s)
  case (Cons d ds)
  then have one: "after (wf_but (X, cf) {}) (release_one X t d s)"
    by (intro wf_release_one [OF X]) simp_all
  then show ?case
    using Cons by (cases "release_one X t d s") auto
qed simp

lemma keeps_drop_upload: "keeps_room r (drop_upload t r)"
  by (auto simp: drop_upload_def intro!: keeps_room_upload split: option.split)

lemma wf_map_rooms:
  assumes wf: "wf_but (X, cf) {} s" and f: "\<And>r. keeps_room r (f r)"
  shows "wf_but (X, cf) {} (s\<lparr>rooms := map_values f (rooms s)\<rparr>)"
proof -
  have "books {} (player_of s) (room_at (s\<lparr>rooms := map_values f (rooms s)\<rparr>)) (bound_to s)"
  proof (rule books_same_rooms [where R = "room_at s"])
    show "books {} (player_of s) (room_at s) (bound_to s)" using wf by (simp add: wf_but_def)
    show "rel_option (\<lambda>r s. r_active s = r_active r \<and> (entry_ok i r \<longrightarrow> entry_ok i s)) (room_at s i)
        (room_at (s\<lparr>rooms := map_values f (rooms s)\<rparr>) i)" for i
      using f by (cases "room_at s i") (auto simp: keeps_room_def)
  qed
  with wf show ?thesis by (simp add: wf_but_def)
qed

lemma keep_rooms: "room_at (keep X r s) j = room_at s j \<or> j = r_id r"
  by (cases rule: keep_cases [of s r X]) (auto simp: same_books_def update_conv')

lemma wf_store_empty:
  assumes "wf_but (X, cf) {} s" "distinct ids"
    and "\<And>i. i \<in> set ids \<Longrightarrow> \<exists>r. room_at s i = Some r \<and> r_persistent r \<and> r_active r = []"
  shows "after (wf_but (X, cf) {}) (store_empty X ids s)"
  using assms
proof (induction ids arbitrary: s)
  case (Cons i ids)
  then obtain r where r: "room_at s i = Some r" "r_persistent r" "r_active r = []" by auto
  have b: "books {} (player_of s) (room_at s) (bound_to s)" and ok: "imap_ok (rooms s)"
    using Cons.prems(1) by (simp_all add: wf_but_def)
  have e: "entry_ok i r" by (rule books_room [OF b r(1)])
  then have id: "r_id r = i" by (simp add: entry_ok_def)
  let ?t = "s\<lparr>rooms := AList.delete i (rooms s)\<rparr>"
  have "books {} (player_of s) ((room_at s)(i := None)) (bound_to s)"
    using r by (intro books_empty_room [OF b]) simp_all
  then have "wf_but (X, cf) {} ?t" using Cons.prems(1) by (simp add: wf_but_def delete_conv')
  then have "wf_but (X, cf) {} (keep X r ?t)"
    by (rule wf_keep [OF _ e r(3)]) (simp add: delete_conv')
  moreover have "\<exists>q. room_at (keep X r ?t) j = Some q \<and> r_persistent q \<and> r_active q = []"
    if "j \<in> set ids" for j
  proof -
    have "j \<noteq> i" using that Cons.prems(2) by auto
    then have "room_at (keep X r ?t) j = room_at s j"
      using keep_rooms [of X r ?t j] id by (simp add: delete_conv')
    with Cons.prems(3) [of j] that show ?thesis by simp
  qed
  ultimately have "after (wf_but (X, cf) {}) (store_empty X ids (keep X r ?t))"
    using Cons.prems(2) by (intro Cons.IH) simp_all
  then show ?case by (simp add: r)
qed simp

lemma empty_rooms_keys:
  assumes "\<And>k r. (k, r) \<in> set (rooms s) \<Longrightarrow> r_id r = k"
  shows "empty_rooms s = keys (filter (\<lambda>(_, r). r_persistent r \<and> r_active r = []) (rooms s))"
  using assms by (auto simp: empty_rooms_def)

lemma wf_store_empty_rooms:
  assumes wf: "wf_but (X, cf) {} s"
  shows "after (wf_but (X, cf) {}) (store_empty X (empty_rooms s) s)"
proof -
  have ok: "imap_ok (rooms s)" and b: "books {} (player_of s) (room_at s) (bound_to s)"
    using wf by (simp_all add: wf_but_def)
  have at: "room_at s k = Some r" if "(k, r) \<in> set (rooms s)" for k r
    using that ok by (simp only: map_of_eq_Some_iff)
  have e: "r_id r = k" if "(k, r) \<in> set (rooms s)" for k r
    using books_room [OF b at [OF that]] by (simp add: entry_ok_def)
  have ek: "empty_rooms s = keys (filter (\<lambda>(_, r). r_persistent r \<and> r_active r = []) (rooms s))"
    by (rule empty_rooms_keys) (rule e)
  have "distinct (empty_rooms s)" unfolding ek using ok by simp
  moreover have "\<exists>r. room_at s i = Some r \<and> r_persistent r \<and> r_active r = []"
    if "i \<in> set (empty_rooms s)" for i
    using that at unfolding ek by auto
  ultimately show ?thesis by (rule wf_store_empty [OF wf])
qed

lemma wf_sweep_rooms:
  assumes wf: "wf_but (X, cf) {} s"
  shows "after (wf_but (X, cf) {}) (sweep_rooms X t s)"
  unfolding sweep_rooms_def Let_def
  by (rule wf_store_empty_rooms [OF wf_map_rooms [OF wf keeps_drop_upload]])

lemma beat_books:
  assumes "conn_of s cid \<noteq> None"
  shows "\<exists>h' t'. beat X t cid (h, s) = Ret (h', t') \<and> same_books s t'"
proof -
  obtain c where c: "conn_of s cid = Some c" using assms by auto
  have k: "same_books s (put_conn cid d s)" if "c_player d = c_player c" for d
    using that by (rule same_books_put_conn [OF same_books_refl c])
  have "same_books s (put_conn cid (c\<lparr>c_last_ping := t\<rparr>) s)"
    "same_books s (send_c X cid v (put_conn cid (c\<lparr>c_last_ping := t, c_ping := Some t\<rparr>) s))" for v
    by (simp_all add: k send_c.then_same_books)
  then show ?thesis
    by (auto simp: beat_def c Let_def close.then_same_books)
qed

lemma beats_books:
  assumes "\<And>cid. cid \<in> set cids \<Longrightarrow> conn_of s cid \<noteq> None"
  shows "\<exists>h' t'. beats X t cids (h, s) = Ret (h', t') \<and> same_books s t'"
  using assms
proof (induction cids arbitrary: h s)
  case (Cons cid cids)
  then obtain h1 s1 where 1: "beat X t cid (h, s) = Ret (h1, s1)" "same_books s s1"
    using beat_books [of s cid X t h] by auto
  have "conn_of s1 j \<noteq> None" if "j \<in> set cids" for j
    using Cons.prems [of j] that same_books_bound [OF 1(2), of j] by auto
  then obtain h2 s2 where 2: "beats X t cids (h1, s1) = Ret (h2, s2)" "same_books s1 s2"
    using Cons.IH [of s1 h1] by blast
  then show ?case using 1 same_books_trans [OF 1(2) 2(2)] by simp
qed simp

interpretation broadcast_rtt: transport_op "broadcast_rtt X" for X
  by unfold_locales (auto simp: broadcast_rtt_def broadcast.quiet_op intro!: quiet_fold)

lemma wf_sweep:
  assumes X: "parses X" and wf: "wf_but (X, cf) {} s"
    and fresh: "fresh_run X (fst (clock s)) (delayed s) (snd (clock s)\<lparr>delayed := []\<rparr>)"
  shows "after (wf_but (X, cf) {}) (sweep X s)"
proof -
  obtain t s1 where t: "clock s = (t, s1)" by fastforce
  have k: "same_books s s1" by (rule same_books_clock [OF t])
  then have wf1: "wf_but (X, cf) {} s1" using wf by (simp add: wf_same_books)
  then have wf0: "wf_but (X, cf) {} (s1\<lparr>delayed := []\<rparr>)" and v: "list_all (frame_valid X (fst cf)) (delayed s1)"
    by (simp_all add: wf_but_def)
  have dl: "delayed s1 = delayed s" using k by (simp add: same_books_def)
  have "after (wf_but (X, cf) {}) (release X t (delayed s1) (s1\<lparr>delayed := []\<rparr>))"
    using wf_release [OF X wf0 v] fresh by (simp add: t dl)
  moreover have "after (wf_but (X, cf) {}) (andthen (sweep_rooms X t s2) (\<lambda>s3.
          case beats X t (keys (connections s3)) (False, s3) of
            Panic \<Rightarrow> Panic
          | Fail (h, s4) \<Rightarrow> Fail s4
          | Ret (h, s4) \<Rightarrow> Ret (expire X (if h then broadcast_rtt X s4 else s4))))"
    if "wf_but (X, cf) {} s2" for s2
  proof (rule after_andthen [OF wf_sweep_rooms [OF that]])
    fix s3 assume wf3: "wf_but (X, cf) {} s3"
    have "conn_of s3 cid \<noteq> None" if "cid \<in> set (keys (connections s3))" for cid
      using that by (simp add: map_of_eq_None_iff)
    then obtain h s4 where 4: "beats X t (keys (connections s3)) (False, s3) = Ret (h, s4)"
      "same_books s3 s4" using beats_books by blast
    have "wf_but (X, cf) {} s4" using wf3 wf_same_books [OF 4(2)] by simp
    then have "wf_but (X, cf) {} (if h then broadcast_rtt X s4 else s4)" by simp
    from wf_expire [OF this] show "after (wf_but (X, cf) {})
        (case beats X t (keys (connections s3)) (False, s3) of Panic \<Rightarrow> Panic
         | Fail (h, s4) \<Rightarrow> Fail s4
         | Ret (h, s4) \<Rightarrow> Ret (expire X (if h then broadcast_rtt X s4 else s4)))"
      by (simp add: 4)
  qed
  ultimately show ?thesis
    unfolding sweep_def t Let_def prod.case by (rule after_andthen) 
qed

end

