(* ===== verification/Datagram.thy ===== *)
theory Datagram
  imports Worker
begin

text \<open>
  The handler of incoming datagrams (\<open>rust/udp.rs\<close>: \<open>datagram_at\<close> and the admission of the
  listener loop). A datagram passes the checks of its form, of the connection and room it names,
  of its tag, of its sequence number and of the packet budget, in this order; then it asks for a
  challenge, confirms one, or is relayed.
\<close>

section \<open>Checks\<close>

definition dg_wellformed :: "server \<Rightarrow> bytes \<Rightarrow> bool" where
  "dg_wellformed s bs \<longleftrightarrow>
     HEADER + TAG \<le> length bs \<and> length bs \<le> limit s ''udpMaxDatagramBytes'' \<and> take 4 bs = magic \<and>
     dg_kind bs \<in> {0, 1, 2} \<and> (dg_kind bs \<noteq> 2 \<longrightarrow> length (dg_payload bs) = 16) \<and>
     (dg_kind bs = 2 \<longrightarrow> dg_payload bs \<noteq> []) \<and>
     (dg_kind bs \<noteq> 2 \<longrightarrow> nil_address (dg_address bs))"

text \<open>
  The connection a datagram names, with its player, the room the player is an active member of,
  and the UDP session of the player's present stay in that room.
\<close>

definition dg_context :: "server \<Rightarrow> nat \<Rightarrow> (connection \<times> player \<times> room \<times> session) option" where
  "dg_context s cid =
     (case conn_of s cid of
        None \<Rightarrow> None
      | Some c \<Rightarrow>
          if c_closing c then None
          else (case Option.bind (c_player c) (player_of s) of
              None \<Rightarrow> None
            | Some pl \<Rightarrow>
                if p_connection pl \<noteq> Some cid then None
                else (case Option.bind (p_room pl) (room_at s) of
                    None \<Rightarrow> None
                  | Some r \<Rightarrow>
                      if p_id pl \<notin> set (r_active r) then None
                      else (case c_udp c of
                          None \<Rightarrow> None
                        | Some u \<Rightarrow>
                            if s_version u = p_version pl then Some (c, pl, r, u) else None))))"

definition dg_authentic :: "externals \<Rightarrow> session \<Rightarrow> bytes \<Rightarrow> bool" where
  "dg_authentic X u bs \<longleftrightarrow> dg_tag bs = x_hmac X (s_secret u) (dg_signed bs)"

section \<open>Answers\<close>

type_synonym packets = "(addr \<times> bytes) list"

definition nil_uuid :: bytes where
  "nil_uuid = replicate 16 0"

text \<open>A packet leaves when the budget of its connection has room and a number is left.\<close>

definition dg_emit :: "externals \<Rightarrow> server \<Rightarrow> nat \<Rightarrow> byte \<Rightarrow> bytes \<Rightarrow> bytes \<Rightarrow> nat \<Rightarrow> addr \<Rightarrow>
    connection \<Rightarrow> session \<Rightarrow> packets \<times> connection" where
  "dg_emit X s cid kind sender payload t address c u =
     (let (ok, rt) = rate_accept t (limit s ''udpOutgoingPacketsPerSecond'') (c_udp_out c);
          c1 = c\<lparr>c_udp := Some u, c_udp_out := rt\<rparr>
      in if \<not> ok then ([], c1)
         else case packet X cid kind sender payload u of
             None \<Rightarrow> ([], c1)
           | Some (u1, b) \<Rightarrow> ([(address, b)], c1\<lparr>c_udp := Some u1\<rparr>))"

definition dg_challenge :: "externals \<Rightarrow> nat \<Rightarrow> addr \<Rightarrow> nat \<Rightarrow> connection \<Rightarrow> session \<Rightarrow> server \<Rightarrow>
    packets \<times> server" where
  "dg_challenge X cid source t c u s =
     (let (challenge, s1) = with_world random_bytes s;
          (out, c1) = dg_emit X s1 cid 3 nil_uuid challenge t source c
                        (u\<lparr>s_challenge := Some (source, challenge, t)\<rparr>)
      in (out, put_conn cid c1 s1))"

definition dg_confirm :: "externals \<Rightarrow> nat \<Rightarrow> addr \<Rightarrow> nat \<Rightarrow> bytes \<Rightarrow> connection \<Rightarrow> session \<Rightarrow>
    server \<Rightarrow> packets \<times> server" where
  "dg_confirm X cid source t payload c u s =
     (case s_challenge u of
        None \<Rightarrow> ([], s)
      | Some (address, challenge, since) \<Rightarrow>
          if address = source \<and> t - since \<le> limit s ''udpChallengeTtlMs'' \<and> payload = challenge
          then
            let (out, c1) = dg_emit X s cid 4 nil_uuid challenge t source c
                              (u\<lparr>s_challenge := None, s_endpoint := Some (source, t)\<rparr>)
            in (out, put_conn cid c1 s)
          else ([], s))"

section \<open>Relay\<close>

text \<open>The connections of the members addressed, each with its player's version.\<close>

definition dg_recipients :: "externals \<Rightarrow> server \<Rightarrow> room \<Rightarrow> string \<Rightarrow> bytes \<Rightarrow> (nat \<times> nat) list" where
  "dg_recipients X s r sender target =
     List.map_filter (\<lambda>i.
       if i \<noteq> sender \<and> (nil_address target \<or> i = x_uuid_text X target)
       then Option.bind (player_of s i)
              (\<lambda>q. map_option (\<lambda>cid. (cid, p_version q)) (p_connection q))
       else None) (r_active r)"

definition dg_deliver :: "externals \<Rightarrow> bytes \<Rightarrow> bytes \<Rightarrow> nat \<Rightarrow> nat \<times> nat \<Rightarrow> packets \<times> server \<Rightarrow>
    packets \<times> server" where
  "dg_deliver X sender payload t = (\<lambda>(recipient, version) (out, s).
     case conn_of s recipient of
       None \<Rightarrow> (out, s)
     | Some c \<Rightarrow>
         if c_closing c then (out, s)
         else case c_udp c of
             None \<Rightarrow> (out, s)
           | Some u \<Rightarrow>
               if s_version u \<noteq> version then (out, s)
               else case s_endpoint u of
                   None \<Rightarrow> (out, s)
                 | Some (address, since) \<Rightarrow>
                     if t - since > limit s ''udpEndpointTtlMs'' then (out, s)
                     else
                       let (ps, c1) = dg_emit X s recipient 5 sender payload t address c u
                       in (out @ ps, put_conn recipient c1 s))"

definition dg_relay :: "externals \<Rightarrow> nat \<Rightarrow> addr \<Rightarrow> nat \<Rightarrow> bytes \<Rightarrow> connection \<Rightarrow> player \<Rightarrow> room \<Rightarrow>
    session \<Rightarrow> server \<Rightarrow> (packets \<times> server) outcome" where
  "dg_relay X cid source t bs c pl r u s =
     (case s_endpoint u of
        None \<Rightarrow> Ret ([], s)
      | Some (address, since) \<Rightarrow>
          if address \<noteq> source \<or> t - since > limit s ''udpEndpointTtlMs'' then Ret ([], s)
          else
            let s1 = put_conn cid (c\<lparr>c_udp := Some (u\<lparr>s_endpoint := Some (source, t)\<rparr>)\<rparr>) s in
            case x_uuid_parse X (p_id pl) of
              None \<Rightarrow> Panic
            | Some sender \<Rightarrow>
                Ret (fold (dg_deliver X sender (dg_payload bs) t)
                       (dg_recipients X s1 r (p_id pl) (dg_address bs)) ([], s1)))"

section \<open>The handler\<close>

text \<open>What follows once the sequence number is accepted; \<open>u\<close> has it in its window.\<close>

definition dg_accepted :: "externals \<Rightarrow> bytes \<Rightarrow> addr \<Rightarrow> nat \<Rightarrow> connection \<Rightarrow> player \<Rightarrow> room \<Rightarrow>
    session \<Rightarrow> server \<Rightarrow> (packets \<times> server) outcome" where
  "dg_accepted X bs source t c pl r u s =
     (let cid = dg_cid bs;
          (ok, rt) = rate_accept t (limit s ''udpIncomingPacketsPerSecond'') (c_udp_in c);
          c1 = c\<lparr>c_udp := Some u, c_udp_in := rt\<rparr>; s1 = put_conn cid c1 s
      in if \<not> ok then Ret ([], s1)
         else if dg_kind bs = 0 then Ret (dg_challenge X cid source t c1 u s1)
         else if dg_kind bs = 1 then Ret (dg_confirm X cid source t (dg_payload bs) c1 u s1)
         else dg_relay X cid source t bs c1 pl r u s1)"

definition datagram_at ::
  "externals \<Rightarrow> bytes \<Rightarrow> addr \<Rightarrow> nat \<Rightarrow> server \<Rightarrow> (packets \<times> server) outcome" where
  "datagram_at X bs source t s =
     (if \<not> dg_wellformed s bs then Ret ([], s)
      else case dg_context s (dg_cid bs) of
          None \<Rightarrow> Ret ([], s)
        | Some (c, pl, r, u) \<Rightarrow>
            if \<not> dg_authentic X u bs then Ret ([], s)
            else
              let (fresh, rp) = replay_accept (dg_sequence bs) (s_replay u) in
              if \<not> fresh then Ret ([], s)
              else dg_accepted X bs source t c pl r (u\<lparr>s_replay := rp\<rparr>) s)"

definition datagram :: "externals \<Rightarrow> bytes \<Rightarrow> addr \<Rightarrow> server \<Rightarrow> (packets \<times> server) outcome" where
  "datagram X bs source s = (let (t, s1) = clock s in datagram_at X bs source t s1)"

text \<open>
  One turn of the listener: what the socket holds is read into a buffer of one byte more than the
  largest datagram, and it is handled when it is not longer and the global budget has room.
\<close>

definition listen :: "externals \<Rightarrow> bytes \<Rightarrow> addr \<Rightarrow> nat \<Rightarrow> rate \<times> server \<Rightarrow>
    (rate \<times> packets \<times> server) outcome" where
  "listen X received source elapsed = (\<lambda>(rt, s).
     let cap = limit s ''udpMaxDatagramBytes''; bs = take (cap + 1) received in
     if length bs > cap then Ret (rt, [], s)
     else
       let (ok, rt1) = rate_accept elapsed (limit s ''udpGlobalPacketsPerSecond'') rt in
       if \<not> ok then Ret (rt1, [], s)
       else case datagram X bs source s of
           Panic \<Rightarrow> Panic | Fail (ps, s1) \<Rightarrow> Fail (rt1, ps, s1) | Ret (ps, s1) \<Rightarrow> Ret (rt1, ps, s1))"

section \<open>What sending packets changes\<close>

text \<open>
  A packet that leaves takes a number of its session and a place in the budget of its connection;
  everything else stays.
\<close>

definition session_kept :: "session \<Rightarrow> session \<Rightarrow> bool" where
  "session_kept u v \<longleftrightarrow> v\<lparr>s_outgoing := s_outgoing u\<rparr> = u"

definition conn_kept :: "connection \<Rightarrow> connection \<Rightarrow> bool" where
  "conn_kept c d \<longleftrightarrow> d\<lparr>c_udp := c_udp c, c_udp_out := c_udp_out c\<rparr> = c \<and>
     rel_option session_kept (c_udp c) (c_udp d)"

definition relayed :: "server \<Rightarrow> server \<Rightarrow> bool" where
  "relayed s t \<longleftrightarrow> t\<lparr>connections := connections s\<rparr> = s \<and>
     keys (connections t) = keys (connections s) \<and>
     (\<forall>cid. rel_option conn_kept (conn_of s cid) (conn_of t cid))"

lemma session_keptD:
  assumes "session_kept u v"
  shows "s_secret v = s_secret u" "s_version v = s_version u" "s_replay v = s_replay u"
    "s_endpoint v = s_endpoint u" "s_challenge v = s_challenge u"
  using assms unfolding session_kept_def by (cases u; cases v; simp)+

lemma session_kept_refl [simp]: "session_kept u u"
  by (simp add: session_kept_def)

lemma session_kept_trans: "session_kept u v \<Longrightarrow> session_kept v w \<Longrightarrow> session_kept u w"
  unfolding session_kept_def by (cases u; cases v; cases w) simp

lemma conn_keptD:
  assumes "conn_kept c d"
  shows "c_player d = c_player c" "c_closing d = c_closing c" "c_outbox d = c_outbox c"
    "c_queued d = c_queued c" "c_udp_in d = c_udp_in c" "c_abort d = c_abort c"
    "rel_option session_kept (c_udp c) (c_udp d)"
  using assms unfolding conn_kept_def by (cases c; cases d; simp)+

lemma conn_kept_refl [simp]: "conn_kept c c"
  by (simp add: conn_kept_def option.rel_refl)

lemma conn_kept_trans:
  assumes "conn_kept c d" "conn_kept d e"
  shows "conn_kept c e"
proof -
  have "rel_option session_kept (c_udp c) (c_udp e)"
    using conn_keptD(7) [OF assms(1)] conn_keptD(7) [OF assms(2)]
    by (cases "c_udp c"; cases "c_udp d"; cases "c_udp e") (auto intro: session_kept_trans)
  with assms show ?thesis unfolding conn_kept_def by (cases c; cases d; cases e) simp
qed

lemma relayed_refl [simp]: "relayed s s"
  by (simp add: relayed_def option.rel_refl)

lemma relayed_trans:
  assumes 1: "relayed s t" and 2: "relayed t u"
  shows "relayed s u"
proof -
  have "rel_option conn_kept (conn_of s cid) (conn_of u cid)" for cid
  proof -
    have "rel_option conn_kept (conn_of s cid) (conn_of t cid)"
      "rel_option conn_kept (conn_of t cid) (conn_of u cid)"
      using assms by (simp_all add: relayed_def)
    then show ?thesis
      by (cases "conn_of s cid"; cases "conn_of t cid"; cases "conn_of u cid")
        (auto intro: conn_kept_trans)
  qed
  moreover have "u\<lparr>connections := connections s\<rparr> = s"
  proof -
    have t: "t\<lparr>connections := connections s\<rparr> = s" and u: "u\<lparr>connections := connections t\<rparr> = t"
      using assms by (simp_all add: relayed_def)
    have "u\<lparr>connections := connections s\<rparr> = (u\<lparr>connections := connections t\<rparr>)\<lparr>connections := connections s\<rparr>"
      by simp
    with t u show ?thesis by simp
  qed
  ultimately show ?thesis using assms by (simp add: relayed_def)
qed

lemma relayed_put_conn:
  assumes "conn_of s cid = Some c" "conn_kept c d"
  shows "relayed s (put_conn cid d s)"
proof -
  have "cid \<in> set (keys (connections s))"
    using assms(1) by (metis map_of_eq_None_iff option.distinct(1) list.set_map)
  then have "keys (AList.update cid d (connections s)) = keys (connections s)"
    by (rule keys_update)
  with assms show ?thesis by (auto simp: relayed_def update_conv' option.rel_refl)
qed

lemma relayed_frame:
  assumes "relayed s t"
  shows "players t = players s" "rooms t = rooms s" "config t = config s" "same_books s t"
proof -
  have t: "t\<lparr>connections := connections s\<rparr> = s" using assms by (simp add: relayed_def)
  have "players (t\<lparr>connections := c\<rparr>) = players t" "rooms (t\<lparr>connections := c\<rparr>) = rooms t"
    "config (t\<lparr>connections := c\<rparr>) = config t" "delayed (t\<lparr>connections := c\<rparr>) = delayed t"
    "store (t\<lparr>connections := c\<rparr>) = store t" for c
    by simp_all
  from this [of "connections s"] have f: "players t = players s" "rooms t = rooms s"
    "config t = config s" and d: "delayed t = delayed s" "store t = store s"
    unfolding t by simp_all
  then show "players t = players s" "rooms t = rooms s" "config t = config s" by simp_all
  have "bound_to t cid = bound_to s cid" for cid
  proof -
    have "rel_option conn_kept (conn_of s cid) (conn_of t cid)" using assms by (simp add: relayed_def)
    then show ?thesis by (cases rule: option.rel_cases) (auto dest: conn_keptD(1))
  qed
  with assms f d show "same_books s t" by (simp add: relayed_def same_books_def fun_eq_iff)
qed

lemma relayed_conn:
  assumes "relayed s t" "conn_of t cid = Some d"
  obtains c where "conn_of s cid = Some c" "conn_kept c d"
proof -
  have "rel_option conn_kept (conn_of s cid) (conn_of t cid)" using assms(1) by (simp add: relayed_def)
  with assms(2) that show thesis by (auto simp: option_rel_Some2)
qed

lemma relayed_conn_fwd:
  assumes "relayed s t" "conn_of s cid = Some c"
  obtains d where "conn_of t cid = Some d" "conn_kept c d"
proof -
  have "rel_option conn_kept (conn_of s cid) (conn_of t cid)" using assms(1) by (simp add: relayed_def)
  with assms(2) that show thesis by (auto simp: option_rel_Some1)
qed

lemma dg_emit_kept:
  assumes "dg_emit X s cid kind sender payload t address c u = (out, d)"
  shows "conn_kept (c\<lparr>c_udp := Some u\<rparr>) d"
  using assms by (auto simp: dg_emit_def packet_def conn_kept_def session_kept_def Let_def
      split: prod.splits if_splits option.splits)

lemma dg_emit_out:
  assumes "dg_emit X s cid kind sender payload t address c u = (out, d)" "(a, b) \<in> set out"
  shows "a = address \<and> (\<exists>n. b = encode X (s_secret u) kind cid n sender payload)"
  using assms by (auto simp: dg_emit_def packet_def Let_def
      split: prod.splits if_splits option.splits)

section \<open>Relayed packets\<close>

text \<open>A packet for a member: to the confirmed endpoint of the member's session, in its key.\<close>

definition reaches :: "externals \<Rightarrow> server \<Rightarrow> nat \<Rightarrow> bytes \<Rightarrow> bytes \<Rightarrow> nat \<times> nat \<Rightarrow> addr \<times> bytes \<Rightarrow> bool" where
  "reaches X s t sender payload = (\<lambda>(cid, version) (a, b).
     \<exists>c u since n. conn_of s cid = Some c \<and> \<not> c_closing c \<and> c_udp c = Some u \<and>
       s_version u = version \<and> s_endpoint u = Some (a, since) \<and>
       t - since \<le> limit s ''udpEndpointTtlMs'' \<and>
       b = encode X (s_secret u) 5 cid n sender payload)"

lemma reaches_back:
  assumes "relayed s t" "reaches X t k sender payload rv ab"
  shows "reaches X s k sender payload rv ab"
proof -
  obtain cid version a b where rv: "rv = (cid, version)" "ab = (a, b)" by (cases rv; cases ab)
  with assms(2) obtain d v since n where d: "conn_of t cid = Some d" "\<not> c_closing d"
      "c_udp d = Some v" "s_version v = version" "s_endpoint v = Some (a, since)"
      "k - since \<le> limit t ''udpEndpointTtlMs''" "b = encode X (s_secret v) 5 cid n sender payload"
    by (auto simp: reaches_def)
  obtain c where c: "conn_of s cid = Some c" "conn_kept c d" using relayed_conn [OF assms(1) d(1)] .
  from conn_keptD(7) [OF c(2)] d(3) obtain u where u: "c_udp c = Some u" "session_kept u v"
    by (auto simp: option_rel_Some2)
  have "config t = config s" by (rule relayed_frame(3) [OF assms(1)])
  with c u d session_keptD [OF u(2)] conn_keptD(2) [OF c(2)] show ?thesis
    unfolding rv reaches_def by auto
qed

lemma dg_deliver_step:
  assumes "dg_deliver X sender payload t rv (out, s) = (out', s')"
  shows "relayed s s' \<and> (\<forall>ab \<in> set out'. ab \<in> set out \<or> reaches X s t sender payload rv ab)"
proof -
  obtain cid version where rv: "rv = (cid, version)" by (cases rv)
  show ?thesis
  proof (cases "\<exists>c u a since. conn_of s cid = Some c \<and> \<not> c_closing c \<and> c_udp c = Some u \<and>
      s_version u = version \<and> s_endpoint u = Some (a, since) \<and> t - since \<le> limit s ''udpEndpointTtlMs''")
    case False
    with assms have "out' = out \<and> s' = s"
      by (auto simp: dg_deliver_def rv split: option.splits if_splits)
    then show ?thesis by simp
  next
    case True
    then obtain c u a since where c: "conn_of s cid = Some c" "\<not> c_closing c" "c_udp c = Some u"
      "s_version u = version" "s_endpoint u = Some (a, since)" "t - since \<le> limit s ''udpEndpointTtlMs''"
      by blast
    obtain ps d where e: "dg_emit X s cid 5 sender payload t a c u = (ps, d)" by fastforce
    have "c\<lparr>c_udp := Some u\<rparr> = c" using c(3) by (cases c) simp
    with dg_emit_kept [OF e] have k: "conn_kept c d" by simp
    from assms c e have r: "out' = out @ ps" "s' = put_conn cid d s"
      by (auto simp: dg_deliver_def rv)
    have "reaches X s t sender payload rv ab" if "ab \<in> set ps" for ab
      using that dg_emit_out [OF e, of "fst ab" "snd ab"] c by (cases ab) (auto simp: reaches_def rv)
    with r relayed_put_conn [OF c(1) k] show ?thesis by auto
  qed
qed

lemma dg_deliver_fold:
  assumes "fold (dg_deliver X sender payload t) rvs (out, s) = (out', s')"
  shows "relayed s s' \<and>
    (\<forall>ab \<in> set out'. ab \<in> set out \<or> (\<exists>rv \<in> set rvs. reaches X s t sender payload rv ab))"
  using assms
proof (induction rvs arbitrary: out s)
  case (Cons rv rvs)
  obtain out1 s1 where 1: "dg_deliver X sender payload t rv (out, s) = (out1, s1)" by fastforce
  note k = dg_deliver_step [OF 1]
  from Cons.prems 1 have "fold (dg_deliver X sender payload t) rvs (out1, s1) = (out', s')" by simp
  from Cons.IH [OF this] have IH: "relayed s1 s'"
    "\<forall>ab \<in> set out'. ab \<in> set out1 \<or> (\<exists>rv \<in> set rvs. reaches X s1 t sender payload rv ab)"
    by blast+
  from IH(2) k show ?case
    using relayed_trans [of s s1 s'] IH(1) reaches_back [of s s1] by (metis list.set_intros)
qed simp

lemma dg_recipients_member:
  assumes "(cid, version) \<in> set (dg_recipients X s r sender target)"
  obtains i q where "i \<in> set (r_active r)" "i \<noteq> sender" "nil_address target \<or> i = x_uuid_text X target"
    "player_of s i = Some q" "p_connection q = Some cid" "p_version q = version"
  using assms by (auto simp: dg_recipients_def List.map_filter_def bind_eq_Some_conv split: if_splits)

section \<open>Sessions across a datagram\<close>

text \<open>Handling a datagram never changes the key, the stay or the replay window of a session.\<close>

definition session_stable :: "session \<Rightarrow> session \<Rightarrow> bool" where
  "session_stable u v \<longleftrightarrow> s_secret v = s_secret u \<and> s_version v = s_version u \<and> s_replay v = s_replay u"

definition conn_stable :: "connection \<Rightarrow> connection \<Rightarrow> bool" where
  "conn_stable c d \<longleftrightarrow> c_closing d = c_closing c \<and> c_player d = c_player c \<and>
     rel_option session_stable (c_udp c) (c_udp d)"

definition stable :: "server \<Rightarrow> server \<Rightarrow> bool" where
  "stable s t \<longleftrightarrow> same_books s t \<and> (\<forall>cid. rel_option conn_stable (conn_of s cid) (conn_of t cid))"

lemma conn_stable_refl [simp]: "conn_stable c c"
  by (auto simp: conn_stable_def session_stable_def intro: option.rel_refl)

lemma rel_conn_stable_refl [simp]: "rel_option conn_stable x x"
  by (simp add: option.rel_refl)

lemma conn_stable_trans: "conn_stable c d \<Longrightarrow> conn_stable d e \<Longrightarrow> conn_stable c e"
  by (cases "c_udp c"; cases "c_udp d"; cases "c_udp e") (auto simp: conn_stable_def session_stable_def)

lemma conn_kept_stable: "conn_kept c d \<Longrightarrow> conn_stable c d"
  using conn_keptD [of c d]
  by (cases "c_udp c"; cases "c_udp d") (auto simp: conn_stable_def session_stable_def dest: session_keptD)

lemma stable_refl [simp]: "stable s s"
  by (auto simp: stable_def intro: option.rel_refl)

lemma stable_trans:
  assumes 1: "stable s t" and 2: "stable t u"
  shows "stable s u"
proof -
  have "rel_option conn_stable (conn_of s cid) (conn_of u cid)" for cid
  proof -
    have "rel_option conn_stable (conn_of s cid) (conn_of t cid)"
      "rel_option conn_stable (conn_of t cid) (conn_of u cid)"
      using assms by (simp_all add: stable_def)
    then show ?thesis
      by (cases "conn_of s cid"; cases "conn_of t cid"; cases "conn_of u cid")
        (auto intro: conn_stable_trans)
  qed
  with assms same_books_trans show ?thesis by (simp add: stable_def) blast
qed

lemma stable_relayed: "relayed s t \<Longrightarrow> stable s t"
  using relayed_frame(4) [of s t]
  by (auto simp: stable_def relayed_def elim!: option.rel_mono_strong conn_kept_stable)

lemma stable_put_conn:
  assumes "conn_of s cid = Some c" "conn_stable c d"
  shows "stable s (put_conn cid d s)"
  using assms same_books_put_conn [OF same_books_refl assms(1), of d]
  by (auto simp: stable_def update_conv' conn_stable_def [of c d] intro: option.rel_refl)

lemma stable_with_world: "with_world f s = (a, t) \<Longrightarrow> stable s t"
  using same_books_with_world [of f s a t]
  by (auto simp: stable_def with_world_def Let_def intro: option.rel_refl split: prod.splits)

lemma dg_emit_stable:
  assumes "dg_emit X s cid kind sender payload t address c v = (out, d)"
    and "c_udp c = Some u" "session_stable u v"
  shows "conn_stable c d"
proof -
  have "conn_stable (c\<lparr>c_udp := Some v\<rparr>) d"
    by (rule conn_kept_stable [OF dg_emit_kept [OF assms(1)]])
  moreover have "conn_stable c (c\<lparr>c_udp := Some v\<rparr>)" using assms(2,3) by (simp add: conn_stable_def)
  ultimately show ?thesis by (rule conn_stable_trans [rotated])
qed

lemma dg_challenge_stable:
  assumes "dg_challenge X cid source t c u s = (out, s')" "conn_of s cid = Some c" "c_udp c = Some u"
  shows "stable s s'"
proof -
  obtain ch s1 where 1: "with_world random_bytes s = (ch, s1)" by fastforce
  let ?u = "u\<lparr>s_challenge := Some (source, ch, t)\<rparr>"
  obtain d where 2: "dg_emit X s1 cid 3 nil_uuid ch t source c ?u = (out, d)" "s' = put_conn cid d s1"
    using assms(1) 1 by (auto simp: dg_challenge_def split: prod.splits)
  have c1: "conn_of s1 cid = Some c" using 1 assms(2) by (auto simp: with_world_def Let_def split: prod.splits)
  have "conn_stable c d" by (rule dg_emit_stable [OF 2(1) assms(3)]) (simp add: session_stable_def)
  from stable_put_conn [OF c1 this] stable_with_world [OF 1] show ?thesis
    unfolding 2(2) by (rule stable_trans [rotated])
qed

lemma dg_confirm_stable:
  assumes "dg_confirm X cid source t payload c u s = (out, s')" "conn_of s cid = Some c" "c_udp c = Some u"
  shows "stable s s'"
proof (cases "s' = s")
  case False
  with assms(1) obtain ch d where 1: "dg_emit X s cid 4 nil_uuid ch t source c
      (u\<lparr>s_challenge := None, s_endpoint := Some (source, t)\<rparr>) = (out, d)" "s' = put_conn cid d s"
    by (auto simp: dg_confirm_def split: option.splits prod.splits if_splits)
  have "conn_stable c d" by (rule dg_emit_stable [OF 1(1) assms(3)]) (simp add: session_stable_def)
  from stable_put_conn [OF assms(2) this] show ?thesis by (simp add: 1)
qed simp

lemma dg_relay_cases:
  assumes "dg_relay X cid source t bs c pl r u s = Ret (out, s')"
  obtains (silent) "out = []" "s' = s"
  | (sent) since sender s1 where "s_endpoint u = Some (source, since)"
      "t - since \<le> limit s ''udpEndpointTtlMs''" "x_uuid_parse X (p_id pl) = Some sender"
      "s1 = put_conn cid (c\<lparr>c_udp := Some (u\<lparr>s_endpoint := Some (source, t)\<rparr>)\<rparr>) s"
      "fold (dg_deliver X sender (dg_payload bs) t)
         (dg_recipients X s1 r (p_id pl) (dg_address bs)) ([], s1) = (out, s')"
proof (cases "\<exists>since. s_endpoint u = Some (source, since) \<and> t - since \<le> limit s ''udpEndpointTtlMs''")
  case False
  with assms have "out = [] \<and> s' = s" by (auto simp: dg_relay_def split: option.splits if_splits)
  then show thesis using silent by simp
next
  case True
  then obtain since where "s_endpoint u = Some (source, since)" "t - since \<le> limit s ''udpEndpointTtlMs''"
    by blast
  moreover from this assms obtain sender where "x_uuid_parse X (p_id pl) = Some sender"
    by (auto simp: dg_relay_def Let_def split: option.splits)
  ultimately show thesis using assms by (intro sent [OF _ _ _ refl]) (auto simp: dg_relay_def Let_def)
qed

lemma dg_relay_stable:
  assumes "dg_relay X cid source t bs c pl r u s = Ret (out, s')" "conn_of s cid = Some c" "c_udp c = Some u"
  shows "stable s s'"
  using assms(1)
proof (cases rule: dg_relay_cases)
  case (sent since sender s1)
  have "conn_stable c (c\<lparr>c_udp := Some (u\<lparr>s_endpoint := Some (source, t)\<rparr>)\<rparr>)"
    using assms(3) by (simp add: conn_stable_def session_stable_def)
  from stable_put_conn [OF assms(2) this] have "stable s s1" by (simp add: sent(4))
  moreover have "stable s1 s'" using dg_deliver_fold [OF sent(5)] stable_relayed by blast
  ultimately show ?thesis by (rule stable_trans)
qed simp

text \<open>The connection as the rest of the handler finds it.\<close>

abbreviation dg_counted :: "server \<Rightarrow> nat \<Rightarrow> connection \<Rightarrow> session \<Rightarrow> connection" where
  "dg_counted s t c u \<equiv> c\<lparr>c_udp := Some u,
     c_udp_in := snd (rate_accept t (limit s ''udpIncomingPacketsPerSecond'') (c_udp_in c))\<rparr>"

lemma dg_accepted_stable:
  assumes "dg_accepted X bs source t c pl r u s = Ret (out, s')" "conn_of s (dg_cid bs) = Some c"
  shows "stable (put_conn (dg_cid bs) (dg_counted s t c u) s) s'"
proof -
  let ?c = "dg_counted s t c u"
  let ?s = "put_conn (dg_cid bs) ?c s"
  have c: "conn_of ?s (dg_cid bs) = Some ?c" "c_udp ?c = Some u" by (simp_all add: update_conv')
  from assms(1) consider "s' = ?s"
    | "dg_challenge X (dg_cid bs) source t ?c u ?s = (out, s')"
    | "dg_confirm X (dg_cid bs) source t (dg_payload bs) ?c u ?s = (out, s')"
    | "dg_relay X (dg_cid bs) source t bs ?c pl r u ?s = Ret (out, s')"
    by (auto simp: dg_accepted_def Let_def split: prod.splits if_splits)
  then show ?thesis
    using dg_challenge_stable [OF _ c] dg_confirm_stable [OF _ c] dg_relay_stable [OF _ c]
    by cases (auto simp del: server.update_convs)
qed

lemma datagram_at_cases:
  assumes "datagram_at X bs source t s = res"
  obtains (dropped) "res = Ret ([], s)"
  | (accepted) c pl r u rp where "dg_wellformed s bs" "dg_context s (dg_cid bs) = Some (c, pl, r, u)"
      "dg_authentic X u bs" "replay_accept (dg_sequence bs) (s_replay u) = (True, rp)"
      "dg_accepted X bs source t c pl r (u\<lparr>s_replay := rp\<rparr>) s = res"
  using assms unfolding datagram_at_def Let_def
  by (auto split: if_splits option.splits prod.splits)

lemma dg_contextD:
  assumes "dg_context s cid = Some (c, pl, r, u)"
  shows "conn_of s cid = Some c" "\<not> c_closing c" "c_udp c = Some u" "s_version u = p_version pl"
    "p_connection pl = Some cid" "p_id pl \<in> set (r_active r)"
    "\<exists>p. c_player c = Some p \<and> player_of s p = Some pl"
    "\<exists>i. p_room pl = Some i \<and> room_at s i = Some r"
  using assms unfolding dg_context_def
  by (auto simp: bind_eq_Some_conv split: option.splits if_splits)

lemma dg_contextI:
  assumes "conn_of s cid = Some c" "\<not> c_closing c" "c_player c = Some p" "player_of s p = Some pl"
    "p_connection pl = Some cid" "p_room pl = Some i" "room_at s i = Some r"
    "p_id pl \<in> set (r_active r)" "c_udp c = Some u" "s_version u = p_version pl"
  shows "dg_context s cid = Some (c, pl, r, u)"
  using assms by (simp add: dg_context_def)

text \<open>A number that was accepted is not accepted again.\<close>

lemma replay_accept_once:
  assumes "replay_accept n r = (True, r1)"
  shows "replay_accept n r1 = (False, r1)"
proof (cases "n > rp_highest r")
  case True
  have b: "bit (if n - rp_highest r \<ge> 64 then 1 else push_bit (unat (n - rp_highest r)) (rp_bits r) OR 1 :: u64) 0"
    by (simp add: bit_or_iff)
  from True assms have r1: "rp_highest r1 = n" "bit (rp_bits r1) 0" "n \<noteq> 0"
    using b by (auto simp: replay_accept_def Let_def split: if_splits)
  then have "rp_bits r1 AND one_shl 0 \<noteq> 0" by (subst and_one_shl) simp_all
  with r1 show ?thesis by (simp add: replay_accept_def Let_def)
next
  case False
  let ?d = "rp_highest r - n"
  from False assms have d: "\<not> 64 \<le> ?d" "n \<noteq> 0" "r1 = r\<lparr>rp_bits := rp_bits r OR one_shl (unat ?d)\<rparr>"
    by (auto simp: replay_accept_def Let_def split: if_splits)
  then have l: "unat ?d < 64" by (simp add: word_le_nat_alt not_le)
  have "rp_bits r1 AND one_shl (unat ?d) \<noteq> 0"
    using l by (subst and_one_shl) (simp_all add: d(3) bit_or_iff bit_one_shl)
  with False d show ?thesis by (simp add: replay_accept_def Let_def)
qed

section \<open>The handler's guarantees\<close>

lemma datagram_at_books:
  assumes "datagram_at X bs source t s = Ret (out, s')"
  shows "same_books s s'"
  using assms
proof (cases rule: datagram_at_cases)
  case (accepted c pl r u rp)
  note c = dg_contextD [OF accepted(2)]
  have "same_books s (put_conn (dg_cid bs) (dg_counted s t c (u\<lparr>s_replay := rp\<rparr>)) s)"
    by (rule same_books_put_conn [OF same_books_refl c(1)]) simp
  moreover have "stable (put_conn (dg_cid bs) (dg_counted s t c (u\<lparr>s_replay := rp\<rparr>)) s) s'"
    by (rule dg_accepted_stable [OF accepted(5) c(1)])
  ultimately show ?thesis unfolding stable_def by (blast intro: same_books_trans)
qed simp

lemma dg_accepted_returns:
  assumes "x_uuid_parse X (p_id pl) \<noteq> None"
  shows "\<exists>out s'. dg_accepted X bs source t c pl r u s = Ret (out, s')"
proof -
  have "\<exists>out s'. dg_relay X cid source t bs d pl r u w = Ret (out, s')" for cid d w
    using assms by (auto simp: dg_relay_def Let_def split: option.split
        intro: prod.exhaust [of "fold f xs a" for f xs a])
  then show ?thesis by (auto simp: dg_accepted_def Let_def split: prod.split)
qed

lemma datagram_at_returns:
  assumes X: "parses X" and wf: "wf_but (X, cf) {} s"
  shows "\<exists>out s'. datagram_at X bs source t s = Ret (out, s')"
proof -
  obtain res where res: "datagram_at X bs source t s = res" by blast
  then show ?thesis
  proof (cases rule: datagram_at_cases)
  case (accepted c pl r u rp)
  from dg_contextD(7) [OF accepted(2)] obtain p where p: "player_of s p = Some pl" by blast
  have "player_ok {} (bound_to s) p pl"
    using wf p books_player [of "{}" "player_of s" "room_at s" "bound_to s" p pl] by (simp add: wf_but_def)
  then have "uuid_text (p_id pl)" using player_okD(1,2) by metis
  from parsesE [OF X this] obtain b where "x_uuid_parse X (p_id pl) = Some b" .
  then have "\<exists>out s'. dg_accepted X bs source t c pl r (u\<lparr>s_replay := rp\<rparr>) s = Ret (out, s')"
    by (intro dg_accepted_returns) simp
  then show ?thesis unfolding accepted(5) res .
  qed (simp add: res)
qed

lemma wf_datagram_at:
  assumes "parses X" "wf_but (X, cf) {} s"
  shows "after (\<lambda>(out, s'). wf_but (X, cf) {} s') (datagram_at X bs source t s)"
proof -
  obtain out s' where r: "datagram_at X bs source t s = Ret (out, s')"
    using datagram_at_returns [OF assms] by blast
  with assms(2) wf_same_books [OF datagram_at_books [OF r]] show ?thesis by simp
qed

lemma wf_datagram:
  assumes "parses X" "wf_but (X, cf) {} s"
  shows "after (\<lambda>(out, s'). wf_but (X, cf) {} s') (datagram X bs source s)"
proof -
  obtain t s1 where t: "clock s = (t, s1)" by fastforce
  have "wf_but (X, cf) {} s1" using assms(2) wf_same_books [OF same_books_clock [OF t]] by simp
  from wf_datagram_at [OF assms(1) this] show ?thesis by (simp add: datagram_def t)
qed

lemma wf_listen:
  assumes "parses X" "wf_but (X, cf) {} s"
  shows "after (\<lambda>(rt, out, s'). wf_but (X, cf) {} s') (listen X bs source e (rt, s))"
proof (cases "datagram X (take (limit s ''udpMaxDatagramBytes'' + 1) bs) source s")
  case Panic
  with wf_datagram [OF assms, of "take (limit s ''udpMaxDatagramBytes'' + 1) bs" source]
  show ?thesis by simp
qed (use wf_datagram [OF assms, of "take (limit s ''udpMaxDatagramBytes'' + 1) bs" source] assms(2)
  in \<open>auto simp: listen_def Let_def simp del: take_Suc split: prod.split\<close>)

lemma datagram_replayed:
  assumes first: "datagram_at X bs source t s = Ret (out, s1)" and out: "out \<noteq> []"
  shows "datagram_at X bs source' t' s1 = Ret ([], s1)"
  using first
proof (cases rule: datagram_at_cases)
  case (accepted c pl r u rp)
  let ?u = "u\<lparr>s_replay := rp\<rparr>"
  let ?s = "put_conn (dg_cid bs) (dg_counted s t c ?u) s"
  note c = dg_contextD [OF accepted(2)]
  have st: "stable ?s s1" by (rule dg_accepted_stable [OF accepted(5) c(1)])
  have "rel_option conn_stable (conn_of ?s (dg_cid bs)) (conn_of s1 (dg_cid bs))"
    using st unfolding stable_def by blast
  then obtain d where d: "conn_of s1 (dg_cid bs) = Some d" "conn_stable (dg_counted s t c ?u) d"
    by (auto simp: update_conv' option_rel_Some1)
  then obtain v where v: "c_udp d = Some v" "session_stable ?u v"
    by (auto simp: conn_stable_def option_rel_Some1)
  have sb: "players s1 = players s" "rooms s1 = rooms s" "config s1 = config s"
    using datagram_at_books [OF first] by (simp_all add: same_books_def)
  from c(7,8) obtain p i where "c_player c = Some p" "player_of s p = Some pl"
    "p_room pl = Some i" "room_at s i = Some r" by blast
  with d v c(2,4,5,6) sb have "dg_context s1 (dg_cid bs) = Some (d, pl, r, v)"
    by (intro dg_contextI) (auto simp: conn_stable_def session_stable_def)
  moreover have "dg_authentic X v bs" using accepted(3) v(2) by (simp add: dg_authentic_def session_stable_def)
  moreover have "replay_accept (dg_sequence bs) (s_replay v) = (False, rp)"
    using replay_accept_once [OF accepted(4)] v(2) by (simp add: session_stable_def)
  moreover have "dg_wellformed s1 bs" using accepted(1) sb by (simp add: dg_wellformed_def)
  ultimately show ?thesis by (simp add: datagram_at_def)
qed (use out in simp)

text \<open>The packets a datagram is answered with when it is relayed.\<close>

lemma dg_out_relay:
  assumes "dg_accepted X bs source t c pl r u s = Ret (out, s')" "dg_kind bs = 2" "(a, b) \<in> set out"
  obtains s1 d sender rv where
    "s1 = put_conn (dg_cid bs) d s" "x_uuid_parse X (p_id pl) = Some sender"
    "rv \<in> set (dg_recipients X s r (p_id pl) (dg_address bs))"
    "reaches X s1 t sender (dg_payload bs) rv (a, b)"
proof -
  let ?c = "dg_counted s t c u"
  from assms have "dg_relay X (dg_cid bs) source t bs ?c pl r u (put_conn (dg_cid bs) ?c s) = Ret (out, s')"
    by (auto simp: dg_accepted_def Let_def split: prod.splits if_splits)
  then show thesis
  proof (cases rule: dg_relay_cases)
    case (sent since sender s1)
    let ?d = "?c\<lparr>c_udp := Some (u\<lparr>s_endpoint := Some (source, t)\<rparr>)\<rparr>"
    have p: "s1 = put_conn (dg_cid bs) ?d s" using sent(4) by (simp add: update_Some_unfold)
    have "players s1 = players s" using p by simp
    then have "dg_recipients X s1 r (p_id pl) (dg_address bs) = dg_recipients X s r (p_id pl) (dg_address bs)"
      unfolding dg_recipients_def by (simp only:)
    with dg_deliver_fold [OF sent(5)] assms(3) p sent(3) that show thesis by fastforce
  qed (use assms(3) in simp)
qed

lemma datagram_confined:
  assumes wf: "wf_but (X, cf) {} s" and r: "datagram_at X bs source t s = Ret (out, s')"
    and "dg_kind bs = 2" and ab: "(a, b) \<in> set out"
  shows "\<exists>c pl r u i q cid sender. dg_context s (dg_cid bs) = Some (c, pl, r, u) \<and>
    dg_authentic X u bs \<and> i \<in> set (r_active r) \<and> i \<noteq> p_id pl \<and>
    (nil_address (dg_address bs) \<or> i = x_uuid_text X (dg_address bs)) \<and>
    player_of s i = Some q \<and> p_connection q = Some cid \<and> x_uuid_parse X (p_id pl) = Some sender \<and>
    reaches X s t sender (dg_payload bs) (cid, p_version q) (a, b)"
  using r
proof (cases rule: datagram_at_cases)
  case (accepted c pl r u rp)
  obtain s1 d sender rv where o: "s1 = put_conn (dg_cid bs) d s" "x_uuid_parse X (p_id pl) = Some sender"
    "rv \<in> set (dg_recipients X s r (p_id pl) (dg_address bs))"
    "reaches X s1 t sender (dg_payload bs) rv (a, b)"
    using dg_out_relay [OF accepted(5) assms(3) ab] .
  obtain cid version where rv: "rv = (cid, version)" by (cases rv)
  obtain i q where i: "i \<in> set (r_active r)" "i \<noteq> p_id pl"
      "nil_address (dg_address bs) \<or> i = x_uuid_text X (dg_address bs)"
      "player_of s i = Some q" "p_connection q = Some cid" "p_version q = version"
    using dg_recipients_member [OF o(3) [unfolded rv]] .
  note c = dg_contextD [OF accepted(2)]
  obtain p where p: "c_player c = Some p" "player_of s p = Some pl" using c(7) by blast
  have ok: "player_ok {} (bound_to s) j ql" if "player_of s j = Some ql" for j ql
    using wf that books_player [of "{}" "player_of s" "room_at s" "bound_to s" j ql]
    by (simp add: wf_but_def)
  have "bound_to s cid = Some (Some i)" by (rule player_okD(3) [OF ok [OF i(4)] i(5)])
  moreover have "p_id pl = p" by (rule player_okD(1) [OF ok [OF p(2)]])
  ultimately have "cid \<noteq> dg_cid bs" using i(2) c(1) p(1) by auto
  with o(1,4) have "reaches X s t sender (dg_payload bs) (cid, version) (a, b)"
    by (simp add: rv reaches_def update_conv')
  with accepted(2,3) i o(2) show ?thesis by blast
qed (use ab in simp)

section \<open>Endpoints\<close>

definition endpoint_of :: "connection \<Rightarrow> addr option" where
  "endpoint_of c = Option.bind (c_udp c) (\<lambda>u. map_option fst (s_endpoint u))"

definition no_new_endpoint :: "server \<Rightarrow> server \<Rightarrow> bool" where
  "no_new_endpoint s t \<longleftrightarrow> (\<forall>cid d a. conn_of t cid = Some d \<and> endpoint_of d = Some a \<longrightarrow>
     (\<exists>c. conn_of s cid = Some c \<and> endpoint_of c = Some a))"

lemma no_new_endpoint_refl [simp]: "no_new_endpoint s s"
  by (simp add: no_new_endpoint_def)

lemma no_new_endpoint_trans: "no_new_endpoint s t \<Longrightarrow> no_new_endpoint t u \<Longrightarrow> no_new_endpoint s u"
  unfolding no_new_endpoint_def by blast

lemma conn_kept_endpoint: "conn_kept c d \<Longrightarrow> endpoint_of d = endpoint_of c"
  using conn_keptD(7) [of c d]
  by (cases "c_udp c"; cases "c_udp d") (auto simp: endpoint_of_def dest: session_keptD)

lemma no_new_endpoint_relayed:
  assumes "relayed s t"
  shows "no_new_endpoint s t"
  unfolding no_new_endpoint_def
proof (intro allI impI)
  fix cid d a
  assume d: "conn_of t cid = Some d \<and> endpoint_of d = Some a"
  then obtain c where "conn_of s cid = Some c" "conn_kept c d" using relayed_conn [OF assms] by blast
  with d conn_kept_endpoint show "\<exists>c. conn_of s cid = Some c \<and> endpoint_of c = Some a" by fastforce
qed

lemma no_new_endpoint_put_conn:
  "conn_of s cid = Some c \<Longrightarrow> endpoint_of d = endpoint_of c \<Longrightarrow> no_new_endpoint s (put_conn cid d s)"
  by (auto simp: no_new_endpoint_def update_conv')

lemma no_new_endpoint_with_world: "with_world f s = (a, t) \<Longrightarrow> no_new_endpoint s t"
  by (auto simp: no_new_endpoint_def with_world_def Let_def split: prod.splits)

lemma dg_challenge_endpoint:
  assumes "dg_challenge X cid source t c u s = (out, s')" "conn_of s cid = Some c" "c_udp c = Some u"
  shows "no_new_endpoint s s'"
proof -
  obtain ch s1 where 1: "with_world random_bytes s = (ch, s1)" by fastforce
  let ?u = "u\<lparr>s_challenge := Some (source, ch, t)\<rparr>"
  obtain d where 2: "dg_emit X s1 cid 3 nil_uuid ch t source c ?u = (out, d)" "s' = put_conn cid d s1"
    using assms(1) 1 by (auto simp: dg_challenge_def split: prod.splits)
  have c1: "conn_of s1 cid = Some c" using 1 assms(2) by (auto simp: with_world_def Let_def split: prod.splits)
  have "endpoint_of d = endpoint_of c"
    using conn_kept_endpoint [OF dg_emit_kept [OF 2(1)]] assms(3) by (simp add: endpoint_of_def)
  from no_new_endpoint_put_conn [OF c1 this] no_new_endpoint_with_world [OF 1] show ?thesis
    unfolding 2(2) by (rule no_new_endpoint_trans [rotated])
qed

lemma dg_relay_endpoint:
  assumes "dg_relay X cid source t bs c pl r u s = Ret (out, s')" "conn_of s cid = Some c" "c_udp c = Some u"
  shows "no_new_endpoint s s'"
  using assms(1)
proof (cases rule: dg_relay_cases)
  case (sent since sender s1)
  have "no_new_endpoint s s1"
    using no_new_endpoint_put_conn [OF assms(2)] assms(3) sent(1,4) by (simp add: endpoint_of_def)
  moreover have "no_new_endpoint s1 s'"
    using dg_deliver_fold [OF sent(5)] no_new_endpoint_relayed by blast
  ultimately show ?thesis by (rule no_new_endpoint_trans)
qed simp

text \<open>A challenge is answered: by its payload, from the address it was sent to, in time.\<close>

definition answers :: "externals \<Rightarrow> bytes \<Rightarrow> addr \<Rightarrow> nat \<Rightarrow> server \<Rightarrow> bool" where
  "answers X bs source t s \<longleftrightarrow> dg_kind bs = 1 \<and>
     (case dg_context s (dg_cid bs) of None \<Rightarrow> False
      | Some (c, pl, r, u) \<Rightarrow> dg_authentic X u bs \<and>
          (\<exists>since. s_challenge u = Some (source, dg_payload bs, since) \<and>
             t - since \<le> limit s ''udpChallengeTtlMs''))"

lemma dg_confirm_endpoint:
  assumes "dg_confirm X cid source t payload c u s = (out, s')" "conn_of s cid = Some c" "c_udp c = Some u"
    and "conn_of s' j = Some d" "endpoint_of d = Some a"
  shows "(\<exists>c. conn_of s j = Some c \<and> endpoint_of c = Some a) \<or>
    (j = cid \<and> a = source \<and> (\<exists>since. s_challenge u = Some (source, payload, since) \<and>
       t - since \<le> limit s ''udpChallengeTtlMs''))"
proof (cases "s' = s")
  case False
  with assms(1) obtain since e where 1: "s_challenge u = Some (source, payload, since)"
      "t - since \<le> limit s ''udpChallengeTtlMs''"
      "dg_emit X s cid 4 nil_uuid payload t source c
        (u\<lparr>s_challenge := None, s_endpoint := Some (source, t)\<rparr>) = (out, e)" "s' = put_conn cid e s"
    by (auto simp: dg_confirm_def split: option.splits prod.splits if_splits)
  have "endpoint_of e = Some source"
    using conn_kept_endpoint [OF dg_emit_kept [OF 1(3)]] by (simp add: endpoint_of_def)
  with assms(4,5) 1 show ?thesis by (auto simp: update_conv' split: if_splits)
qed (use assms in auto)

lemma datagram_endpoint:
  assumes r: "datagram_at X bs source t s = Ret (out, s')"
    and j: "conn_of s' j = Some d" "endpoint_of d = Some a"
  shows "(\<exists>c. conn_of s j = Some c \<and> endpoint_of c = Some a) \<or>
    (j = dg_cid bs \<and> a = source \<and> answers X bs source t s)"
  using r
proof (cases rule: datagram_at_cases)
  case dropped
  with j show ?thesis by auto
next
  case (accepted c pl r u rp)
  let ?u = "u\<lparr>s_replay := rp\<rparr>"
  let ?c = "dg_counted s t c ?u"
  let ?s = "put_conn (dg_cid bs) ?c s"
  note c = dg_contextD [OF accepted(2)]
  have s: "no_new_endpoint s ?s"
    by (rule no_new_endpoint_put_conn [OF c(1)]) (simp add: endpoint_of_def c(3))
  have c1: "conn_of ?s (dg_cid bs) = Some ?c" "c_udp ?c = Some ?u" by (simp_all add: update_conv')
  from accepted(5) consider "s' = ?s"
    | "dg_challenge X (dg_cid bs) source t ?c ?u ?s = (out, s')"
    | "dg_kind bs = 1" "dg_confirm X (dg_cid bs) source t (dg_payload bs) ?c ?u ?s = (out, s')"
    | "dg_relay X (dg_cid bs) source t bs ?c pl r ?u ?s = Ret (out, s')"
    by (auto simp: dg_accepted_def Let_def split: prod.splits if_splits)
  then consider "no_new_endpoint ?s s'"
    | "dg_kind bs = 1" "dg_confirm X (dg_cid bs) source t (dg_payload bs) ?c ?u ?s = (out, s')"
    using dg_challenge_endpoint [OF _ c1] dg_relay_endpoint [OF _ c1] no_new_endpoint_refl by metis
  then show ?thesis
  proof cases
    case 1
    with s have "no_new_endpoint s s'" by (rule no_new_endpoint_trans)
    with j show ?thesis unfolding no_new_endpoint_def by blast
  next
    case 3: 2
    from dg_confirm_endpoint [OF 3(2) c1 j]
    consider e where "conn_of ?s j = Some e" "endpoint_of e = Some a"
      | since where "j = dg_cid bs" "a = source" "s_challenge u = Some (source, dg_payload bs, since)"
          "t - since \<le> limit s ''udpChallengeTtlMs''" by auto
    then show ?thesis
    proof cases
      case 1
      with s show ?thesis unfolding no_new_endpoint_def by blast
    next
      case 2
      with 3(1) accepted(2,3) show ?thesis by (auto simp: answers_def)
    qed
  qed
qed

text \<open>What has an effect passed every check.\<close>

lemma datagram_effect:
  assumes "datagram_at X bs source t s \<noteq> Ret ([], s)"
  obtains c pl r u where "dg_wellformed s bs" "dg_context s (dg_cid bs) = Some (c, pl, r, u)"
    "dg_authentic X u bs" "fst (replay_accept (dg_sequence bs) (s_replay u))"
proof -
  obtain res where res: "datagram_at X bs source t s = res" by blast
  then show thesis
    by (cases rule: datagram_at_cases) (use assms that res in auto)
qed

end
