(* ===== verification/Push.thy ===== *)
theory Push
  imports Commands Saved
begin

text \<open>
  The push sender (\<open>rust/push.rs\<close>). It is a task of its own: between two of its queries the state
  worker may run any other command. A step of the task below is one query, or the answer of the
  push service, so a run interleaves them with everything else. The provider of access tokens and
  the HTTP client are outside; what a request answers is an input of the step.
\<close>

section \<open>The requests\<close>

definition push_text :: "json \<Rightarrow> json \<Rightarrow> json" where
  "push_text job device =
     (let localized = idx (idx job ''translations'') (str_or ''en'' (idx device ''language''))
      in if is_object localized then localized else job)"

definition push_notice :: "string \<Rightarrow> json \<Rightarrow> json \<Rightarrow> json" where
  "push_notice room_id job device =
     (let t = push_text job device in
      JObj [(''title'', idx t ''title''), (''body'', idx t ''body''), (''roomId'', JStr room_id),
            (''eventId'', idx job ''eventId'')])"

text \<open>The body of a request, for the push service or for the test address.\<close>

definition push_body :: "bool \<Rightarrow> string \<Rightarrow> json \<Rightarrow> json" where
  "push_body provider token n =
     (if provider then
        JObj [(''message'', JObj [(''token'', JStr token),
          (''notification'', JObj [(''title'', idx n ''title''), (''body'', idx n ''body'')]),
          (''data'', JObj [(''roomId'', idx n ''roomId''), (''eventId'', idx n ''eventId'')]),
          (''android'', JObj [(''priority'', JStr ''high''), (''ttl'', JStr ''300s''),
             (''collapse_key'', idx n ''roomId''),
             (''notification'', JObj [(''channel_id'', JStr ''game_updates''),
                (''tag'', idx n ''roomId''), (''title'', idx n ''title''),
                (''body'', idx n ''body'')])])])]
      else JObj [(''token'', JStr token), (''notification'', n)])"

text \<open>
  What \<open>send\<close> returns for a response: delivered, the token is no longer valid, or an error
  (\<^const>\<open>None\<close>). A body that is not JSON counts as null.
\<close>

definition push_result :: "bool \<Rightarrow> json \<Rightarrow> bool option" where
  "push_result success v =
     (if success then Some (idx v ''result'' \<noteq> JStr ''invalid'')
      else if list_ex (\<lambda>e. idx e ''errorCode'' = JStr ''UNREGISTERED'')
                      (elems (idx (idx v ''error'') ''details''))
      then Some False else None)"

section \<open>The queries\<close>

definition due :: "nat \<Rightarrow> json \<Rightarrow> bool" where
  "due t j \<longleftrightarrow> nat_or 0 (idx j ''at'') \<le> t \<and> nat_or 0 (idx j ''retryAt'') \<le> t"

definition due_jobs :: "nat \<Rightarrow> server \<Rightarrow> (string \<times> json) list" where
  "due_jobs t s =
     concat (map (\<lambda>(i, js). map (Pair i) (filter (due t) js)) (st_jobs (store s)))"

definition find_player :: "externals \<Rightarrow> string \<Rightarrow> server \<Rightarrow> player option \<times> server" where
  "find_player X i s =
     (case player_of s i of
        Some pl \<Rightarrow> (Some pl, s)
      | None \<Rightarrow>
          let (r, s1) = with_world (\<lambda>w. account X i (store s, w)) s
          in (case r of Some (Some pl) \<Rightarrow> Some pl | _ \<Rightarrow> None, s1))"

definition same_job :: "json \<Rightarrow> json \<Rightarrow> bool" where
  "same_job job j \<longleftrightarrow> idx j ''eventId'' = idx job ''eventId'' \<and> idx j ''at'' = idx job ''at''"

definition job_current :: "string \<Rightarrow> json \<Rightarrow> server \<Rightarrow> bool" where
  "job_current room_id job s =
     (case map_of (st_jobs (store s)) room_id of
        None \<Rightarrow> False | Some js \<Rightarrow> list_ex (same_job job) js)"

text \<open>\<open>p.devices.shift_remove\<close> where the token is still the one the request was for.\<close>

definition forget_device :: "externals \<Rightarrow> string \<Rightarrow> string \<Rightarrow> json \<Rightarrow> server \<Rightarrow> server" where
  "forget_device X i device token s =
     (let (found, s1) = find_player X i s in
      case found of
        None \<Rightarrow> s1
      | Some pl \<Rightarrow>
          (case map_of (p_devices pl) device of
             None \<Rightarrow> s1
           | Some d \<Rightarrow>
               if idx d ''token'' \<noteq> token then s1
               else
                 let q = pl\<lparr>p_devices := AList.delete device (p_devices pl)\<rparr>;
                     (saved, s2) = with_store (save_account X q) s1
                 in if player_of s2 i \<noteq> None then put_player i q s2 else s2))"

text \<open>
  \<open>j[k]\<close> where \<open>j\<close> is borrowed to be changed: it panics unless \<open>j\<close> is an object or null.
\<close>

definition field_mut :: "json \<Rightarrow> string \<Rightarrow> (json \<Rightarrow> json) \<Rightarrow> json option" where
  "field_mut j k f = (if is_object j \<or> j = JNull then Some (setk k (f (idx j k)) j) else None)"

definition push_key :: "string \<Rightarrow> json \<Rightarrow> json" where
  "push_key key v = (case as_array v of Some ks \<Rightarrow> JArr (ks @ [JStr key]) | None \<Rightarrow> v)"

definition position :: "(json \<Rightarrow> bool) \<Rightarrow> json list \<Rightarrow> nat option" where
  "position P js = (if list_ex P js then Some (length (takeWhile (\<lambda>j. \<not> P j) js)) else None)"

definition mark_done :: "string \<Rightarrow> json \<Rightarrow> string \<Rightarrow> server \<Rightarrow> server outcome" where
  "mark_done room_id job key s =
     (let st = store s in
      case map_of (st_jobs st) room_id of
        None \<Rightarrow> Ret s
      | Some js \<Rightarrow>
          (case position (same_job job) js of
             None \<Rightarrow> Ret s
           | Some n \<Rightarrow>
               (case field_mut (js ! n) ''done'' (push_key key) of
                  None \<Rightarrow> Panic
                | Some j \<Rightarrow>
                    Ret (s\<lparr>store := st\<lparr>st_jobs := AList.update room_id (js[n := j]) (st_jobs st)\<rparr>\<rparr>))))"

definition record_delivery ::
  "externals \<Rightarrow> string \<Rightarrow> json \<Rightarrow> string \<Rightarrow> string \<Rightarrow> json \<Rightarrow> bool \<Rightarrow> server \<Rightarrow> server outcome" where
  "record_delivery X room_id job i device token invalid s =
     mark_done room_id job (i @ '':'' @ device)
       (if invalid then forget_device X i device token s else s)"

definition keep_jobs :: "externals \<Rightarrow> string \<Rightarrow> json list \<Rightarrow> server \<Rightarrow> server" where
  "keep_jobs X room_id js s =
     (let st = store s in
      if st_enabled st then snd (with_store (set_jobs X room_id js) s)
      else if js = [] then s\<lparr>store := st\<lparr>st_jobs := AList.delete room_id (st_jobs st)\<rparr>\<rparr>
      else s\<lparr>store := st\<lparr>st_jobs := AList.update room_id js (st_jobs st)\<rparr>\<rparr>)"

definition finish_job :: "externals \<Rightarrow> string \<Rightarrow> json \<Rightarrow> bool \<Rightarrow> server \<Rightarrow> server outcome" where
  "finish_job X room_id job failed s =
     (case map_of (st_jobs (store s)) room_id of
        None \<Rightarrow> Ret s
      | Some js \<Rightarrow>
          (case position (same_job job) js of
             None \<Rightarrow> Ret s
           | Some n \<Rightarrow>
               if \<not> failed \<and> idx job ''scheduled'' \<noteq> JBool True
               then Ret (keep_jobs X room_id (take n js @ drop (Suc n) js) s)
               else
                 let (retry, s1) = (if failed then map_prod ((+) 30000) id (clock s) else (NEVER, s))
                 in case field_mut (js ! n) ''retryAt'' (\<lambda>_. jnat retry) of
                      None \<Rightarrow> Panic
                    | Some j \<Rightarrow> Ret (keep_jobs X room_id (js[n := j]) s1)))"

section \<open>The task\<close>

text \<open>
  Where the task is: between two passes; about to take the next of the due jobs, the next player a
  job is for, or the next device of that player; waiting for the push service; or about to record
  what it answered. Every collection is the copy the task made when it asked for it.
\<close>

record pass =
  ps_rest :: "(string \<times> json) list"
  ps_room :: string
  ps_job :: json
  ps_failed :: bool
  ps_targets :: "json list"

record addressee =
  ad_id :: string
  ad_online :: bool
  ad_room :: "string option"
  ad_devices :: "(string, json) imap"

datatype push_task =
    Waiting
  | NextJob "(string \<times> json) list"
  | NextPlayer pass
  | NextDevice pass addressee
  | Posting pass addressee string json
  | Recording pass addressee string json bool

definition already_done :: "json \<Rightarrow> string \<Rightarrow> string \<Rightarrow> bool" where
  "already_done job i device \<longleftrightarrow> JStr (i @ '':'' @ device) \<in> set (elems (idx job ''done''))"

definition in_foreground :: "pass \<Rightarrow> addressee \<Rightarrow> json \<Rightarrow> bool" where
  "in_foreground ps ad device \<longleftrightarrow>
     ad_online ad \<and> idx device ''foreground'' = JBool True \<and> ad_room ad = Some (ps_room ps)"

definition next_player :: "externals \<Rightarrow> pass \<Rightarrow> server \<Rightarrow> (push_task \<times> server) outcome" where
  "next_player X ps s =
     (case ps_targets ps of
        [] \<Rightarrow> map_outcome (Pair (NextJob (ps_rest ps)))
                (finish_job X (ps_room ps) (ps_job ps) (ps_failed ps) s)
      | v # vs \<Rightarrow>
          let ps1 = ps\<lparr>ps_targets := vs\<rparr> in
          (case as_str v of
             None \<Rightarrow> Ret (NextPlayer ps1, s)
           | Some i \<Rightarrow>
               let (found, s1) = find_player X i s in
               case found of
                 None \<Rightarrow> Ret (NextPlayer ps1, s1)
               | Some pl \<Rightarrow>
                   Ret (NextDevice ps1 \<lparr>ad_id = i, ad_online = (p_connection pl \<noteq> None),
                          ad_room = p_room pl, ad_devices = p_devices pl\<rparr>, s1)))"

definition next_device :: "pass \<Rightarrow> addressee \<Rightarrow> server \<Rightarrow> push_task" where
  "next_device ps ad s =
     (case ad_devices ad of
        [] \<Rightarrow> NextPlayer ps
      | (device_id, device) # ds \<Rightarrow>
          let ad1 = ad\<lparr>ad_devices := ds\<rparr> in
          if already_done (ps_job ps) (ad_id ad) device_id then NextDevice ps ad1
          else if \<not> job_current (ps_room ps) (ps_job ps) s then NextPlayer ps
          else if in_foreground ps ad device
          then Recording ps ad1 device_id (idx device ''token'') False
          else Posting ps ad1 device_id device)"

text \<open>What the task posts when it waits for the service, and what it makes of the response.\<close>

fun request :: "bool \<Rightarrow> push_task \<Rightarrow> json option" where
  "request provider (Posting ps ad device_id device) =
     Some (push_body provider (str_or '''' (idx device ''token''))
             (push_notice (ps_room ps) (ps_job ps) device))"
| "request provider _ = None"

type_synonym response = "(bool \<times> json) option"

definition sent :: "response \<Rightarrow> bool option" where
  "sent answer = Option.bind answer (\<lambda>(success, v). push_result success v)"

fun push_step :: "externals \<Rightarrow> response \<Rightarrow> push_task \<times> server \<Rightarrow> (push_task \<times> server) outcome" where
  "push_step X answer (Waiting, s) =
     (let (t, s1) = clock s in Ret (NextJob (due_jobs t s1), s1))"
| "push_step X answer (NextJob [], s) = Ret (Waiting, s)"
| "push_step X answer (NextJob ((room_id, job) # rest), s) =
     Ret (NextPlayer \<lparr>ps_rest = rest, ps_room = room_id, ps_job = job, ps_failed = False,
            ps_targets = elems (idx job ''to'')\<rparr>, s)"
| "push_step X answer (NextPlayer ps, s) = next_player X ps s"
| "push_step X answer (NextDevice ps ad, s) = Ret (next_device ps ad s, s)"
| "push_step X answer (Posting ps ad device_id device, s) =
     (case sent answer of
        None \<Rightarrow> Ret (NextDevice (ps\<lparr>ps_failed := True\<rparr>) ad, s)
      | Some valid \<Rightarrow> Ret (Recording ps ad device_id (idx device ''token'') (\<not> valid), s))"
| "push_step X answer (Recording ps ad device_id token invalid, s) =
     map_outcome (Pair (NextDevice ps ad))
       (record_delivery X (ps_room ps) (ps_job ps) (ad_id ad) device_id token invalid s)"

section \<open>Notices of \<open>notifyPlayers\<close>\<close>

definition take_legacy :: "server \<Rightarrow> legacy_push list \<times> server" where
  "take_legacy s = (legacy_pushes s, s\<lparr>legacy_pushes := []\<rparr>)"

definition legacy_done :: "externals \<Rightarrow> legacy_push \<Rightarrow> response \<Rightarrow> server \<Rightarrow> server" where
  "legacy_done X job answer s =
     (let s1 = s\<lparr>pushes_in_flight := pushes_in_flight s - 1\<rparr>;
          s2 = (case (sent answer, player_of s1 (lp_player job)) of
                  (Some False, Some pl) \<Rightarrow>
                    (case map_of (p_devices pl) (lp_device job) of
                       None \<Rightarrow> s1
                     | Some d \<Rightarrow>
                         if idx d ''token'' = JStr (lp_token job)
                         then put_player (lp_player job)
                                (pl\<lparr>p_devices := AList.delete (lp_device job) (p_devices pl)\<rparr>) s1
                         else s1)
                | _ \<Rightarrow> s1)
      in emit X (if sent answer \<noteq> None then ''push.delivery'' else ''push.delivery_failed'') (JObj []) s2)"

section \<open>Every step keeps the invariant\<close>

lemma position_Some:
  assumes "position P js = Some n"
  shows "n < length js" "P (js ! n)" "\<And>m. m < n \<Longrightarrow> \<not> P (js ! m)"
proof -
  from assms have ex: "list_ex P js" and n: "n = length (takeWhile (\<lambda>j. \<not> P j) js)"
    by (auto simp: position_def split: if_splits)
  then obtain j where "j \<in> set js" "P j" by (auto simp: list_ex_iff)
  then have "takeWhile (\<lambda>j. \<not> P j) js \<noteq> js" by (metis takeWhile_eq_all_conv)
  then show l: "n < length js"
    unfolding n by (metis length_takeWhile_le le_neq_implies_less takeWhile_eq_take take_all order_refl)
  show "P (js ! n)" using nth_length_takeWhile [of "\<lambda>j. \<not> P j" js] l n by simp
  show "\<not> P (js ! m)" if "m < n" for m
    using that unfolding n by (metis (mono_tags) set_takeWhileD takeWhile_nth nth_mem)
qed

lemma position_None: "position P js = None \<longleftrightarrow> \<not> list_ex P js"
  by (simp add: position_def)

lemma imap_ok_add_devices: "imap_ok ds \<Longrightarrow> imap_ok (fold add_device vs ds)"
  by (induction vs arbitrary: ds) (auto simp: add_device_def split: option.split)

lemma account_devices:
  assumes "account X i (st, w) = (Some (Some pl), w')"
  shows "imap_ok (p_devices pl)"
proof -
  from assms obtain n w2 q w3 vs where q: "player_new X n w2 = (q, w3)"
    and pl: "p_devices pl = fold add_device vs (p_devices q)"
    unfolding account_def by (auto simp: Let_def split: if_splits option.splits prod.splits)
  then show ?thesis by (simp add: player_new_fields(6) [OF q] imap_ok_add_devices)
qed

lemma find_player_cases:
  assumes "find_player X i s = (found, t)"
  obtains pl where "player_of s i = Some pl" "found = Some pl" "t = s"
  | w where "player_of s i = None" "t = s\<lparr>world := w\<rparr>"
      "\<And>pl. found = Some pl \<Longrightarrow> imap_ok (p_devices pl)"
proof (cases "player_of s i")
  case None
  obtain r w where r: "account X i (store s, world s) = (r, w)" by fastforce
  with None assms have "t = s\<lparr>world := w\<rparr>" "found = Some pl \<Longrightarrow> r = Some (Some pl)" for pl
    by (auto simp: find_player_def with_world_def split: option.splits)
  with None r account_devices show thesis by (intro that(2)) auto
next
  case (Some pl)
  with assms show thesis by (intro that(1) [OF Some]) (simp_all add: find_player_def)
qed

lemma find_player_same_books: "find_player X i s = (found, t) \<Longrightarrow> same_books s t"
  by (erule find_player_cases) simp_all

lemma find_player_devices:
  assumes "find_player X i s = (Some pl, t)" "wf_but (X, cf) {} s"
  shows "imap_ok (p_devices pl)"
  using assms(1)
proof (cases rule: find_player_cases)
  case (1 q)
  have "books {} (player_of s) (room_at s) (bound_to s)" using assms(2) by (simp add: wf_but_def)
  from player_okD(4) [OF books_player [OF this 1(1)]] 1(2) show ?thesis by (simp add: devices_ok_def)
qed simp

lemma forget_device_cases:
  assumes "forget_device X i device token s = t"
  obtains "same_books s t"
  | pl d s2 where "player_of s i = Some pl" "map_of (p_devices pl) device = Some d"
      "idx d ''token'' = token" "same_books s s2"
      "t = put_player i (pl\<lparr>p_devices := AList.delete device (p_devices pl)\<rparr>) s2"
proof -
  obtain found s1 where f: "find_player X i s = (found, s1)" by fastforce
  note k = find_player_same_books [OF f]
  show thesis
  proof (cases "\<exists>pl d. found = Some pl \<and> map_of (p_devices pl) device = Some d \<and> idx d ''token'' = token")
    case False
    with assms f have "t = s1" by (auto simp: forget_device_def split: option.splits)
    with k show thesis by (intro that(1)) simp
  next
    case True
    then obtain pl d where d: "found = Some pl" "map_of (p_devices pl) device = Some d"
      "idx d ''token'' = token" by blast
    let ?q = "pl\<lparr>p_devices := AList.delete device (p_devices pl)\<rparr>"
    obtain ok s2 where 2: "with_store (save_account X ?q) s1 = (ok, s2)" by fastforce
    have k2: "same_books s s2"
      using k same_books_with_store [OF 2 keeps_jobs_save_account] by (rule same_books_trans)
    have t: "t = (if player_of s2 i \<noteq> None then put_player i ?q s2 else s2)"
      using assms f d 2 by (simp add: forget_device_def Let_def)
    have p: "players s2 = players s" using k2 by (simp add: same_books_def)
    show thesis
    proof (cases "player_of s i")
      case None
      with t p k2 show thesis by (intro that(1)) simp
    next
      case (Some ql)
      then have "ql = pl" using f d(1) by (simp add: find_player_def)
      with Some t p d k2 show thesis by (intro that(2) [of pl d s2]) simp_all
    qed
  qed
qed

lemma wf_forget_device:
  assumes wf: "wf_but (X, cf) {} s"
  shows "wf_but (X, cf) {} (forget_device X i device token s)"
proof -
  obtain t where t: "forget_device X i device token s = t" by blast
  then have "wf_but (X, cf) {} t"
  proof (cases rule: forget_device_cases)
    case 1
    then show ?thesis by (rule wf_same_books [OF _ wf])
  next
    case (2 pl d s2)
    then have "player_of s2 i = Some pl" by (simp add: same_books_def)
    from wf_put_player [OF wf_same_books [OF 2(4) wf] this] show ?thesis
      unfolding 2(5) by (simp add: devices_ok_delete)
  qed
  with t show ?thesis by simp
qed

text \<open>The jobs held in memory are objects, so writing a field does not panic.\<close>

lemma same_books_store: "(sound_jobs (store s) \<Longrightarrow> sound_jobs st) \<Longrightarrow> same_books s (s\<lparr>store := st\<rparr>)"
  by (simp add: same_books_def)

lemma field_mut_object: "is_object j \<Longrightarrow> \<exists>j'. field_mut j k f = Some j' \<and> is_object j'"
  by (simp add: field_mut_def)

lemma job_in_memory:
  assumes "sound_jobs (store s)" "map_of (st_jobs (store s)) room_id = Some js"
    and "position (same_job job) js = Some n"
  shows "n < length js" "list_all is_object js" "is_object (js ! n)" "same_job job (js ! n)"
  using position_Some [OF assms(3)] sound_jobs_at [OF assms(1,2)] by (auto simp: list_all_length)

lemma list_all_update: "list_all P js \<Longrightarrow> P j \<Longrightarrow> list_all P (js[n := j])"
  using set_update_subset_insert [of js n j] by (auto simp: list_all_iff)

lemma mark_done_same_books:
  assumes "sound_jobs (store s)"
  shows "\<exists>t. mark_done room_id job key s = Ret t \<and> same_books s t"
proof (cases "map_of (st_jobs (store s)) room_id")
  case None
  then show ?thesis by (simp add: mark_done_def Let_def)
next
  case (Some js)
  show ?thesis
  proof (cases "position (same_job job) js")
    case None
    with Some show ?thesis by (simp add: mark_done_def Let_def)
  next
    case n: (Some n)
    note m = job_in_memory [OF assms Some n]
    obtain j where j: "field_mut (js ! n) ''done'' (push_key key) = Some j" "is_object j"
      using field_mut_object [OF m(3)] by blast
    show ?thesis
      using Some n j list_all_update [OF m(2) j(2)]
      by (simp add: mark_done_def Let_def same_books_store sound_jobs_update)
  qed
qed

lemma keep_jobs_same_books:
  assumes "list_all is_object js"
  shows "same_books s (keep_jobs X room_id js s)"
proof (cases "st_enabled (store s)")
  case True
  obtain ok t where "with_store (set_jobs X room_id js) s = (ok, t)" by fastforce
  with True same_books_with_store [OF this] assms show ?thesis by (simp add: keep_jobs_def)
next
  case False
  with assms show ?thesis
    by (simp add: keep_jobs_def Let_def same_books_store sound_jobs_update sound_jobs_delete)
qed

lemma list_all_without: "list_all P js \<Longrightarrow> list_all P (take n js @ drop (Suc n) js)"
  by (auto simp: list_all_iff dest: in_set_takeD in_set_dropD)

lemma finish_job_same_books:
  assumes "sound_jobs (store s)"
  shows "\<exists>t. finish_job X room_id job failed s = Ret t \<and> same_books s t"
proof (cases "map_of (st_jobs (store s)) room_id")
  case None
  then show ?thesis by (simp add: finish_job_def)
next
  case (Some js)
  show ?thesis
  proof (cases "position (same_job job) js")
    case None
    with Some show ?thesis by (simp add: finish_job_def)
  next
    case n: (Some n)
    note m = job_in_memory [OF assms Some n]
    obtain retry s1 where r: "(if failed then map_prod ((+) 30000) id (clock s) else (NEVER, s)) =
        (retry, s1)" by fastforce
    then have k: "same_books s s1"
      using same_books_clock [of s] by (cases "clock s") (auto split: if_splits)
    obtain j where j: "field_mut (js ! n) ''retryAt'' (\<lambda>_. jnat retry) = Some j" "is_object j"
      using field_mut_object [OF m(3)] by blast
    have "same_books s (keep_jobs X room_id (js[n := j]) s1)"
      using k keep_jobs_same_books [OF list_all_update [OF m(2) j(2)]] by (rule same_books_trans)
    moreover have "same_books s (keep_jobs X room_id (take n js @ drop (Suc n) js) s)"
      by (rule keep_jobs_same_books [OF list_all_without [OF m(2)]])
    ultimately show ?thesis
      using Some n r j by (simp add: finish_job_def)
  qed
qed

lemma wf_sound: "wf_but (X, cf) E s \<Longrightarrow> sound_jobs (store s)"
  by (simp add: wf_but_def)



lemma wf_record_delivery:
  assumes "wf_but (X, cf) {} s"
  shows "\<exists>t. record_delivery X room_id job i device token invalid s = Ret t \<and> wf_but (X, cf) {} t"
proof -
  let ?s = "if invalid then forget_device X i device token s else s"
  have wf: "wf_but (X, cf) {} ?s" using wf_forget_device [OF assms] assms by simp
  from mark_done_same_books [OF wf_sound [OF wf]] wf_same_books [OF _ wf] show ?thesis
    unfolding record_delivery_def by blast
qed

lemma wf_next_player:
  assumes wf: "wf_but (X, cf) {} s"
  shows "\<exists>task' t. next_player X ps s = Ret (task', t) \<and> wf_but (X, cf) {} t"
proof (cases "ps_targets ps")
  case Nil
  from finish_job_same_books [OF wf_sound [OF wf]] wf_same_books [OF _ wf]
  have "\<exists>t. finish_job X (ps_room ps) (ps_job ps) (ps_failed ps) s = Ret t \<and> wf_but (X, cf) {} t"
    by blast
  with Nil show ?thesis by (auto simp: next_player_def)
next
  case (Cons v vs)
  show ?thesis
  proof (cases "as_str v")
    case None
    with Cons wf show ?thesis by (simp add: next_player_def Let_def)
  next
    case (Some i)
    obtain found t where f: "find_player X i s = (found, t)" by fastforce
    have "wf_but (X, cf) {} t" by (rule wf_same_books [OF find_player_same_books [OF f] wf])
    with Cons Some f show ?thesis by (cases found) (simp_all add: next_player_def Let_def)
  qed
qed

lemma wf_push_step:
  assumes wf: "wf_but (X, cf) {} s"
  shows "\<exists>task' t. push_step X answer (task, s) = Ret (task', t) \<and> wf_but (X, cf) {} t"
proof (cases task)
  case Waiting
  obtain t s1 where 1: "clock s = (t, s1)" by fastforce
  then have "wf_but (X, cf) {} s1" by (rule wf_same_books [OF same_books_clock wf])
  with Waiting 1 show ?thesis by simp
next
  case (NextJob jobs)
  with wf show ?thesis by (cases jobs) auto
next
  case (NextPlayer ps)
  with wf_next_player [OF wf] show ?thesis by simp
next
  case (NextDevice ps ad)
  with wf show ?thesis by simp
next
  case (Posting ps ad i d)
  with wf show ?thesis by (simp split: option.split)
next
  case (Recording ps ad i token invalid)
  obtain t where "record_delivery X (ps_room ps) (ps_job ps) (ad_id ad) i token invalid s = Ret t"
    "wf_but (X, cf) {} t"
    using wf_record_delivery [OF wf] by blast
  with Recording show ?thesis by simp
qed

lemma wf_legacy_done:
  assumes wf: "wf_but (X, cf) {} s"
  shows "wf_but (X, cf) {} (legacy_done X job answer s)" "wf_but (X, cf) {} (snd (take_legacy s))"
proof -
  let ?s = "s\<lparr>pushes_in_flight := pushes_in_flight s - 1\<rparr>"
  have s: "wf_but (X, cf) {} ?s" and k: "player_of ?s = player_of s"
    using wf by (simp_all add: wf_but_def)
  have put: "wf_but (X, cf) {} (put_player p (pl\<lparr>p_devices := AList.delete i (p_devices pl)\<rparr>) ?s)"
    if "player_of s p = Some pl" for p pl i
    using wf_put_player [OF s, of p pl] that by (simp add: devices_ok_delete)
  show "wf_but (X, cf) {} (legacy_done X job answer s)"
    using s put by (auto simp: legacy_done_def Let_def split: option.split bool.split)
  show "wf_but (X, cf) {} (snd (take_legacy s))"
    using wf by (simp add: take_legacy_def wf_but_def)
qed

section \<open>A pass ends\<close>

text \<open>
  Each step of a pass takes something off: a job, a player, a device, or the wait for an answer. So
  a pass ends whatever the other tasks do to the server between its steps.
\<close>

fun work_left :: "push_task \<Rightarrow> nat \<times> nat \<times> nat \<times> nat" where
  "work_left Waiting = (0, 0, 0, 0)"
| "work_left (NextJob jobs) = (length jobs + 1, 0, 0, 0)"
| "work_left (NextPlayer ps) = (length (ps_rest ps) + 1, length (ps_targets ps) + 1, 0, 0)"
| "work_left (NextDevice ps ad) =
     (length (ps_rest ps) + 1, length (ps_targets ps) + 1, length (ad_devices ad) + 1, 0)"
| "work_left (Posting ps ad i d) =
     (length (ps_rest ps) + 1, length (ps_targets ps) + 1, length (ad_devices ad) + 1, 2)"
| "work_left (Recording ps ad i token invalid) =
     (length (ps_rest ps) + 1, length (ps_targets ps) + 1, length (ad_devices ad) + 1, 1)"

abbreviation less_work :: "((nat \<times> nat \<times> nat \<times> nat) \<times> (nat \<times> nat \<times> nat \<times> nat)) set" where
  "less_work \<equiv> less_than <*lex*> less_than <*lex*> less_than <*lex*> less_than"

lemma map_outcome_Ret: "map_outcome f r = Ret y \<longleftrightarrow> (\<exists>x. r = Ret x \<and> y = f x)"
  by (cases r) auto

lemma push_step_less:
  assumes st: "push_step X answer (task, s) = Ret (task', t)" and busy: "task \<noteq> Waiting"
  shows "(work_left task', work_left task) \<in> less_work"
proof (cases task)
  case Waiting
  with busy show ?thesis by simp
next
  case (NextJob jobs)
  with st show ?thesis by (cases jobs) auto
next
  case (NextPlayer ps)
  with st show ?thesis
    by (cases "ps_targets ps")
      (auto simp: next_player_def Let_def map_outcome_Ret split: option.splits prod.splits)
next
  case (NextDevice ps ad)
  with st show ?thesis
    by (cases "ad_devices ad") (auto simp: next_device_def Let_def split: if_splits)
next
  case (Posting ps ad i d)
  with st show ?thesis by (auto split: option.splits)
next
  case (Recording ps ad i token invalid)
  with st show ?thesis by (auto simp: map_outcome_Ret)
qed

text \<open>
  A run of the task by itself: after step \<open>n\<close> it is in state \<open>task n\<close>; the server it finds at its
  next query is any \<open>s n\<close>.
\<close>

definition task_run :: "externals \<Rightarrow> (nat \<Rightarrow> push_task) \<Rightarrow> bool" where
  "task_run X task \<longleftrightarrow> (\<forall>n. task n \<noteq> Waiting \<longrightarrow>
     (\<exists>answer s cf t. wf_but (X, cf) {} s \<and> push_step X answer (task n, s) = Ret (task (Suc n), t)))"

lemma task_run_ends:
  assumes "task_run X task"
  shows "\<exists>n. task n = Waiting"
proof (rule ccontr)
  assume busy: "\<nexists>n. task n = Waiting"
  then have down: "\<forall>n. (work_left (task (Suc n)), work_left (task n)) \<in> less_work"
    using assms push_step_less unfolding task_run_def by metis
  have "wf less_work" by (intro wf_lex_prod wf_less_than)
  then have "\<nexists>f. \<forall>n. (f (Suc n), f n) \<in> less_work" by (rule wf_iff_no_infinite_down_chain [THEN iffD1])
  moreover have "\<exists>f. \<forall>n. (f (Suc n), f n) \<in> less_work"
    by (rule exI [of _ "\<lambda>n. work_left (task n)"]) (rule down)
  ultimately show False by (rule notE)
qed

section \<open>A device is posted to once\<close>

text \<open>The devices the task may still post to before it goes on with the next job.\<close>

abbreviation may_reach :: "pass \<Rightarrow> addressee \<Rightarrow> string \<Rightarrow> string \<Rightarrow> bool" where
  "may_reach ps ad i d \<equiv>
     JStr i \<in> set (ps_targets ps) \<or> i = ad_id ad \<and> d \<in> set (keys (ad_devices ad))"

abbreviation disjoint :: "pass \<Rightarrow> addressee \<Rightarrow> bool" where
  "disjoint ps ad \<equiv>
     distinct (ps_targets ps) \<and> JStr (ad_id ad) \<notin> set (ps_targets ps) \<and> imap_ok (ad_devices ad)"

fun ahead :: "push_task \<Rightarrow> string \<Rightarrow> string \<Rightarrow> bool" where
  "ahead (NextPlayer ps) i d \<longleftrightarrow> JStr i \<in> set (ps_targets ps)"
| "ahead (NextDevice ps ad) i d \<longleftrightarrow> may_reach ps ad i d"
| "ahead (Posting ps ad device_id device) i d \<longleftrightarrow>
     may_reach ps ad i d \<or> i = ad_id ad \<and> d = device_id"
| "ahead (Recording ps ad device_id token invalid) i d \<longleftrightarrow> may_reach ps ad i d"
| "ahead _ i d \<longleftrightarrow> False"

fun apart :: "push_task \<Rightarrow> bool" where
  "apart (NextPlayer ps) \<longleftrightarrow> distinct (ps_targets ps)"
| "apart (NextDevice ps ad) \<longleftrightarrow> disjoint ps ad"
| "apart (Posting ps ad device_id device) \<longleftrightarrow>
     disjoint ps ad \<and> device_id \<notin> set (keys (ad_devices ad))"
| "apart (Recording ps ad device_id token invalid) \<longleftrightarrow> disjoint ps ad"
| "apart _ \<longleftrightarrow> True"

fun posting_to :: "push_task \<Rightarrow> (string \<times> string) option" where
  "posting_to (Posting ps ad device_id device) = Some (ad_id ad, device_id)"
| "posting_to _ = None"

lemma push_step_ahead:
  assumes st: "push_step X answer (task, s) = Ret (task', t)" and wf: "wf_but (X, cf) {} s"
    and apart: "apart task" and job: "\<And>jobs. task \<noteq> NextJob jobs" "task \<noteq> Waiting"
  shows "apart task'" "ahead task' i d \<Longrightarrow> ahead task i d"
    "posting_to task = Some (i, d) \<Longrightarrow> \<not> ahead task' i d"
    "posting_to task' = Some (i, d) \<Longrightarrow> ahead task i d"
proof -
  have "apart task' \<and> (ahead task' i d \<longrightarrow> ahead task i d) \<and>
    (posting_to task = Some (i, d) \<longrightarrow> \<not> ahead task' i d) \<and>
    (posting_to task' = Some (i, d) \<longrightarrow> ahead task i d)"
  proof (cases task)
    case (NextPlayer ps)
    show ?thesis
    proof (cases "ps_targets ps")
      case Nil
      with NextPlayer st show ?thesis by (auto simp: next_player_def map_outcome_Ret)
    next
      case (Cons v vs)
      show ?thesis
      proof (cases "as_str v")
        case None
        with NextPlayer Cons st apart show ?thesis by (auto simp: next_player_def Let_def)
      next
        case (Some j)
        obtain found s1 where f: "find_player X j s = (found, s1)" by fastforce
        show ?thesis
        proof (cases found)
          case None
          with NextPlayer Cons Some f st apart show ?thesis by (auto simp: next_player_def Let_def)
        next
          case p: (Some pl)
          have "imap_ok (p_devices pl)" using find_player_devices [OF f [unfolded p] wf] .
          with NextPlayer Cons Some p f st apart show ?thesis
            by (auto simp: next_player_def Let_def)
        qed
      qed
    qed
  next
    case (NextDevice ps ad)
    with st apart show ?thesis
      by (cases "ad_devices ad") (auto simp: next_device_def Let_def split: if_splits)
  next
    case (Posting ps ad j device)
    with st apart show ?thesis by (auto split: option.splits)
  next
    case (Recording ps ad j token invalid)
    with st apart show ?thesis by (auto simp: map_outcome_Ret)
  qed (use job in auto)
  then show "apart task'" "ahead task' i d \<Longrightarrow> ahead task i d"
    "posting_to task = Some (i, d) \<Longrightarrow> \<not> ahead task' i d"
    "posting_to task' = Some (i, d) \<Longrightarrow> ahead task i d" by blast+
qed

fun in_job :: "push_task \<Rightarrow> bool" where
  "in_job Waiting = False"
| "in_job (NextJob jobs) = False"
| "in_job _ = True"

lemma run_step_ahead:
  assumes run: "task_run X task" and n: "in_job (task n)" "apart (task n)"
  shows "apart (task (Suc n))" "ahead (task (Suc n)) i d \<Longrightarrow> ahead (task n) i d"
    "posting_to (task n) = Some (i, d) \<Longrightarrow> \<not> ahead (task (Suc n)) i d"
proof -
  have busy: "task n \<noteq> Waiting" "\<And>jobs. task n \<noteq> NextJob jobs" using n(1) by auto
  with run obtain answer s cf t where st: "push_step X answer (task n, s) = Ret (task (Suc n), t)"
    and wf: "wf_but (X, cf) {} s"
    unfolding task_run_def by blast
  note k = push_step_ahead [OF st wf n(2) busy(2) busy(1)]
  show "apart (task (Suc n))" "ahead (task (Suc n)) i d \<Longrightarrow> ahead (task n) i d"
    "posting_to (task n) = Some (i, d) \<Longrightarrow> \<not> ahead (task (Suc n)) i d"
    using k(1-3) by blast+
qed

lemma posting_ahead: "posting_to task = Some (i, d) \<Longrightarrow> ahead task i d"
  by (cases task) simp_all

lemma run_apart:
  assumes "task_run X task" "apart (task 0)" "\<And>k. k < n \<Longrightarrow> in_job (task k)"
  shows "apart (task n)"
  using assms(3)
proof (induction n)
  case (Suc n)
  then show ?case using run_step_ahead(1) [OF assms(1)] by simp
qed (rule assms(2))

lemma run_behind:
  assumes run: "task_run X task" and "apart (task 0)" and job: "\<And>k. k < m + n \<Longrightarrow> in_job (task k)"
    and "\<not> ahead (task m) i d"
  shows "\<not> ahead (task (m + n)) i d"
  using job
proof (induction n)
  case (Suc n)
  have "apart (task (m + n))" by (rule run_apart [OF run assms(2)]) (use Suc.prems in simp)
  moreover have "in_job (task (m + n))" using Suc.prems by simp
  ultimately show ?case using Suc run_step_ahead(2) [OF run, of "m + n" i d] by auto
qed (use assms(4) in simp)

lemma posted_once:
  assumes run: "task_run X task" and "apart (task 0)" and job: "\<And>k. k < n \<Longrightarrow> in_job (task k)"
    and m: "posting_to (task m) = Some (i, d)" and "m < n"
  shows "posting_to (task n) \<noteq> Some (i, d)"
proof
  assume n: "posting_to (task n) = Some (i, d)"
  have "apart (task m)" by (rule run_apart [OF run assms(2)]) (use job \<open>m < n\<close> in simp)
  moreover have "in_job (task m)" using job \<open>m < n\<close> by blast
  ultimately have "\<not> ahead (task (Suc m)) i d" using run_step_ahead(3) [OF run _ _ m] by blast
  then have "\<not> ahead (task (Suc m + (n - Suc m))) i d"
    by (intro run_behind [OF run assms(2)]) (use job \<open>m < n\<close> in auto)
  with posting_ahead [OF n] \<open>m < n\<close> show False by simp
qed

section \<open>What a pass leaves of a job\<close>

definition room_jobs :: "server \<Rightarrow> string \<Rightarrow> json list" where
  "room_jobs s i = (case map_of (st_jobs (store s)) i of Some js \<Rightarrow> js | None \<Rightarrow> [])"

lemma set_jobs_complete:
  assumes w: "disk_ok w" and f: "path ''notifications'' i = Some f" and files: "imap_ok (st_files st)"
  obtains st' w' where "set_jobs X i js (st, w) = (True, st', w')"
    "st_jobs st' = (if js = [] then AList.delete i (st_jobs st) else AList.update i js (st_jobs st))"
    "map_of (st_files st') f = (if js = [] then None else Some (x_to_vec X (JArr js)))"
proof (cases "js = []")
  case True
  have "disk_ok (snd (disk w))" "fst (disk w)" "fst (disk (snd (disk w)))" using w by simp_all
  then show thesis
    using True f that
    by (cases "map_of (st_files st) f")
      (auto simp: set_jobs_def exists_file_def remove_file_def Let_def split_beta delete_conv')
next
  case False
  obtain st1 w1 where a: "atomic f [x_to_vec X (JArr js)] (st, w) = (True, st1, w1)"
    by (rule atomic_complete [OF w])
  note k = atomic_ok [OF a files]
  show thesis
    by (rule that [of "st1\<lparr>st_jobs := AList.update i js (st_jobs st1)\<rparr>" w1])
      (use a f False k in \<open>simp_all add: set_jobs_def only_files_def\<close>)
qed

lemma keep_jobs_complete:
  assumes "st_enabled (store s) \<Longrightarrow> disk_ok (world s) \<and> path ''notifications'' i = Some f \<and>
      imap_ok (st_files (store s))"
  shows "room_jobs (keep_jobs X i js s) i = js"
    "st_enabled (store s) \<Longrightarrow> map_of (st_files (store (keep_jobs X i js s))) f =
       (if js = [] then None else Some (x_to_vec X (JArr js)))"
proof -
  have "room_jobs (keep_jobs X i js s) i = js \<and> (st_enabled (store s) \<longrightarrow>
    map_of (st_files (store (keep_jobs X i js s))) f =
       (if js = [] then None else Some (x_to_vec X (JArr js))))"
  proof (cases "st_enabled (store s)")
    case False
    then show ?thesis by (simp add: keep_jobs_def Let_def room_jobs_def delete_conv' update_conv')
  next
    case True
    with assms obtain st' w' where "set_jobs X i js (store s, world s) = (True, st', w')"
      "st_jobs st' = (if js = [] then AList.delete i (st_jobs (store s))
         else AList.update i js (st_jobs (store s)))"
      "map_of (st_files st') f = (if js = [] then None else Some (x_to_vec X (JArr js)))"
      using set_jobs_complete [of "world s" i f "store s" X js] by blast
    with True show ?thesis
      by (simp add: keep_jobs_def Let_def with_store_def room_jobs_def delete_conv' update_conv')
  qed
  then show "room_jobs (keep_jobs X i js s) i = js"
    "st_enabled (store s) \<Longrightarrow> map_of (st_files (store (keep_jobs X i js s))) f =
       (if js = [] then None else Some (x_to_vec X (JArr js)))" by blast+
qed

text \<open>
  A job is told from the others of its room by its event and its time. After a pass the other jobs
  are as they were; the job itself is gone, or it waits for its next try.
\<close>

definition job_key :: "json \<Rightarrow> json \<times> json" where
  "job_key j = (idx j ''eventId'', idx j ''at'')"

lemma same_job_key: "same_job job j \<longleftrightarrow> job_key j = job_key job"
  by (auto simp: same_job_def job_key_def)

lemma one_of_kind:
  assumes "distinct (map f js)" "n < length js" "f (js ! n) = k"
  shows "filter (\<lambda>j. f j \<noteq> k) (take n js @ drop (Suc n) js) = filter (\<lambda>j. f j \<noteq> k) js"
    "filter (\<lambda>j. f j = k) (take n js @ drop (Suc n) js) = []"
    "f j = k \<Longrightarrow> filter (\<lambda>j. f j \<noteq> k) (js[n := j]) = filter (\<lambda>j. f j \<noteq> k) js"
    "f j = k \<Longrightarrow> filter (\<lambda>j. f j = k) (js[n := j]) = [j]"
proof -
  have js: "js = take n js @ js ! n # drop (Suc n) js" using assms(2) by (rule id_take_nth_drop)
  have up: "js[n := j] = take n js @ j # drop (Suc n) js" for j
    using assms(2) by (simp add: upd_conv_take_nth_drop)
  have d: "distinct (map f (take n js) @ f (js ! n) # map f (drop (Suc n) js))"
    using assms(1) by (subst (asm) js) simp
  have no: "f x \<noteq> k" if "x \<in> set (take n js) \<union> set (drop (Suc n) js)" for x
  proof -
    from that have "f x \<in> f ` (set (take n js) \<union> set (drop (Suc n) js))" by (rule imageI)
    moreover have "f (js ! n) \<notin> f ` (set (take n js) \<union> set (drop (Suc n) js))" using d by auto
    ultimately show ?thesis using assms(3) by metis
  qed
  have e: "filter (\<lambda>j. f j = k) (take n js) = []" "filter (\<lambda>j. f j = k) (drop (Suc n) js) = []"
    using no by (auto simp: filter_empty_conv)
  show 1: "filter (\<lambda>j. f j \<noteq> k) (take n js @ drop (Suc n) js) = filter (\<lambda>j. f j \<noteq> k) js"
    using assms(3) by (subst (3) js) simp
  show "filter (\<lambda>j. f j = k) (take n js @ drop (Suc n) js) = []" using e by simp
  show "filter (\<lambda>j. f j \<noteq> k) (js[n := j]) = filter (\<lambda>j. f j \<noteq> k) js" if "f j = k"
    unfolding 1 [symmetric] using that by (simp add: up)
  show "filter (\<lambda>j. f j = k) (js[n := j]) = [j]" if "f j = k"
    using that e by (simp add: up)
qed

lemma find_position: "find P js = Some j \<Longrightarrow> \<exists>n. position P js = Some n \<and> js ! n = j"
proof (induction js)
  case (Cons x xs)
  show ?case
  proof (cases "P x")
    case True
    with Cons show ?thesis by (simp add: position_def)
  next
    case False
    with Cons obtain n where "position P xs = Some n" "xs ! n = j" by auto
    with False show ?thesis by (auto simp: position_def split: if_splits)
  qed
qed simp

lemma room_jobs_Some:
  "find P (room_jobs s i) = Some j \<Longrightarrow> map_of (st_jobs (store s)) i = Some (room_jobs s i)"
  by (auto simp: room_jobs_def split: option.splits)

text \<open>The store of a server whose writes succeed, for the jobs of a room.\<close>

definition jobs_written :: "string \<Rightarrow> server \<Rightarrow> bool" where
  "jobs_written i s \<longleftrightarrow>
     (st_enabled (store s) \<longrightarrow> disk_ok (world s) \<and> uuid_text i \<and> imap_ok (st_files (store s)))"

definition jobs_file :: "externals \<Rightarrow> string \<Rightarrow> server \<Rightarrow> bool" where
  "jobs_file X i s \<longleftrightarrow> (st_enabled (store s) \<longrightarrow>
     map_of (st_files (store s)) (''notifications'', ascii_lower i @ ''.json'') =
       (if room_jobs s i = [] then None else Some (x_to_vec X (JArr (room_jobs s i)))))"

lemma keep_jobs_written:
  assumes "jobs_written i s"
  shows "room_jobs (keep_jobs X i js s) i = js" "jobs_file X i (keep_jobs X i js s)"
proof -
  let ?f = "(''notifications'', ascii_lower i @ ''.json'')"
  have c: "disk_ok (world s) \<and> path ''notifications'' i = Some ?f \<and> imap_ok (st_files (store s))"
    if "st_enabled (store s)" using assms that by (simp add: jobs_written_def path_def)
  have "st_enabled (store (keep_jobs X i js s)) \<Longrightarrow> st_enabled (store s)"
    by (auto simp: keep_jobs_def Let_def split: if_splits)
  with keep_jobs_complete [OF c, where X = X and js = js]
  show "room_jobs (keep_jobs X i js s) i = js" "jobs_file X i (keep_jobs X i js s)"
    by (auto simp: jobs_file_def)
qed

lemma finish_settles:
  assumes sound: "sound_jobs (store s)" and written: "jobs_written i s"
    and j: "find (same_job job) (room_jobs s i) = Some j"
    and one: "distinct (map job_key (room_jobs s i))"
  obtains t where "finish_job X i job failed s = Ret t" "jobs_file X i t"
    "filter (\<lambda>j. \<not> same_job job j) (room_jobs t i) = filter (\<lambda>j. \<not> same_job job j) (room_jobs s i)"
    "filter (same_job job) (room_jobs t i) =
       (if \<not> failed \<and> idx job ''scheduled'' \<noteq> JBool True then []
        else [setk ''retryAt'' (jnat (if failed then 30000 + fst (clock s) else NEVER)) j])"
proof -
  let ?js = "room_jobs s i"
  note js = room_jobs_Some [OF j]
  obtain n where n: "position (same_job job) ?js = Some n" "?js ! n = j" using find_position [OF j] by blast
  note m = job_in_memory [OF sound js n(1)]
  have k: "job_key (?js ! n) = job_key job" using m(4) by (simp add: same_job_key)
  note kind = one_of_kind [OF one m(1) k, folded same_job_key]
  show thesis
  proof (cases "\<not> failed \<and> idx job ''scheduled'' \<noteq> JBool True")
    case True
    with js n have "finish_job X i job failed s = Ret (keep_jobs X i (take n ?js @ drop (Suc n) ?js) s)"
      by (simp add: finish_job_def)
    then show thesis
      by (rule that) (use True kind(1,2) keep_jobs_written [OF written] in simp_all)
  next
    case False
    let ?retry = "if failed then 30000 + fst (clock s) else NEVER"
    let ?j = "setk ''retryAt'' (jnat ?retry) j"
    obtain s1 where s1: "(if failed then map_prod ((+) 30000) id (clock s) else (NEVER, s)) = (?retry, s1)"
      and w1: "store s1 = store s" "jobs_written i s1"
      using written by (cases failed) (auto simp: clock_def jobs_written_def disk_ok_def now_def
          Let_def split: prod.splits)
    have "job_key ?j = job_key j" by (simp add: job_key_def idx_setk_other)
    then have same: "same_job job ?j" using k n(2) by (simp add: same_job_key)
    have "field_mut (?js ! n) ''retryAt'' (\<lambda>_. jnat ?retry) = Some ?j"
      using m(3) n(2) by (simp add: field_mut_def)
    with False js n s1 have "finish_job X i job failed s = Ret (keep_jobs X i (?js[n := ?j]) s1)"
      by (cases failed) (simp_all add: finish_job_def)
    then show thesis
      by (rule that) (use False kind(3,4) [OF same] keep_jobs_written [OF w1(2)] in simp_all)
  qed
qed

lemma idx_retry: "is_object j \<Longrightarrow> idx (setk ''retryAt'' v j) ''retryAt'' = v"
  by (rule idx_setk_same)

lemma not_due_before: "idx j ''retryAt'' = jnat n \<Longrightarrow> due t j \<Longrightarrow> n \<le> t"
  by (simp add: due_def nat_or_def)

section \<open>What a delivery changes\<close>

text \<open>
  The players of \<open>t\<close> are those of \<open>s\<close>, except that the device \<open>d\<close> of player \<open>i\<close> may be gone, and
  only where it still had the token the request was for.
\<close>

definition forgets :: "string \<Rightarrow> string \<Rightarrow> json \<Rightarrow> server \<Rightarrow> server \<Rightarrow> bool" where
  "forgets i d token s t \<longleftrightarrow> (\<forall>p. player_of t p = player_of s p \<or>
     (\<exists>pl v. p = i \<and> player_of s p = Some pl \<and> map_of (p_devices pl) d = Some v \<and>
        idx v ''token'' = token \<and>
        player_of t p = Some (pl\<lparr>p_devices := AList.delete d (p_devices pl)\<rparr>)))"

lemma forgets_same_books: "same_books s t \<Longrightarrow> forgets i d token s t"
  by (simp add: forgets_def same_books_def)

lemma forget_device_forgets: "forgets i d token s (forget_device X i d token s)"
proof -
  obtain t where t: "forget_device X i d token s = t" by blast
  then have "forgets i d token s t"
  proof (cases rule: forget_device_cases)
    case 1
    then show ?thesis by (rule forgets_same_books)
  next
    case (2 pl v s2)
    then have "players s2 = players s" by (simp add: same_books_def)
    with 2 show ?thesis by (auto simp: forgets_def update_conv')
  qed
  with t show ?thesis by simp
qed

lemma record_delivery_forgets:
  assumes "sound_jobs (store s)" "record_delivery X room_id job i d token invalid s = Ret t"
  shows "forgets i d token s t" "\<not> invalid \<Longrightarrow> players t = players s"
    "rooms t = rooms s" "keys (connections t) = keys (connections s)"
proof -
  let ?s = "if invalid then forget_device X i d token s else s"
  have k: "rooms ?s = rooms s \<and> keys (connections ?s) = keys (connections s) \<and> sound_jobs (store ?s)"
  proof (cases invalid)
    case True
    obtain u where u: "forget_device X i d token s = u" by blast
    then have "rooms u = rooms s \<and> keys (connections u) = keys (connections s) \<and> sound_jobs (store u)"
      by (cases rule: forget_device_cases) (use assms(1) in \<open>auto simp: same_books_def\<close>)
    with True u show ?thesis by simp
  qed (use assms(1) in simp)
  then obtain u where "mark_done room_id job (i @ '':'' @ d) ?s = Ret u" "same_books ?s u"
    using mark_done_same_books by blast
  with assms(2) have t: "same_books ?s t" by (simp add: record_delivery_def)
  have f: "forgets i d token s ?s" using forget_device_forgets by (simp add: forgets_def)
  show "forgets i d token s t" using f t by (simp add: forgets_def same_books_def)
  show "players t = players s" if "\<not> invalid" using t that by (simp add: same_books_def)
  show "rooms t = rooms s" "keys (connections t) = keys (connections s)"
    using t k by (auto simp: same_books_def)
qed

lemma legacy_done_forgets:
  "forgets (lp_player job) (lp_device job) (JStr (lp_token job)) s (legacy_done X job answer s)"
  "sent answer \<noteq> Some False \<Longrightarrow> players (legacy_done X job answer s) = players s"
  "pushes_in_flight (legacy_done X job answer s) = pushes_in_flight s - 1"
  "rooms (legacy_done X job answer s) = rooms s"
  by (auto simp: forgets_def legacy_done_def Let_def update_conv' quiet_frame [OF emit.quiet_op]
      split: option.split bool.split)

text \<open>A recorded delivery is a receipt: as long as the job is there, no pass posts it again.\<close>

lemma setk_push_key:
  assumes "is_object j" "idx j ''done'' = JArr ks"
  shows "already_done (setk ''done'' (push_key (i @ '':'' @ d) (idx j ''done'')) j) i d"
  using assms by (simp add: already_done_def idx_setk_same push_key_def elems_def)

lemma find_update_position:
  assumes "position P js = Some n" "P j"
  shows "find P (js[n := j]) = Some j"
proof -
  note n = position_Some [OF assms(1)]
  have "find P (xs @ j # ys) = Some j" if "\<forall>x \<in> set xs. \<not> P x" for xs ys
    using that assms(2) by (induction xs) auto
  moreover have "\<forall>x \<in> set (take n js). \<not> P x" using n(1,3) by (auto simp: in_set_conv_nth)
  ultimately show ?thesis using n(1) by (simp add: upd_conv_take_nth_drop)
qed

lemma record_delivery_receipt:
  assumes sound: "sound_jobs (store s)" and r: "record_delivery X i job p d token invalid s = Ret t"
    and j: "find (same_job job) (room_jobs s i) = Some j" "idx j ''done'' = JArr ks"
  obtains j' where "find (same_job job) (room_jobs t i) = Some j'" "already_done j' p d"
proof -
  let ?s = "if invalid then forget_device X p d token s else s"
  have jobs: "st_jobs (store ?s) = st_jobs (store s)"
  proof (cases invalid)
    case True
    obtain found s1 where f: "find_player X p s = (found, s1)" by fastforce
    have "store s1 = store s" using f by (cases rule: find_player_cases) simp_all
    moreover have "st_jobs (store s2) = st_jobs (store s1)"
      if "with_store (save_account X q) s1 = (ok, s2)" for q ok s2
      using that by (auto simp: with_store_def save_account_def Let_def
          split: prod.splits if_splits option.splits dest!: atomic_jobs)
    ultimately show ?thesis
      using True f by (auto simp: forget_device_def Let_def split: option.split prod.split)
  qed simp
  have js: "map_of (st_jobs (store ?s)) i = Some (room_jobs s i)"
    using room_jobs_Some [OF j(1)] jobs by simp
  obtain n where n: "position (same_job job) (room_jobs s i) = Some n" "room_jobs s i ! n = j"
    using find_position [OF j(1)] by blast
  note m = job_in_memory [OF sound room_jobs_Some [OF j(1)] n(1)]
  let ?j = "setk ''done'' (push_key (p @ '':'' @ d) (idx j ''done'')) j"
  have o: "is_object j" using m(3) n(2) by simp
  have "t = ?s\<lparr>store := (store ?s)\<lparr>st_jobs := AList.update i ((room_jobs s i)[n := ?j]) (st_jobs (store ?s))\<rparr>\<rparr>"
    using r js n o by (simp add: record_delivery_def mark_done_def Let_def field_mut_def)
  then have t: "room_jobs t i = (room_jobs s i)[n := ?j]"
    by (simp add: room_jobs_def update_conv')
  have "same_job job ?j"
    using m(4) n(2) by (simp add: same_job_def idx_setk_other)
  from find_update_position [OF n(1) this] setk_push_key [OF o j(2)] t show thesis
    by (intro that) simp_all
qed

lemma receipt_respected:
  assumes "already_done (ps_job ps) (ad_id ad) d" "imap_ok (ad_devices ad)"
  shows "posting_to (next_device ps ad s) \<noteq> Some (ad_id ad, d)"
  using assms by (cases "ad_devices ad") (auto simp: next_device_def Let_def split: if_split_asm)

section \<open>The task by itself\<close>

fun alone :: "externals \<Rightarrow> response \<Rightarrow> push_task \<times> server \<Rightarrow> nat \<Rightarrow> push_task \<times> server" where
  "alone X answer z 0 = z"
| "alone X answer z (Suc n) =
     (case push_step X answer (alone X answer z n) of Ret y \<Rightarrow> y | _ \<Rightarrow> alone X answer z n)"

lemma alone_run:
  assumes "wf_but (X, cf) {} (snd z)"
  shows "task_run X (\<lambda>n. fst (alone X answer z n))"
proof -
  have wf: "wf_but (X, cf) {} (snd (alone X answer z n))" for n
  proof (induction n)
    case (Suc n)
    then show ?case
      using wf_push_step [of X cf "snd (alone X answer z n)" answer "fst (alone X answer z n)"] by auto
  qed (simp add: assms)
  have "\<exists>t. push_step X answer (fst (alone X answer z n), snd (alone X answer z n)) =
      Ret (fst (alone X answer z (Suc n)), t)" for n
    using wf_push_step [OF wf [of n], of answer "fst (alone X answer z n)"] by auto
  with wf show ?thesis unfolding task_run_def by blast
qed

end
