(* ===== verification/Reach.thy ===== *)
theory Reach
  imports Datagram Push
begin

text \<open>
  The state worker as a transition system. Every task of the process hands the worker a command
  and the worker runs them one at a time (\<open>rust/state.rs\<close>), so a run is a sequence of the steps
  below in any order: connections open, send frames and go, maintenance runs, datagrams arrive,
  the socket task of a connection takes frames from its channel, and the push sender makes a query,
  from any point of any pass and with any answer of the push service.
\<close>

section \<open>Steps\<close>

text \<open>
  The socket task takes the first frame of its channel; when the frame is written it gives its
  cost back. The second component of a run's state is the cost each socket task holds between
  the two.
\<close>

type_synonym run_state = "server \<times> (nat \<Rightarrow> nat)"

definition pop_frame :: "nat \<Rightarrow> server \<Rightarrow> (message \<times> server) option" where
  "pop_frame cid s =
     (case conn_of s cid of
        None \<Rightarrow> None
      | Some c \<Rightarrow>
          (case c_outbox c of
             [] \<Rightarrow> None
           | m # ms \<Rightarrow> Some (m, put_conn cid (c\<lparr>c_outbox := ms\<rparr>) s)))"

definition give_back :: "nat \<Rightarrow> nat \<Rightarrow> server \<Rightarrow> server" where
  "give_back n cid s =
     (case conn_of s cid of
        None \<Rightarrow> s | Some c \<Rightarrow> put_conn cid (c\<lparr>c_queued := c_queued c - n\<rparr>) s)"

text \<open>The socket task has ended: its end of the channel is gone.\<close>

definition hang_up :: "nat \<Rightarrow> server \<Rightarrow> server" where
  "hang_up cid s =
     (case conn_of s cid of None \<Rightarrow> s | Some c \<Rightarrow> put_conn cid (c\<lparr>c_open := False\<rparr>) s)"

abbreviation held :: "(nat \<Rightarrow> nat) \<Rightarrow> server outcome \<Rightarrow> run_state outcome" where
  "held f \<equiv> map_outcome (\<lambda>t. (t, f))"

inductive command :: "externals \<Rightarrow> run_state \<Rightarrow> run_state outcome \<Rightarrow> bool" for X where
  frame: "fresh_ids s \<Longrightarrow> login_ok X s m \<Longrightarrow> command X (s, f) (held f (receive X cid m s))"
| gone: "command X (s, f) (held f (disconnect X cid s))"
| maintenance: "fresh_run X (fst (clock s)) (delayed s) (snd (clock s)\<lparr>delayed := []\<rparr>) \<Longrightarrow>
    command X (s, f) (held f (sweep X s))"
| packet: "command X (s, f) (held f (map_outcome snd (datagram X bs source s)))"
| popped: "f cid = 0 \<Longrightarrow> pop_frame cid s = Some (m, t) \<Longrightarrow>
    command X (s, f) (Ret (t, f(cid := cost m)))"
| written: "command X (s, f) (Ret (give_back (f cid) cid s, f(cid := 0)))"
| ended: "command X (s, f) (Ret (hang_up cid s, f))"
| delivery: "command X (s, f) (held f (map_outcome snd (push_step X answer (task, s))))"
| legacy_taken: "command X (s, f) (Ret (snd (take_legacy s), f))"
| legacy_answered: "command X (s, f) (Ret (legacy_done X job answer s, f))"

text \<open>A connection opens under a number that is not in use.\<close>

inductive step :: "externals \<Rightarrow> run_state \<Rightarrow> run_state outcome \<Rightarrow> bool" for X where
  connect: "conn_of s cid = None \<Longrightarrow> f cid = 0 \<Longrightarrow> step X (s, f) (Ret (connected X cid s, f))"
| work: "command X x r \<Longrightarrow> step X x r"

text \<open>A run goes on with the state a command leaves, whether it returned a value or an error.\<close>

inductive reachable :: "externals \<Rightarrow> run_state \<Rightarrow> run_state \<Rightarrow> bool" for X z where
  start: "reachable X z z"
| returned: "reachable X z x \<Longrightarrow> step X x (Ret y) \<Longrightarrow> reachable X z y"
| failed: "reachable X z x \<Longrightarrow> step X x (Fail y) \<Longrightarrow> reachable X z y"

section \<open>The invariant of the run\<close>

lemma after_map_outcome [simp]: "after P (map_outcome g r) = after (\<lambda>x. P (g x)) r"
  by (cases r) auto

lemma same_books_pop_frame: "pop_frame cid s = Some (m, t) \<Longrightarrow> same_books s t"
  by (auto simp: pop_frame_def split: option.splits list.splits
      intro!: same_books_put_conn [OF same_books_refl])

lemma same_books_give_back: "same_books s (give_back n cid s)"
  by (auto simp: give_back_def split: option.splits intro!: same_books_put_conn [OF same_books_refl])

lemma same_books_hang_up: "same_books s (hang_up cid s)"
  by (auto simp: hang_up_def split: option.splits intro!: same_books_put_conn [OF same_books_refl])

lemma command_wf:
  assumes X: "parses X" and st: "command X (s, f) r" and wf: "wf_but (X, cf) {} s"
  shows "after (\<lambda>(t, g). wf_but (X, cf) {} t) r"
  using st
proof cases
  case (frame m cid)
  with wf_receive [OF X wf, of m cid] show ?thesis by simp
next
  case (gone cid)
  with wf_disconnect [OF wf, of cid] show ?thesis by simp
next
  case maintenance
  with wf_sweep [OF X wf] show ?thesis by simp
next
  case (packet bs source)
  with wf_datagram [OF X wf, of bs source] show ?thesis by (simp add: case_prod_unfold)
next
  case (popped cid m t)
  with wf wf_same_books [OF same_books_pop_frame] show ?thesis by simp
next
  case (written cid)
  with wf wf_same_books [OF same_books_give_back] show ?thesis by simp
next
  case (ended cid)
  with wf wf_same_books [OF same_books_hang_up] show ?thesis by simp
next
  case (delivery answer task)
  with wf_push_step [OF wf, of answer task] show ?thesis by auto
next
  case legacy_taken
  with wf_legacy_done(2) [OF wf] show ?thesis by simp
next
  case (legacy_answered job answer)
  with wf_legacy_done(1) [OF wf] show ?thesis by simp
qed

text \<open>No command opens a connection: those there are after it were there before.\<close>

lemma command_numbers:
  assumes "parses X" "command X (s, f) r" "wf_but (X, cf) {} s"
  shows "after (\<lambda>(t, g). set (keys (connections t)) \<subseteq> set (keys (connections s))) r"
proof -
  have "wf_but (X, fst cf, set (keys (connections s))) {} s"
    using assms(3) by (simp add: wf_but_def)
  from command_wf [OF assms(1,2) this] show ?thesis
    by (rule after_mono) (auto simp: wf_but_def)
qed

lemma step_wf:
  assumes X: "parses X" and st: "step X (s, f) r" and wf: "wf_but (X, cf, UNIV) {} s"
  shows "after (\<lambda>(t, g). wf_but (X, cf, UNIV) {} t) r"
  using st
proof cases
  case (connect cid)
  with wf_connected [OF wf] show ?thesis by simp
next
  case work
  with command_wf [OF X _ wf] show ?thesis by simp
qed

lemma reachable_wf:
  assumes X: "parses X" and wf: "wf_but (X, cf, UNIV) {} (fst z)" and r: "reachable X z x"
  shows "wf_but (X, cf, UNIV) {} (fst x)"
  using r
proof induction
  case (returned x y)
  then show ?case using step_wf [OF X, of "fst x" "snd x"] by fastforce
next
  case (failed x y)
  then show ?case using step_wf [OF X, of "fst x" "snd x"] by fastforce
qed (rule wf)

lemma step_no_panic:
  assumes "parses X" "wf_but (X, cf, UNIV) {} (fst z)" "reachable X z x"
  shows "\<not> step X x Panic"
  using step_wf [OF assms(1) _ reachable_wf [OF assms], of "snd x" Panic] by fastforce

end
