(* ===== verification/Intake.thy ===== *)
theory Intake
  imports Config Reach
begin

text \<open>
  A connection from its first byte (\<open>connection\<close> in \<open>rust/main.rs\<close>): the request header is read
  with a bound, a plain request gets the health answer, an upgrade is checked and handed to the
  WebSocket library together with the bytes already read, and then the socket task takes turns
  between its outbox, the socket and the signals to stop. The HTTP and WebSocket libraries are
  outside: what they make of the bytes is an input.
\<close>

section \<open>The header\<close>

definition crlf :: string where
  "crlf = [char_of (13 :: nat), char_of (10 :: nat)]"

definition blank_line :: bytes where "blank_line = text_bytes (crlf @ crlf)"

text \<open>\<open>prefix.windows(4).any(..)\<close>\<close>

definition header_ends :: "bytes \<Rightarrow> bool" where
  "header_ends b \<longleftrightarrow> list_ex (\<lambda>i. take 4 (drop i b) = blank_line) [0..<length b]"

definition HEADER_LIMIT :: nat where "HEADER_LIMIT = 16384"

definition READ_SIZE :: nat where "READ_SIZE = 4096"

datatype intake = Header bytes | Ended | Oversized | Reading bytes

text \<open>What the reads return, in order; an empty read is the end of the stream.\<close>

fun read_header :: "bytes \<Rightarrow> bytes list \<Rightarrow> intake" where
  "read_header prefix [] = Reading prefix"
| "read_header prefix (b # bs) =
     (if b = [] then Ended
      else
        let p = prefix @ b in
        if header_ends p then Header p
        else if length p \<ge> HEADER_LIMIT then Oversized
        else read_header p bs)"

section \<open>Text of the header\<close>

text \<open>
  \<open>String::from_utf8_lossy\<close>: the length of the sequence that starts the bytes, and whether it is
  valid; one that is not becomes a replacement character. Past the end, a byte counts as zero.
\<close>

definition byte_at :: "nat list \<Rightarrow> nat \<Rightarrow> nat" where
  "byte_at bs i = (if i < length bs then bs ! i else 0)"

abbreviation continues :: "nat \<Rightarrow> bool" where
  "continues b \<equiv> 128 \<le> b \<and> b < 192"

definition second_of_three :: "nat \<Rightarrow> nat \<Rightarrow> bool" where
  "second_of_three b c \<longleftrightarrow>
     (if b = 224 then 160 \<le> c \<and> c < 192 else if b = 237 then 128 \<le> c \<and> c < 160 else continues c)"

definition second_of_four :: "nat \<Rightarrow> nat \<Rightarrow> bool" where
  "second_of_four b c \<longleftrightarrow>
     (if b = 240 then 144 \<le> c \<and> c < 192 else if b = 244 then 128 \<le> c \<and> c < 144 else continues c)"

definition utf8_unit :: "nat \<Rightarrow> nat list \<Rightarrow> bool \<times> nat" where
  "utf8_unit b bs =
     (if b < 128 then (True, 1)
      else if 194 \<le> b \<and> b < 224 then (if continues (byte_at bs 0) then (True, 2) else (False, 1))
      else if 224 \<le> b \<and> b < 240 then
        (if \<not> second_of_three b (byte_at bs 0) then (False, 1)
         else if \<not> continues (byte_at bs 1) then (False, 2) else (True, 3))
      else if 240 \<le> b \<and> b < 245 then
        (if \<not> second_of_four b (byte_at bs 0) then (False, 1)
         else if \<not> continues (byte_at bs 1) then (False, 2)
         else if \<not> continues (byte_at bs 2) then (False, 3) else (True, 4))
      else (False, 1))"

lemma utf8_unit_positive: "0 < snd (utf8_unit b bs)"
  by (simp add: utf8_unit_def)

function lossy :: "nat list \<Rightarrow> nat list" where
  "lossy [] = []"
| "lossy (b # bs) =
     (let (ok, n) = utf8_unit b bs
      in (if ok then take n (b # bs) else [239, 191, 189]) @ lossy (drop n (b # bs)))"
  by pat_completeness auto
termination
  by (relation "measure length") (auto simp: utf8_unit_def split: if_splits)

definition header_text :: "bytes \<Rightarrow> string" where
  "header_text b = map char_of (lossy (map unat b))"

text \<open>\<open>str::lines\<close>: a carriage return is part of the line end only before a line feed.\<close>

definition strip_cr :: "string \<Rightarrow> string" where
  "strip_cr s = (if s \<noteq> [] \<and> last s = char_of (13 :: nat) then butlast s else s)"

definition text_lines :: "string \<Rightarrow> string list" where
  "text_lines s =
     (let ps = split_on (char_of (10 :: nat)) s
      in map strip_cr (butlast ps) @ (if last ps = [] then [] else [last ps]))"

definition split_once :: "char \<Rightarrow> string \<Rightarrow> (string \<times> string) option" where
  "split_once c s =
     (if c \<in> set s then Some (takeWhile (\<lambda>x. x \<noteq> c) s, tl (dropWhile (\<lambda>x. x \<noteq> c) s)) else None)"

definition asks_upgrade :: "string \<Rightarrow> bool" where
  "asks_upgrade h \<longleftrightarrow> list_ex (\<lambda>line.
     case split_once (CHR '':'') line of
       None \<Rightarrow> False
     | Some (key, v) \<Rightarrow> ascii_lower key = ''upgrade'' \<and> ascii_lower (trimmed v) = ''websocket'')
     (drop 1 (text_lines h))"

section \<open>The health answer\<close>

definition first_line :: "string \<Rightarrow> string" where
  "first_line h = (case text_lines h of [] \<Rightarrow> '''' | l # ls \<Rightarrow> l)"

definition is_health :: "string \<Rightarrow> bool" where
  "is_health first \<longleftrightarrow> first = ''GET /healthz HTTP/1.1'' \<or> first = ''GET /healthz HTTP/1.0''"

definition health_body :: "externals \<Rightarrow> server \<Rightarrow> string \<Rightarrow> string" where
  "health_body X s first =
     (if is_health first then x_display X (setk ''status'' (JStr ''ok'') (stats s)) else '''')"

definition plain_answer :: "externals \<Rightarrow> server \<Rightarrow> string \<Rightarrow> string" where
  "plain_answer X s h =
     (let first = first_line h; body = health_body X s first
      in ''HTTP/1.1 '' @ (if is_health first then ''200 OK'' else ''404 Not Found'') @ crlf @
         ''Content-Type: application/json'' @ crlf @ ''Content-Length: '' @ dec (length body) @ crlf @
         ''Connection: close'' @ crlf @ crlf @ body)"

section \<open>The upgrade\<close>

text \<open>
  The header \<open>Origin\<close>: absent, or present with its text, which the HTTP library gives only for
  visible ASCII. \<open>origins.as_array()\<close> is unwrapped.
\<close>

definition permitted :: "config \<Rightarrow> string option option \<Rightarrow> bool option" where
  "permitted cf origin =
     (case origin of
        None \<Rightarrow> Some (cfg_b cf ''allowNoOrigin'')
      | Some None \<Rightarrow> Some False
      | Some (Some t) \<Rightarrow>
          map_option (\<lambda>a. JStr t \<in> set a) (as_array (idx cf ''allowedOrigins'')))"

definition check_upgrade :: "externals \<Rightarrow> config \<Rightarrow> string \<Rightarrow> string option option \<Rightarrow>
    server \<Rightarrow> (bool \<times> server) outcome" where
  "check_upgrade X cf uri origin s =
     (case permitted cf origin of
        None \<Rightarrow> Panic
      | Some ok \<Rightarrow>
          if uri \<noteq> ''/'' \<or> \<not> ok
          then Ret (False, emit X ''upgrade.rejected'' (JObj [(''reason'',
                 JStr (if uri \<noteq> ''/'' then ''invalid_path'' else ''origin_not_allowed''))]) s)
          else Ret (True, s))"

text \<open>
  The stream the WebSocket library reads: first what has been read already, then the socket, which
  has \<open>ready\<close> bytes when it is asked.
\<close>

record prefixed =
  pf_prefix :: bytes
  pf_position :: nat
  pf_socket :: bytes

definition prefixed_read :: "nat \<Rightarrow> nat \<Rightarrow> prefixed \<Rightarrow> bytes \<times> prefixed" where
  "prefixed_read room ready p =
     (let start = pf_position p; data = pf_prefix p in
      if start < length data then
        let n = min room (length data - start)
        in (slice start (start + n) data, p\<lparr>pf_position := start + n\<rparr>)
      else (take (min room ready) (pf_socket p), p\<lparr>pf_socket := drop (min room ready) (pf_socket p)\<rparr>))"

fun prefixed_reads :: "(nat \<times> nat) list \<Rightarrow> prefixed \<Rightarrow> bytes \<times> prefixed" where
  "prefixed_reads [] p = ([], p)"
| "prefixed_reads ((room, ready) # rs) p =
     (let (b, p1) = prefixed_read room ready p; (bs, p2) = prefixed_reads rs p1 in (b @ bs, p2))"

section \<open>The socket task\<close>

text \<open>
  What ends a wait of the task, in the order it is looked at: it was aborted, the server stops, the
  outbox has a frame or is closed, the socket has a message or is closed. A frame is written, or the
  write fails or takes too long, or the task is cut off while it waits.
\<close>

datatype written = Sent | Unsent | Cut

datatype wake = Aborted | Stopping | Drained | Outgoing message written | Closed | Incoming message

definition outgoing :: "externals \<Rightarrow> nat \<Rightarrow> message \<Rightarrow> written \<Rightarrow> server \<Rightarrow>
    (bool \<times> server) outcome" where
  "outgoing X cid m w s =
     (let s1 = (case pop_frame cid s of Some (_, t) \<Rightarrow> t | None \<Rightarrow> s) in
      if w = Cut then Ret (False, s1)
      else
        let s2 = give_back (cost m) cid s1 in
        if w = Unsent then Ret (False, s2)
        else if is_close m then map_outcome (Pair False) (disconnect X cid s2)
        else Ret (True, s2))"

fun socket_turn :: "externals \<Rightarrow> nat \<Rightarrow> wake \<Rightarrow> server \<Rightarrow> (bool \<times> server) outcome" where
  "socket_turn X cid (Outgoing m w) s = outgoing X cid m w s"
| "socket_turn X cid (Incoming m) s =
     (if is_close m then Ret (False, s) else map_outcome (Pair True) (receive X cid m s))"
| "socket_turn X cid _ s = Ret (False, s)"

section \<open>The header is bounded and nothing is lost\<close>

lemma read_header_grows:
  assumes "read_header p bs = Header h"
  obtains k where "k < length bs" "h = p @ concat (take (Suc k) bs)" "header_ends h"
    "length (p @ concat (take k bs)) < HEADER_LIMIT \<or> k = 0"
    "k = 0 \<or> \<not> header_ends (p @ concat (take k bs))"
proof -
  have "\<exists>k. k < length bs \<and> h = p @ concat (take (Suc k) bs) \<and> header_ends h \<and>
      (length (p @ concat (take k bs)) < HEADER_LIMIT \<or> k = 0) \<and>
      (k = 0 \<or> \<not> header_ends (p @ concat (take k bs)))"
    using assms
  proof (induction p bs rule: read_header.induct)
    case (2 p b bs)
    show ?case
    proof (cases "header_ends (p @ b)")
      case True
      with "2.prems" have "h = p @ b" by (auto simp: Let_def split: if_splits)
      with True show ?thesis by (intro exI [of _ 0]) simp
    next
      case False
      with "2.prems" have short: "b \<noteq> []" "length (p @ b) < HEADER_LIMIT"
        and rest: "read_header (p @ b) bs = Header h"
        by (auto simp: Let_def split: if_splits)
      from "2.IH" [OF short(1) refl False _ rest] short(2) obtain k where
        "k < length bs" "h = (p @ b) @ concat (take (Suc k) bs)" "header_ends h"
        "length ((p @ b) @ concat (take k bs)) < HEADER_LIMIT \<or> k = 0"
        "k = 0 \<or> \<not> header_ends ((p @ b) @ concat (take k bs))" by auto
      with short(2) False show ?thesis by (intro exI [of _ "Suc k"]) (cases k; simp)
    qed
  qed simp
  then show thesis using that by blast
qed

lemma header_bounded:
  assumes "read_header [] bs = Header h" "\<forall>b \<in> set bs. length b \<le> READ_SIZE"
  shows "length h < HEADER_LIMIT + READ_SIZE"
proof -
  obtain k where k: "k < length bs" "h = [] @ concat (take (Suc k) bs)"
    "length ([] @ concat (take k bs)) < HEADER_LIMIT \<or> k = 0"
    by (rule read_header_grows [OF assms(1)])
  have "length (bs ! k) \<le> READ_SIZE" using k(1) assms(2) by simp
  with k show ?thesis
    by (auto simp: take_Suc_conv_app_nth HEADER_LIMIT_def)
qed

lemma reading_bounded: "read_header p bs = Reading q \<Longrightarrow> length p < HEADER_LIMIT \<Longrightarrow> length q < HEADER_LIMIT"
  by (induction p bs rule: read_header.induct) (auto simp: Let_def split: if_splits)

definition unread :: "prefixed \<Rightarrow> bytes" where
  "unread p = drop (pf_position p) (pf_prefix p) @ pf_socket p"

lemma prefixed_read_unread:
  assumes "prefixed_read room ready p = (b, q)"
  shows "b @ unread q = unread p"
proof (cases "pf_position p < length (pf_prefix p)")
  case True
  let ?n = "min room (length (pf_prefix p) - pf_position p)"
  have "slice (pf_position p) (pf_position p + ?n) (pf_prefix p) @
      drop (pf_position p + ?n) (pf_prefix p) = drop (pf_position p) (pf_prefix p)"
    by (simp add: slice_def add.commute [of "pf_position p"] flip: drop_drop)
  with True assms show ?thesis by (auto simp: prefixed_read_def Let_def unread_def)
next
  case False
  with assms show ?thesis by (auto simp: prefixed_read_def Let_def unread_def)
qed

lemma prefixed_reads_unread: "prefixed_reads rs p = (b, q) \<Longrightarrow> b @ unread q = unread p"
proof (induction rs arbitrary: p b q)
  case (Cons r rs)
  obtain room ready where r: "r = (room, ready)" by fastforce
  obtain b1 p1 where 1: "prefixed_read room ready p = (b1, p1)" by fastforce
  obtain b2 p2 where 2: "prefixed_reads rs p1 = (b2, p2)" by fastforce
  from Cons.prems have "b = b1 @ b2" "q = p2" by (auto simp: r 1 2)
  with Cons.IH [OF 2] prefixed_read_unread [OF 1] show ?case by auto
qed auto

lemma prefixed_read_progress:
  assumes "prefixed_read room ready p = (b, q)" "0 < room" "0 < ready" "unread p \<noteq> []"
  shows "b \<noteq> []"
  using assms by (auto simp: prefixed_read_def Let_def unread_def slice_def split: if_splits)

text \<open>The WebSocket library reads what the client sent, from the first byte and in order.\<close>

lemma handshake_reads_all:
  assumes "read_header [] bs = Header h"
  obtains rest where "concat bs = h @ rest"
    "\<And>rs b q. prefixed_reads rs \<lparr>pf_prefix = h, pf_position = 0, pf_socket = rest\<rparr> = (b, q) \<Longrightarrow>
       b @ unread q = concat bs"
proof -
  obtain k where k: "h = [] @ concat (take (Suc k) bs)"
    by (rule read_header_grows [OF assms])
  let ?rest = "concat (drop (Suc k) bs)"
  have "concat bs = h @ ?rest"
    using k by (metis append_Nil append_take_drop_id concat_append)
  moreover from this have "b @ unread q = concat bs"
    if "prefixed_reads rs \<lparr>pf_prefix = h, pf_position = 0, pf_socket = ?rest\<rparr> = (b, q)" for rs b q
    using prefixed_reads_unread [OF that] by (simp add: unread_def)
  ultimately show thesis by (rule that)
qed

section \<open>What is ASCII in the header stays\<close>

lemma second_continues: "second_of_three b c \<Longrightarrow> continues c" "second_of_four b c \<Longrightarrow> continues c"
  by (auto simp: second_of_three_def second_of_four_def split: if_splits)

lemma utf8_unit_cases:
  assumes "utf8_unit b bs = (ok, n)" "\<not> b < 128"
  shows "n = 1 \<or> n = 2 \<and> continues (byte_at bs 0) \<or>
    n = 3 \<and> continues (byte_at bs 0) \<and> continues (byte_at bs 1) \<or>
    n = 4 \<and> continues (byte_at bs 0) \<and> continues (byte_at bs 1) \<and> continues (byte_at bs 2)"
  using assms second_continues [of b "byte_at bs 0"] unfolding utf8_unit_def
  by (simp split: if_split_asm)

lemma utf8_unit_ascii:
  assumes "utf8_unit b bs = (ok, n)" "\<not> b < 128"
  shows "\<forall>c \<in> set (take n (b # bs)). \<not> c < 128"
proof -
  have rest: "128 \<le> byte_at bs i" if "Suc i < n" for i
  proof -
    from that utf8_unit_cases [OF assms] have "i = 0 \<or> i = 1 \<or> i = 2" by linarith
    with that utf8_unit_cases [OF assms] show ?thesis by (elim disjE) simp_all
  qed
  show ?thesis
  proof
    fix c assume "c \<in> set (take n (b # bs))"
    then obtain i where i: "i < n" "i < Suc (length bs)" "c = (b # bs) ! i"
      by (auto simp: in_set_conv_nth)
    show "\<not> c < 128"
    proof (cases i)
      case 0
      with i assms(2) show ?thesis by simp
    next
      case (Suc j)
      with i rest [of j] show ?thesis by (simp add: byte_at_def)
    qed
  qed
qed

lemma lossy_ascii: "filter (\<lambda>c. c < 128) (lossy bs) = filter (\<lambda>c. c < 128) bs"
proof (induction bs rule: lossy.induct)
  case (2 b bs)
  obtain ok n where u: "utf8_unit b bs = (ok, n)" by fastforce
  have IH: "filter (\<lambda>c. c < 128) (lossy (drop n (b # bs))) = filter (\<lambda>c. c < 128) (drop n (b # bs))"
    using 2 u by simp
  have split: "filter (\<lambda>c. c < 128) (b # bs) =
      filter (\<lambda>c. c < 128) (take n (b # bs)) @ filter (\<lambda>c. c < 128) (drop n (b # bs))"
    by (metis append_take_drop_id filter_append)
  show ?case
  proof (cases "b < 128")
    case True
    then have "ok" "n = 1" using u by (auto simp: utf8_unit_def)
    with True IH u show ?thesis by simp
  next
    case False
    then have "filter (\<lambda>c. c < 128) (take n (b # bs)) = []"
      using utf8_unit_ascii [OF u] by (auto simp: filter_empty_conv)
    with IH split u show ?thesis by (simp add: Let_def)
  qed
qed simp

lemma lossy_plain: "\<forall>b \<in> set bs. b < 128 \<Longrightarrow> lossy bs = bs"
  by (induction bs rule: lossy.induct) (simp_all add: utf8_unit_def)

section \<open>The answers\<close>

text \<open>Only a request for the health page is told anything of the server.\<close>

lemma plain_answer_closed:
  "\<not> is_health (first_line h) \<Longrightarrow> plain_answer X s h = plain_answer X t h"
  by (simp add: plain_answer_def health_body_def Let_def)

lemma typed_origins: "config_typed cf \<Longrightarrow> \<exists>xs. idx cf ''allowedOrigins'' = jstrs xs"
proof -
  assume "config_typed cf"
  moreover have "(''allowedOrigins'', jstrs [''http://127.0.0.1:8081'', ''http://localhost:8081'']) \<in> set defaults"
    by (simp add: defaults_def)
  ultimately obtain w where "getk cf ''allowedOrigins'' = Some w"
    "kind_ok ''allowedOrigins'' (jstrs [''http://127.0.0.1:8081'', ''http://localhost:8081'']) w"
    unfolding config_typed_def by blast
  then show ?thesis by (auto simp: idx_def)
qed

lemma check_upgrade_ok:
  assumes "config_typed cf"
  shows "\<exists>ok t. check_upgrade X cf uri origin s = Ret (ok, t) \<and> quiet s t \<and>
    (ok \<longleftrightarrow> uri = ''/'' \<and> (case origin of
       None \<Rightarrow> cfg_b cf ''allowNoOrigin''
     | Some None \<Rightarrow> False
     | Some (Some y) \<Rightarrow> JStr y \<in> set (elems (idx cf ''allowedOrigins''))))"
proof -
  obtain xs where "idx cf ''allowedOrigins'' = jstrs xs" using typed_origins [OF assms] by blast
  then show ?thesis
    by (auto simp: check_upgrade_def permitted_def elems_def jstrs_def emit.quiet_op split: option.splits)
qed

section \<open>A turn of the socket task is a run of the state worker\<close>

lemma outgoing_reaches:
  assumes z: "reachable X z (s, f)" and f: "f cid = 0"
    and m: "conn_of s cid = None \<or> (\<exists>t. pop_frame cid s = Some (m, t))"
    and r: "outgoing X cid m w s = Ret (go, t) \<or> outgoing X cid m w s = Fail (go, t)"
  shows "\<exists>g. reachable X z (t, g)"
proof -
  define s1 where "s1 = (case pop_frame cid s of Some (_, t) \<Rightarrow> t | None \<Rightarrow> s)"
  have "\<exists>f1. reachable X z (s1, f1) \<and> (f1 cid = cost m \<or> conn_of s1 cid = None)"
  proof (cases "conn_of s cid")
    case None
    then have "s1 = s" by (simp add: s1_def pop_frame_def)
    with z None show ?thesis by blast
  next
    case (Some c)
    with m obtain t1 where p: "pop_frame cid s = Some (m, t1)" by auto
    then have "reachable X z (t1, f(cid := cost m))" by (intro returned [OF z] work popped f)
    with p show ?thesis by (auto simp: s1_def)
  qed
  then obtain f1 where 1: "reachable X z (s1, f1)" "f1 cid = cost m \<or> conn_of s1 cid = None" by blast
  have "give_back (cost m) cid s1 = give_back (f1 cid) cid s1"
    using 1(2) by (auto simp: give_back_def split: option.split)
  then have 2: "reachable X z (give_back (cost m) cid s1, f1(cid := 0))"
    using returned [OF 1(1) work [OF written], of cid] by simp
  have 3: "disconnect X cid (give_back (cost m) cid s1) = x \<Longrightarrow> x = Ret u \<or> x = Fail u \<Longrightarrow>
      reachable X z (u, f1(cid := 0))" for x u
    using returned [OF 2] failed [OF 2] step.work [OF command.gone [of X "give_back (cost m) cid s1" "f1(cid := 0)" cid]]
    by auto
  show ?thesis
  proof (cases "disconnect X cid (give_back (cost m) cid s1)")
    case Panic
    with r 1 2 show ?thesis by (auto simp: outgoing_def Let_def simp flip: s1_def split: if_splits)
  next
    case (Fail u)
    with r 1 2 3 [OF Fail] show ?thesis by (auto simp: outgoing_def Let_def simp flip: s1_def split: if_splits)
  next
    case (Ret u)
    with r 1 2 3 [OF Ret] show ?thesis by (auto simp: outgoing_def Let_def simp flip: s1_def split: if_splits)
  qed
qed

fun possible :: "externals \<Rightarrow> nat \<Rightarrow> wake \<Rightarrow> server \<Rightarrow> bool" where
  "possible X cid (Outgoing m w) s \<longleftrightarrow> conn_of s cid = None \<or> (\<exists>t. pop_frame cid s = Some (m, t))"
| "possible X cid (Incoming m) s \<longleftrightarrow> fresh_ids s \<and> login_ok X s m"
| "possible X cid _ s \<longleftrightarrow> True"

lemma socket_turn_reaches:
  assumes z: "reachable X z (s, f)" and f: "f cid = 0" and w: "possible X cid w s"
    and r: "socket_turn X cid w s = Ret (go, t) \<or> socket_turn X cid w s = Fail (go, t)"
  shows "\<exists>g. reachable X z (t, g)"
proof (cases w)
  case (Outgoing m v)
  with outgoing_reaches [OF z f, of m v go t] w r show ?thesis by simp
next
  case (Incoming m)
  have st: "step X (s, f) (held f (receive X cid m s))"
    using w Incoming by (intro step.work command.frame) simp_all
  show ?thesis
  proof (cases "is_close m")
    case True
    with r z Incoming show ?thesis by auto
  next
    case False
    with r Incoming st returned [OF z] failed [OF z] show ?thesis
      by (cases "receive X cid m s") (auto intro!: exI [of _ f])
  qed
qed (use r z in auto)

lemma socket_turn_safe:
  assumes X: "parses X" and wf: "wf_but (X, cf) {} s" and w: "possible X cid w s"
  shows "after (\<lambda>(go, t). wf_but (X, cf) {} t) (socket_turn X cid w s)"
proof (cases w)
  case (Outgoing m v)
  let ?s = "case pop_frame cid s of Some (_, t) \<Rightarrow> t | None \<Rightarrow> s"
  have 1: "wf_but (X, cf) {} ?s"
    using wf by (auto split: option.split intro: wf_same_books [OF same_books_pop_frame])
  then have 2: "wf_but (X, cf) {} (give_back n cid ?s)" for n
    by (rule wf_same_books [OF same_books_give_back])
  have "after (\<lambda>t. wf_but (X, cf) {} t) (disconnect X cid (give_back (cost m) cid ?s))"
    by (rule wf_disconnect [OF 2])
  with 1 2 Outgoing show ?thesis by (auto simp: outgoing_def Let_def)
next
  case (Incoming m)
  with wf_receive [OF X wf, of m cid] w wf show ?thesis by auto
qed (use wf in auto)

end
