(* ===== verification/Tools.thy ===== *)
theory Tools
  imports Intake Logger
begin

text \<open>
  The command line of the developer tools (\<open>rust/tools/main.rs\<close>) and the server of the demo page
  (\<open>rust/tools/web.rs\<close>).
\<close>

section \<open>The command line\<close>

definition number :: "env \<Rightarrow> string \<Rightarrow> nat \<Rightarrow> nat \<Rightarrow> nat \<Rightarrow> nat option" where
  "number env k d lo hi =
     (case (case env k of Given s \<Rightarrow> parse_u64 s | _ \<Rightarrow> Some d) of
        None \<Rightarrow> None
      | Some v \<Rightarrow> if lo \<le> v \<and> v \<le> hi then Some v else None)"

datatype tool = Demo | Memory | Benchmark | Load_Test string | Smoke string | Network string | Help

definition tool_of :: "string list \<Rightarrow> tool option" where
  "tool_of args =
     (case args of
        [] \<Rightarrow> Some Help
      | a # rest \<Rightarrow>
          if a = ''demo'' then Some Demo
          else if a = ''memory'' then Some Memory
          else if a = ''benchmark'' then Some Benchmark
          else if a = ''loadtest'' then (case rest of [] \<Rightarrow> None | p # ps \<Rightarrow> Some (Load_Test p))
          else if a = ''smoke'' \<or> a = ''network-baseline'' then
            (case rest of
               [] \<Rightarrow> None
             | url # us \<Rightarrow>
                 if take 5 url = ''ws://'' \<or> take 6 url = ''wss://''
                 then Some (if a = ''smoke'' then Smoke url else Network url)
                 else None)
          else if a = ''--help'' then Some Help
          else None)"

text \<open>A tool that talks to a server talks to the endpoint it was given.\<close>

lemma tool_endpoint:
  assumes "tool_of args = Some t" "t = Smoke url \<or> t = Network url"
  shows "\<exists>c us. args = c # url # us \<and> (take 5 url = ''ws://'' \<or> take 6 url = ''wss://'')"
  using assms by (auto simp: tool_of_def split: list.splits if_split_asm)

section \<open>The demo page\<close>

definition PAGE_REQUEST :: nat where "PAGE_REQUEST = 8192"

datatype page_read = Whole bytes | Refused | More bytes

fun read_page_request :: "bytes \<Rightarrow> bytes list \<Rightarrow> page_read" where
  "read_page_request p bs =
     (if header_ends p then Whole p
      else case bs of
          [] \<Rightarrow> More p
        | b # rest \<Rightarrow>
            if b = [] \<or> length p + length b > PAGE_REQUEST then Refused
            else read_page_request (p @ b) rest)"

declare read_page_request.simps [simp del]

lemma words_shorter:
  assumes "dropWhile P cs \<noteq> []"
  shows "length (dropWhile (\<lambda>c. \<not> P c) (dropWhile P cs)) < length cs"
proof -
  obtain a r where r: "dropWhile P cs = a # r" using assms by (cases "dropWhile P cs") auto
  then have "\<not> P a" by (metis dropWhile_eq_Cons_conv)
  then have "length (dropWhile (\<lambda>c. \<not> P c) (dropWhile P cs)) \<le> length r"
    by (simp add: r length_dropWhile_le)
  also have "\<dots> < length (dropWhile P cs)" by (simp add: r)
  also have "\<dots> \<le> length cs" by (rule length_dropWhile_le)
  finally show ?thesis .
qed

text \<open>\<open>str::split_whitespace\<close>\<close>

function words_of :: "nat list \<Rightarrow> nat list list" where
  "words_of cs =
     (let r = dropWhile white_space cs in
      if r = [] then []
      else takeWhile (\<lambda>c. \<not> white_space c) r # words_of (dropWhile (\<lambda>c. \<not> white_space c) r))"
  by pat_completeness auto
termination by (relation "measure length") (auto simp: words_shorter)

declare words_of.simps [simp del]

definition http_words :: "bytes \<Rightarrow> string list" where
  "http_words b = map text_of (words_of (chars (first_line (header_text b))))"

definition web_status :: "string \<Rightarrow> string \<Rightarrow> string \<Rightarrow> string \<times> string" where
  "web_status html verb asked =
     (if verb \<notin> {''GET'', ''HEAD''} then (''405 Method Not Allowed'', '''')
      else if asked \<notin> {''/'', ''/demo.html''} then (''404 Not Found'', '''')
      else (''200 OK'', html))"

definition web_response :: "string \<Rightarrow> nat \<Rightarrow> string \<Rightarrow> string" where
  "web_response status n shown =
     ''HTTP/1.1 '' @ status @ crlf @ ''Content-Type: text/html; charset=utf-8'' @ crlf @
     ''Content-Length: '' @ dec n @ crlf @ ''Cache-Control: no-store'' @ crlf @
     ''X-Content-Type-Options: nosniff'' @ crlf @ ''Allow: GET, HEAD'' @ crlf @
     ''Connection: close'' @ crlf @ crlf @ shown"

text \<open>\<open>html\<close> is the page built into the tool.\<close>

definition web_answer :: "string \<Rightarrow> bytes \<Rightarrow> string" where
  "web_answer html b =
     (let parts = http_words b;
          verb = (case parts of [] \<Rightarrow> '''' | m # ms \<Rightarrow> m);
          asked = (case parts of m # p # ps \<Rightarrow> p | _ \<Rightarrow> '''');
          (status, body) = web_status html verb asked
      in web_response status (length body) (if verb = ''HEAD'' then '''' else body))"

lemma page_request_bounded:
  "read_page_request p bs = Whole h \<Longrightarrow> length p \<le> PAGE_REQUEST \<Longrightarrow> length h \<le> PAGE_REQUEST \<and> header_ends h"
proof (induction p bs rule: read_page_request.induct)
  case (1 p bs)
  then show ?case
    by (subst (asm) read_page_request.simps) (auto split: if_split_asm list.splits)
qed

text \<open>
  Whatever is asked for, the answer is one of four: the page, its size without it, or an error
  without a body. No part of a request gets into it.
\<close>

lemma web_answer_closed:
  "web_answer html b \<in>
     {web_response ''200 OK'' (length html) html, web_response ''200 OK'' (length html) '''',
      web_response ''404 Not Found'' 0 '''', web_response ''405 Method Not Allowed'' 0 ''''}"
  by (simp add: web_answer_def web_status_def Let_def)

text \<open>\<open>words_of\<close> yields words without white space, none of them empty.\<close>

lemma words_of_ok: "list_all (\<lambda>w. w \<noteq> [] \<and> list_all (\<lambda>c. \<not> white_space c) w) (words_of cs)"
proof (induction cs rule: words_of.induct)
  case (1 cs)
  let ?r = "dropWhile white_space cs"
  show ?case
  proof (cases "?r = []")
    case True
    then show ?thesis by (subst words_of.simps) simp
  next
    case False
    then have "\<not> white_space (hd ?r)" by (metis hd_dropWhile)
    then have "takeWhile (\<lambda>c. \<not> white_space c) ?r \<noteq> []" using False by (cases ?r) auto
    moreover have "list_all (\<lambda>c. \<not> white_space c) (takeWhile (\<lambda>c. \<not> white_space c) ?r)"
      by (auto simp: list_all_iff dest: set_takeWhileD)
    ultimately show ?thesis using 1 False by (subst words_of.simps) (simp add: Let_def)
  qed
qed

end
