(* ===== verification/Sample.thy ===== *)
theory Sample
  imports Datagram Saved
begin

text \<open>
  A concrete instance of the parameters and two concrete servers. The theorems of the
  development are applied to them to show that their hypotheses can hold together.
\<close>

section \<open>The parameters\<close>

text \<open>The sixteen bytes of a UUID text: two hexadecimal digits each, at these positions.\<close>

definition hex_value :: "char \<Rightarrow> nat" where
  "hex_value c =
     (if is_digit c then of_char c - 48 else if is_lower c then of_char c - 87 else of_char c - 55)"

definition uuid_bytes :: "string \<Rightarrow> bytes" where
  "uuid_bytes s = map (\<lambda>i. of_nat (hex_value (s ! i) * 16 + hex_value (s ! Suc i)))
     [0, 2, 4, 6, 9, 11, 14, 16, 19, 21, 24, 26, 28, 30, 32, 34]"

text \<open>The texts the sample clients send, with the values they stand for.\<close>

definition ID_A :: string where "ID_A = ''aaaaaaaa-0000-4000-8000-000000000001''"
definition ID_B :: string where "ID_B = ''bbbbbbbb-0000-4000-8000-000000000002''"
definition ID_R :: string where "ID_R = ''cccccccc-0000-4000-8000-000000000003''"
definition ID_N :: string where "ID_N = ''dddddddd-0000-4000-8000-000000000004''"

lemmas sample_ids = ID_A_def ID_B_def ID_R_def ID_N_def

definition sample_text :: "string \<Rightarrow> json option" where
  "sample_text t =
     (if t = ''login'' then Some (JObj [(''method'', JStr ''authenticate''), (''data'', JObj [])])
      else if t = ''chat'' then Some (JObj [(''method'', JStr ''sendChatMsg''), (''data'', JStr ''hi'')])
      else if t = ''leave'' then Some (JObj [(''method'', JStr ''leaveRoom''), (''data'', JNull)])
      else None)"

definition X0 :: externals where
  "X0 = \<lparr>x_num = (\<lambda>q. dec (nat \<lfloor>q\<rfloor>)), x_quote = (\<lambda>s. s), x_display = (\<lambda>v. ''v''),
     x_from_str = sample_text, x_to_vec = (\<lambda>v. [1]), x_from_slice = (\<lambda>b. None),
     x_uuid_parse = (\<lambda>s. Some (uuid_bytes s)), x_uuid_text = (\<lambda>b. ID_B),
     x_hmac = (\<lambda>k m. take 32 (rev m @ k @ replicate 32 0)), x_b64 = (\<lambda>b. ''b''),
     x_b64url = (\<lambda>b. ''u''), x_time = (\<lambda>t. ''t'')\<rparr>"

lemma parses_X0: "parses X0"
  by (simp add: parses_def X0_def uuid_bytes_def)

section \<open>The servers\<close>

definition W0 :: world where
  "W0 = \<lparr>w_clock = (\<lambda>n. 100000), w_ticks = 0, w_ids = (\<lambda>n. ID_N), w_drawn = 0,
     w_random = (\<lambda>n. replicate 32 7), w_rolls = 0, w_disk = (\<lambda>n. True), w_calls = 0\<rparr>"

definition config0 :: config where
  "config0 = JObj [(''maxPayloadBytes'', jnat 65536), (''maxBufferedBytes'', jnat 262144),
     (''maxMessagesPerSecond'', jnat 120), (''maxRoomPlayers'', jnat 16), (''maxAccounts'', jnat 1024),
     (''maxRooms'', jnat 128), (''accountTtlMs'', jnat 300000), (''idleTimeoutMs'', jnat 50000),
     (''authTimeoutMs'', jnat 5000), (''heartbeatIntervalMs'', jnat 10000),
     (''maxSessionBytes'', jnat 16777216), (''maxConnections'', jnat 256),
     (''maxConnectionsPerIp'', jnat 32), (''maxConnectionsPerMinute'', jnat 60),
     (''udpEnabled'', JBool True), (''udpMaxDatagramBytes'', jnat 1200),
     (''udpIncomingPacketsPerSecond'', jnat 120), (''udpOutgoingPacketsPerSecond'', jnat 120),
     (''udpEndpointTtlMs'', jnat 60000), (''udpChallengeTtlMs'', jnat 5000)]"

definition diag0 :: diag where
  "diag0 = \<lparr>d_verbose = False, d_tx = False, d_lines = [], d_queued = 0, d_dropped = 0,
     d_activity = JObj [], d_errors = []\<rparr>"

definition store0 :: store where
  "store0 = \<lparr>st_enabled = True, st_max = 1073741824, st_jobs = [], st_files = []\<rparr>"

definition conn0 :: "string option \<Rightarrow> connection" where
  "conn0 p = \<lparr>c_udp = None, c_udp_in = rate_default, c_udp_out = rate_default, c_outbox = [],
     c_open = True, c_queued = 0, c_player = p, c_created = 99000, c_activity = 99000,
     c_ping = None, c_last_ping = 99000, c_rate_at = 99000, c_messages = 0, c_delayed = 0,
     c_pending = 0, c_closing = False, c_abort = False\<rparr>"

text \<open>One connection that has not authenticated.\<close>

definition server0 :: server where
  "server0 = \<lparr>diagnostics = diag0, config = config0, players = [], rooms = [],
     connections = [(1, conn0 None)], store = store0, delayed = [], push = False,
     pushes_in_flight = 0, legacy_pushes = [], notice_wake = False, legacy_wake = False,
     world = W0\<rparr>"

text \<open>Two players in the room one of them owns: a started game with a fixed roster.\<close>

definition player0 :: "string \<Rightarrow> nat \<Rightarrow> player" where
  "player0 i cid = \<lparr>p_id = i, p_name = ''name'', p_password = ''secret'', p_connection = Some cid,
     p_room = Some ID_R, p_entered = Some 1, p_rtt = None, p_offline = None, p_version = 1,
     p_devices = []\<rparr>"

definition room0 :: room where
  "room0 = \<lparr>r_id = ID_R, r_name = ''room'', r_owner = ID_A, r_max = 4, r_password = JNull,
     r_game = JNull, r_meta = JNull, r_active = [ID_A, ID_B], r_reservations = [],
     r_players = [ID_A, ID_B], r_events = [], r_started = True, r_closed = False, r_fixed = True,
     r_migration = True, r_generation = 3, r_binary = False, r_persistent = True,
     r_start = JObj [], r_state = [1, 2, 3], r_revision = 5, r_updated = 90000,
     r_upload = Some \<lparr>u_id = ID_N, u_owner = ID_A, u_generation = 3, u_revision = 5,
       u_bytes = [0, 0, 0, 0], u_offset = 1, u_at = 99000\<rparr>, r_last_push = 0\<rparr>"

definition server1 :: server where
  "server1 = server0\<lparr>players := [(ID_A, player0 ID_A 1), (ID_B, player0 ID_B 2)],
     rooms := [(ID_R, room0)],
     connections := [(1, conn0 (Some ID_A)), (2, conn0 (Some ID_B))]\<rparr>"

lemma uuid_sample: "uuid_text ID_A" "uuid_text ID_B" "uuid_text ID_R" "uuid_text ID_N"
  by code_simp+

lemma ids_distinct: "distinct [ID_A, ID_B, ID_R, ID_N]"
  by (simp add: sample_ids)

lemma ids_neq [simp]: "ID_A \<noteq> ID_B" "ID_B \<noteq> ID_A" "ID_A \<noteq> ID_R" "ID_R \<noteq> ID_A" "ID_A \<noteq> ID_N"
  "ID_N \<noteq> ID_A" "ID_B \<noteq> ID_R" "ID_R \<noteq> ID_B" "ID_B \<noteq> ID_N" "ID_N \<noteq> ID_B" "ID_R \<noteq> ID_N" "ID_N \<noteq> ID_R"
  using ids_distinct by auto

lemmas sample_defs = server1_def server0_def player0_def room0_def conn0_def store0_def diag0_def W0_def

lemma sound_store0: "sound_jobs store0"
  by (simp add: sound_jobs_def store0_def)

lemma wf_server0: "server_wf X0 server0"
  by (auto simp: server_wf_def wf_but_def server0_def books_def members_agree_def sound_store0)

lemma room0_ok: "entry_ok ID_R room0"
  by (simp add: entry_ok_def room_ok_def room0_def uuid_sample)

lemma wf_server1: "server_wf X0 server1"
  unfolding server_wf_def wf_but_def
proof (intro conjI refl)
  show "imap_ok (players server1)" "imap_ok (rooms server1)" "imap_ok (connections server1)"
    "list_all (frame_valid X0 (fst (config server1, UNIV))) (delayed server1)"
    "set (keys (connections server1)) \<subseteq> snd (config server1, UNIV)"
    "config server1 = fst (config server1, UNIV)" "sound_jobs (store server1)"
    by (simp_all add: server1_def server0_def sound_store0)
  show "books {} (player_of server1) (room_at server1) (bound_to server1)"
    unfolding books_def
  proof (intro conjI allI impI)
    show "player_ok {} (bound_to server1) p pl" if "player_of server1 p = Some pl" for p pl
      using that by (auto simp: server1_def player_ok_def player0_def conn0_def uuid_sample
          devices_ok_def split: if_splits)
    show "entry_ok i r" if "room_at server1 i = Some r" for i r
      using that room0_ok by (auto simp: server1_def split: if_splits)
    show "members_agree (player_of server1) (room_at server1)"
      by (auto simp: members_agree_def server1_def room0_def player0_def split: if_splits)
  qed
qed

lemma future_server0: "future_ids (world server0) = {ID_N}" "future_ids (world server1) = {ID_N}"
  by (auto simp: future_ids_def server0_def server1_def W0_def)

lemma fresh_server0: "fresh_ids server0"
  unfolding fresh_ids_def future_server0 by (simp add: server0_def uuid_sample)

lemma fresh_server1: "fresh_ids server1"
  unfolding fresh_ids_def future_server0 by (simp add: server1_def uuid_sample)

lemma login_server0: "login_ok X0 server0 frame" "login_ok X0 server1 frame"
  by (auto simp: login_ok_def own_account_def X0_def split: message.split option.split)


section \<open>Outcomes\<close>

fun holds :: "('a \<Rightarrow> bool) \<Rightarrow> 'a outcome \<Rightarrow> bool" where
  "holds P (Ret t) = P t"
| "holds P r = False"

lemma holdsD: "holds P r \<Longrightarrow> \<exists>t. r = Ret t \<and> P t"
  by (cases r) auto

text \<open>One account that is not connected.\<close>

definition server3 :: server where
  "server3 = server0\<lparr>players := [(ID_A, (player0 ID_A 1)\<lparr>p_connection := None, p_room := None,
     p_offline := Some 90000\<rparr>)]\<rparr>"

definition login0 :: json where
  "login0 = JObj [(''playerId'', JStr ID_A), (''password'', JStr ''secret'')]"

lemma login_works: "holds (\<lambda>t. bound_to t 1 = Some (Some ID_A)) (auth X0 1 login0 server3)"
  by code_simp

text \<open>A lobby: a room that has not started, whose owner is in it, and a player outside.\<close>

definition server4 :: server where
  "server4 = server1\<lparr>
     players := [(ID_A, player0 ID_A 1), (ID_B, (player0 ID_B 2)\<lparr>p_room := None\<rparr>)],
     rooms := [(ID_R, room0\<lparr>r_active := [ID_A], r_players := [], r_started := False,
       r_fixed := False, r_migration := False, r_persistent := False, r_password := JStr ''pw'',
       r_upload := None\<rparr>)]\<rparr>"

lemma enters_lobby:
  "holds (\<lambda>t. map_option p_room (player_of t ID_B) = Some (Some ID_R))
     (enter X0 ID_B ID_R (JStr ''pw'') server4)"
  by code_simp

lemma leaves_room0: "holds (\<lambda>t. True) (leave X0 ID_A False server1)"
  by code_simp

section \<open>Sessions\<close>

text \<open>
  The same room with a datagram session on each connection; the first one also has a challenge
  open. Both endpoints are fresh at the time the sample clock shows.
\<close>

definition SOURCE :: addr where "SOURCE = (''10.0.0.1'', 4000)"

definition session0 :: "byte \<Rightarrow> (addr \<times> nat) option \<Rightarrow> (addr \<times> bytes \<times> nat) option \<Rightarrow> session" where
  "session0 k e c = \<lparr>s_secret = replicate 32 k, s_version = 1, s_replay = replay_default,
     s_outgoing = 0, s_endpoint = e, s_challenge = c\<rparr>"

definition challenge0 :: bytes where "challenge0 = replicate 16 9"

definition server2 :: server where
  "server2 = server1\<lparr>connections :=
     [(1, (conn0 (Some ID_A))\<lparr>c_udp := Some (session0 3 (Some (SOURCE, 99000))
            (Some (SOURCE, challenge0, 99000)))\<rparr>),
      (2, (conn0 (Some ID_B))\<lparr>c_udp := Some (session0 4 (Some ((''10.0.0.2'', 5000), 99000)) None)\<rparr>)]\<rparr>"

definition packet0 :: "byte \<Rightarrow> bytes \<Rightarrow> bytes" where
  "packet0 kind payload = encode X0 (replicate 32 3) kind 1 1 nil_uuid payload"

lemma relays_packet0:
  "holds (\<lambda>(out, s). out \<noteq> []) (datagram_at X0 (packet0 2 [1, 2]) SOURCE 100000 server2)"
  by code_simp

lemma kind_packet0: "dg_kind (packet0 2 [1, 2]) = 2"
  by code_simp

lemma wf_server2: "server_wf X0 server2"
proof -
  have "same_books server1 server2"
    by (auto simp: same_books_def server2_def server1_def server0_def conn0_def fun_eq_iff)
  from wf_same_books [OF this, of X0 "(config server1, UNIV)" "{}"] wf_server1
  show ?thesis by (simp add: server_wf_def server2_def)
qed


text \<open>The first connection has been challenged and has no endpoint yet.\<close>

definition server5 :: server where
  "server5 = server1\<lparr>connections :=
     [(1, (conn0 (Some ID_A))\<lparr>c_udp := Some (session0 3 None (Some (SOURCE, challenge0, 99000)))\<rparr>)]\<rparr>"

lemma confirms_packet0:
  "holds (\<lambda>(out, s). Option.bind (conn_of s 1) (\<lambda>c. Option.bind (c_udp c) (\<lambda>u. map_option fst (s_endpoint u)))
     = Some SOURCE) (datagram_at X0 (packet0 1 challenge0) SOURCE 100000 server5)"
  by code_simp

lemma cid_packet0: "dg_cid (packet0 1 challenge0) = 1"
  by code_simp

section \<open>Files\<close>

text \<open>A codec that reads back the one value it is given.\<close>

definition codec :: "json \<Rightarrow> externals" where
  "codec v = X0\<lparr>x_to_vec := (\<lambda>w. [1]), x_from_slice := (\<lambda>b. Some v)\<rparr>"


lemma holds_saved: "\<exists>st w. save (codec (header room0)) room0 (store0, W0) = (True, st, w)"
proof -
  have "disk_ok W0" by (simp add: disk_ok_def W0_def)
  from atomic_complete [OF this]
  show ?thesis by (simp add: save_def path_def room0_def uuid_sample Let_def) blast
qed

lemma holds_account: "\<exists>st w. save_account (codec (account_json (player0 ID_A 1))) (player0 ID_A 1)
    (store0, W0) = (True, st, w)"
proof -
  have "disk_ok W0" by (simp add: disk_ok_def W0_def)
  from atomic_complete [OF this]
  show ?thesis by (simp add: save_account_def path_def player0_def uuid_sample Let_def store0_def) blast
qed

end
