(* ===== verification/Quota.thy ===== *)
theory Quota
  imports Saved
begin

text \<open>
  The quota of the session store (\<open>prune\<close> in \<open>rust/store.rs\<close>): room files that are not in use go,
  oldest first, until the rest fits.
\<close>

section \<open>Room files\<close>

definition bin_file :: "fname \<Rightarrow> bool" where
  "bin_file f \<longleftrightarrow> fst f = ''rooms'' \<and> extension (snd f) = Some ''bin'' \<and> uuid_text (file_stem (snd f))"

definition bin_size :: "fname \<times> bytes \<Rightarrow> nat" where
  "bin_size e = (if bin_file (fst e) then length (snd e) else 0)"

text \<open>What the room files take on the disk.\<close>

definition room_bytes :: "(fname, bytes) imap \<Rightarrow> nat" where
  "room_bytes fs = sum_list (map bin_size fs)"

text \<open>The server writes lower-case names only.\<close>

definition names_ok :: "(fname, bytes) imap \<Rightarrow> bool" where
  "names_ok fs \<longleftrightarrow> imap_ok fs \<and> (\<forall>f \<in> set (keys fs). bin_file f \<longrightarrow> ascii_lower (file_stem (snd f)) = file_stem (snd f))"

abbreviation bin_of :: "string \<Rightarrow> fname" where
  "bin_of i \<equiv> (''rooms'', i @ ''.bin'')"

lemma extension_split:
  assumes e: "extension name = Some ext"
  shows "name = file_stem name @ CHR ''.'' # ext"
proof -
  let ?e = "takeWhile (\<lambda>c. c \<noteq> CHR ''.'') (rev name)"
  from e have eq: "?e = rev ext" and l: "length ?e + 1 < length name"
    by (auto simp: extension_def Let_def split: if_splits)
  have "dropWhile (\<lambda>c. c \<noteq> CHR ''.'') (rev name) \<noteq> []"
  proof
    assume "dropWhile (\<lambda>c. c \<noteq> CHR ''.'') (rev name) = []"
    then have "?e = rev name" by (metis takeWhile_dropWhile_id append_Nil2)
    with l show False by simp
  qed
  then obtain d rest where d: "dropWhile (\<lambda>c. c \<noteq> CHR ''.'') (rev name) = d # rest"
    by (meson neq_Nil_conv)
  then have "d = CHR ''.''" using hd_dropWhile [of "\<lambda>c. c \<noteq> CHR ''.''" "rev name"] by auto
  with d eq have "rev name = rev ext @ CHR ''.'' # rest"
    using takeWhile_dropWhile_id [of "\<lambda>c. c \<noteq> CHR ''.''" "rev name"] by simp
  then have n: "name = rev rest @ CHR ''.'' # ext" by (simp add: rev_swap)
  then show ?thesis using e by (simp add: file_stem_def)
qed

lemma extension_bin: "extension name = Some ''bin'' \<Longrightarrow> name = file_stem name @ ''.bin''"
  by (drule extension_split) simp

lemma stem_bin: "uuid_text i \<Longrightarrow> extension (i @ ''.bin'') = Some ''bin'' \<and> file_stem (i @ ''.bin'') = i"
  by (simp add: file_stem_def extension_def uuid_length)

lemma bin_of_stem: "bin_file f \<Longrightarrow> f = bin_of (file_stem (snd f))"
  using extension_bin [of "snd f"] by (cases f) (simp add: bin_file_def)

lemma bin_file_bin_of: "uuid_text i \<Longrightarrow> bin_file (bin_of i)"
  by (simp add: bin_file_def stem_bin)

lemma room_bytes_delete:
  "imap_ok fs \<Longrightarrow> map_of fs f = Some b \<Longrightarrow>
   room_bytes (AList.delete f fs) + bin_size (f, b) = room_bytes fs"
proof (induction fs)
  case (Cons e fs)
  show ?case
  proof (cases "fst e = f")
    case True
    with Cons.prems(1) have "f \<notin> fst ` set fs" by auto
    then have "AList.delete f fs = fs" by (simp add: delete_id)
    with True Cons.prems(2) show ?thesis by (cases e) (simp add: room_bytes_def)
  next
    case False
    with Cons show ?thesis by (cases e) (simp add: room_bytes_def)
  qed
qed simp

lemma room_bytes_delete_other:
  "\<not> bin_file f \<Longrightarrow> room_bytes (AList.delete f fs) = room_bytes fs"
  by (induction fs) (auto simp: room_bytes_def bin_size_def)

section \<open>The scan\<close>

text \<open>An entry of the scan: a room file that is not of an active room.\<close>

definition idle_entry :: "string list \<Rightarrow> (fname, bytes) imap \<Rightarrow> prune_entry \<Rightarrow> bool" where
  "idle_entry active fs e = (case e of (_, i, n) \<Rightarrow>
     i \<notin> set active \<and> bin_file (bin_of i) \<and> (\<exists>b. (bin_of i, b) \<in> set fs \<and> length b = n))"

text \<open>Its stamp is the time of the last update in the file, if the file can be read.\<close>

definition stamped :: "externals \<Rightarrow> store \<Rightarrow> prune_entry \<Rightarrow> bool" where
  "stamped X st e \<longleftrightarrow> (\<exists>w. fst e = (case fst (load X (fst (snd e)) False (st, w)) of
     Some (Some r) \<Rightarrow> Some (r_updated r) | _ \<Rightarrow> None))"

text \<open>Every such file has its entry.\<close>

definition covers :: "string list \<Rightarrow> (fname, bytes) imap \<Rightarrow> prune_entry list \<Rightarrow> bool" where
  "covers active fs es \<longleftrightarrow> (\<forall>f b. (f, b) \<in> set fs \<longrightarrow> bin_file f \<longrightarrow>
     file_stem (snd f) \<in> set active \<or> (\<exists>stamp n. (stamp, file_stem (snd f), n) \<in> set es))"

lemma covers_skip:
  "covers active fs es \<Longrightarrow> (bin_file f \<Longrightarrow> file_stem (snd f) \<in> set active) \<Longrightarrow>
   covers active ((f, b) # fs) es"
  unfolding covers_def by auto

lemma covers_add:
  "covers active fs es \<Longrightarrow> i = file_stem (snd f) \<Longrightarrow> covers active ((f, b) # fs) ((stamp, i, n) # es)"
  unfolding covers_def by (metis list.set_intros set_ConsD prod.inject)

lemma prune_scan_ok:
  assumes "prune_scan X active st fs (tot, es) w = (Some (tot', es'), w')" "imap_ok fs"
  shows "tot' = tot + room_bytes fs \<and>
    (\<exists>new. es' = es @ new \<and> list_all (idle_entry active fs) new \<and> list_all (stamped X st) new \<and>
       distinct (map (\<lambda>e. fst (snd e)) new) \<and> covers active fs new)"
  using assms
proof (induction fs arbitrary: tot es w)
  case Nil
  then show ?case by (simp add: room_bytes_def covers_def)
next
  case (Cons e fs)
  obtain folder name b where e: "e = ((folder, name), b)" by (metis prod.exhaust)
  let ?i = "file_stem name"
  have fs: "imap_ok fs" "(folder, name) \<notin> fst ` set fs" using Cons.prems(2) by (auto simp: e)
  have mono: "list_all (idle_entry active fs) new \<Longrightarrow> list_all (idle_entry active (e # fs)) new" for new
    by (auto simp: list_all_iff idle_entry_def)
  show ?case
  proof (cases "bin_file (folder, name)")
    case False
    then obtain w1 where "prune_scan X active st fs (tot, es) w1 = (Some (tot', es'), w')"
      using Cons.prems(1) by (auto simp: e bin_file_def Let_def split: if_splits prod.splits)
    from Cons.IH [OF this fs(1)] obtain new where new: "tot' = tot + room_bytes fs" "es' = es @ new"
      "list_all (idle_entry active fs) new" "distinct (map (\<lambda>e. fst (snd e)) new)" "covers active fs new"
      "list_all (stamped X st) new"
      by blast
    with mono covers_skip [OF new(5), of "(folder, name)" b] False show ?thesis
      by (intro conjI exI [of _ new]) (simp_all add: room_bytes_def bin_size_def e)
  next
    case True
    then have fol: "folder = ''rooms''" and nm: "name = ?i @ ''.bin''"
      using extension_bin by (auto simp: bin_file_def)
    show ?thesis
    proof (cases "?i \<in> set active")
      case act: True
      then obtain w1 where "prune_scan X active st fs (tot + length b, es) w1 = (Some (tot', es'), w')"
        using Cons.prems(1) True by (auto simp: e bin_file_def Let_def split: if_splits prod.splits)
      from Cons.IH [OF this fs(1)] obtain new where new: "tot' = tot + length b + room_bytes fs"
        "es' = es @ new" "list_all (idle_entry active fs) new" "distinct (map (\<lambda>e. fst (snd e)) new)"
        "covers active fs new" "list_all (stamped X st) new"
        by blast
      with mono covers_skip [OF new(5), of "(folder, name)" b] True act show ?thesis
        by (intro conjI exI [of _ new]) (simp_all add: room_bytes_def bin_size_def e)
    next
      case idle: False
      then obtain w0 r w1 stamp where l: "load X ?i False (st, w0) = (r, w1)"
        "stamp = (case r of Some (Some r) \<Rightarrow> Some (r_updated r) | _ \<Rightarrow> None)" and s:
        "prune_scan X active st fs (tot + length b, es @ [(stamp, ?i, length b)]) w1 = (Some (tot', es'), w')"
        using Cons.prems(1) True by (auto simp: e bin_file_def Let_def split: if_splits prod.splits)
      have sd: "stamped X st (stamp, ?i, length b)"
        unfolding stamped_def by (rule exI [of _ w0]) (simp add: l)
      from Cons.IH [OF s fs(1)] obtain new where new: "tot' = tot + length b + room_bytes fs"
        "es' = (es @ [(stamp, ?i, length b)]) @ new" "list_all (idle_entry active fs) new"
        "distinct (map (\<lambda>e. fst (snd e)) new)" "covers active fs new" "list_all (stamped X st) new"
        by blast
      let ?new = "(stamp, ?i, length b) # new"
      have "bin_of ?i = (folder, name)" using fol nm by simp
      then have "idle_entry active (e # fs) (stamp, ?i, length b)"
        using idle True by (auto simp: idle_entry_def e)
      moreover have "?i \<notin> (\<lambda>e. fst (snd e)) ` set new"
      proof
        assume "?i \<in> (\<lambda>e. fst (snd e)) ` set new"
        then obtain b' where "(bin_of ?i, b') \<in> set fs"
          using new(3) by (auto simp: list_all_iff idle_entry_def)
        with fs(2) \<open>bin_of ?i = (folder, name)\<close> show False by force
      qed
      moreover have "covers active (e # fs) ?new"
        unfolding e by (rule covers_add [OF new(5)]) simp
      ultimately show ?thesis
        using new(1,2,4,6) mono [OF new(3)] True sd
        by (intro conjI exI [of _ ?new]) (simp_all add: room_bytes_def bin_size_def e)
    qed
  qed
qed

section \<open>The removal\<close>

lemma remove_file_ok:
  assumes "remove_file f (st, w) = (True, st', w')"
  shows "map_of (st_files st) f \<noteq> None" "st' = st\<lparr>st_files := AList.delete f (st_files st)\<rparr>"
  using assms by (auto simp: remove_file_def Let_def split: if_splits prod.splits)

lemma set_jobs_rooms:
  assumes "set_jobs X i [] (st, w) = (ok, st', w')"
  shows "st_files st' = st_files st \<or> st_files st' = AList.delete (''notifications'', ascii_lower i @ ''.json'') (st_files st)"
    "st_max st' = st_max st"
  using assms
  by (auto simp: set_jobs_def remove_file_def path_def Let_def split: if_splits prod.splits option.splits)

lemma map_of_delete_other: "f \<noteq> g \<Longrightarrow> map_of (AList.delete g fs) f = map_of fs f"
  by (simp add: delete_conv')

text \<open>One entry: its file goes, no other room file is touched.\<close>

lemma prune_remove_step:
  assumes "prune_remove X ((stamp, i, n) # es) tot removed (st, w) = (Some out, st', w')"
    and "\<not> tot \<le> st_max st" and fs: "imap_ok (st_files st)" "uuid_text i" "ascii_lower i = i"
    and b: "(bin_of i, b) \<in> set (st_files st)" "length b = n"
  obtains st2 w2 where "prune_remove X es (tot - n) (removed @ [i]) (st2, w2) = (Some out, st', w')"
    "imap_ok (st_files st2)" "st_max st2 = st_max st"
    "room_bytes (st_files st2) + n = room_bytes (st_files st)"
    "\<And>j. map_of (st_files st2) (bin_of j) = (if j = i then None else map_of (st_files st) (bin_of j))"
proof -
  have p: "path ''rooms'' i = Some (bin_of i)" using fs(2,3) by (simp add: path_def)
  obtain g st1 w1 where 1: "remove_file (bin_of i) (st, w) = (g, st1, w1)" by (metis prod.exhaust)
  obtain ok st2 w2 where 2: "set_jobs X i [] (st1, w1) = (ok, st2, w2)" by (metis prod.exhaust)
  have g: g ok and r: "prune_remove X es (tot - n) (removed @ [i]) (st2, w2) = (Some out, st', w')"
    using assms(1,2) p 1 2 by (auto split: if_splits)
  note f = remove_file_ok [OF 1 [unfolded eqTrueI [OF g(1)]]]
  let ?note = "(''notifications'', ascii_lower i @ ''.json'')"
  have st1: "st_files st1 = AList.delete (bin_of i) (st_files st)" "st_max st1 = st_max st"
    using f(2) by simp_all
  have ok1: "imap_ok (st_files st1)" using fs(1) st1 by simp
  have nb: "\<not> bin_file ?note" by (simp add: bin_file_def)
  have bb: "map_of (st_files st) (bin_of i) = Some b" using b(1) fs(1) by (simp add: map_of_eq_Some_iff)
  have "room_bytes (st_files st1) + n = room_bytes (st_files st)"
    using room_bytes_delete [OF fs(1) bb] b(2) fs(2) by (simp add: st1 bin_size_def bin_file_bin_of)
  moreover have "room_bytes (st_files st2) = room_bytes (st_files st1)"
    using set_jobs_rooms(1) [OF 2] room_bytes_delete_other [OF nb] by metis
  moreover have "map_of (st_files st2) (bin_of j) = map_of (st_files st1) (bin_of j)" for j
    using set_jobs_rooms(1) [OF 2] by (auto simp: delete_conv')
  moreover have "imap_ok (st_files st2)" using set_jobs_rooms(1) [OF 2] ok1 by auto
  moreover have "st_max st2 = st_max st" using set_jobs_rooms(2) [OF 2] st1 by simp
  ultimately show thesis
    by (intro that [OF r]) (simp_all add: st1 delete_conv')
qed

text \<open>An entry stands for a room file of that size.\<close>

definition entry_file :: "(fname, bytes) imap \<Rightarrow> prune_entry \<Rightarrow> bool" where
  "entry_file fs = (\<lambda>(_, i, n). uuid_text i \<and> ascii_lower i = i \<and>
     (\<exists>b. map_of fs (bin_of i) = Some b \<and> length b = n))"

lemma idle_entry_file:
  assumes "idle_entry active fs e" "names_ok fs"
  shows "entry_file fs e" "fst (snd e) \<notin> set active"
proof -
  obtain stamp i n where e: "e = (stamp, i, n)" by (cases e)
  with assms(1) obtain b where i: "i \<notin> set active" "bin_file (bin_of i)" "(bin_of i, b) \<in> set fs" "length b = n"
    by (auto simp: idle_entry_def)
  then have s: "file_stem (i @ ''.bin'') = i"
    using bin_of_stem [of "bin_of i"] by simp
  have "uuid_text i" using i(2) s by (simp add: bin_file_def)
  moreover have "ascii_lower i = i"
    using assms(2) i(2,3) s unfolding names_ok_def by force
  moreover have "map_of fs (bin_of i) = Some b"
    using assms(2) i(3) by (simp add: names_ok_def map_of_eq_Some_iff)
  ultimately show "entry_file fs e" "fst (snd e) \<notin> set active" using e i by (auto simp: entry_file_def)
qed

lemma prune_remove_ok:
  assumes "prune_remove X es tot removed (st, w) = (Some out, st', w')"
    and "imap_ok (st_files st)" "tot = room_bytes (st_files st)"
    and "list_all (entry_file (st_files st)) es" "distinct (map (\<lambda>e. fst (snd e)) es)"
  shows "\<exists>gone rest. es = gone @ rest \<and> out = removed @ map (\<lambda>e. fst (snd e)) gone \<and>
    (rest = [] \<or> room_bytes (st_files st') \<le> st_max st) \<and> imap_ok (st_files st') \<and>
    (\<forall>j. map_of (st_files st') (bin_of j) =
       (if j \<in> (\<lambda>e. fst (snd e)) ` set gone then None else map_of (st_files st) (bin_of j)))"
  using assms
proof (induction es arbitrary: tot removed st w)
  case (Cons e es)
  obtain stamp i n where e: "e = (stamp, i, n)" by (cases e)
  show ?case
  proof (cases "tot \<le> st_max st")
    case True
    with Cons.prems show ?thesis
      by (intro exI [of _ "[]"] exI [of _ "(stamp, i, n) # es"]) (auto simp: e)
  next
    case False
    from Cons.prems(4) obtain b where i: "uuid_text i" "ascii_lower i = i"
      "map_of (st_files st) (bin_of i) = Some b" "length b = n"
      by (auto simp: e entry_file_def)
    have mem: "(bin_of i, b) \<in> set (st_files st)" by (rule map_of_SomeD [OF i(3)])
    obtain st2 w2 where 2: "prune_remove X es (tot - n) (removed @ [i]) (st2, w2) = (Some out, st', w')"
      "imap_ok (st_files st2)" "st_max st2 = st_max st"
      "room_bytes (st_files st2) + n = room_bytes (st_files st)"
      "\<And>j. map_of (st_files st2) (bin_of j) = (if j = i then None else map_of (st_files st) (bin_of j))"
      by (rule prune_remove_step [OF Cons.prems(1) [unfolded e] False Cons.prems(2) i(1,2) mem i(4)])
        (rule that)
    have "entry_file (st_files st2) x" if "x \<in> set es" for x
    proof -
      have "fst (snd x) \<noteq> i" using that Cons.prems(5) by (auto simp: e)
      with 2(5) [of "fst (snd x)"] that Cons.prems(4) show ?thesis
        by (cases x) (auto simp: list_all_iff entry_file_def)
    qed
    then have ent: "list_all (entry_file (st_files st2)) es" by (simp add: list_all_iff)
    have tot: "tot - n = room_bytes (st_files st2)" using 2(4) Cons.prems(3) by simp
    from Cons.IH [OF 2(1,2) tot ent] Cons.prems(5)
    obtain gone rest where g: "es = gone @ rest" "out = (removed @ [i]) @ map (\<lambda>e. fst (snd e)) gone"
      "rest = [] \<or> room_bytes (st_files st') \<le> st_max st2" "imap_ok (st_files st')"
      "\<And>j. map_of (st_files st') (bin_of j) =
       (if j \<in> (\<lambda>e. fst (snd e)) ` set gone then None else map_of (st_files st2) (bin_of j))"
      by auto
    then show ?thesis
      using 2(3,5) by (intro exI [of _ "e # gone"] exI [of _ rest]) (auto simp: e)
  qed
qed auto

section \<open>The quota\<close>

lemma prune_ok:
  assumes "prune X active (st, w) = (Some out, st', w')" "st_enabled st" and ok: "names_ok (st_files st)"
  obtains entries gone rest where
    "list_all (idle_entry active (st_files st)) entries" "covers active (st_files st) entries"
    "list_all (stamped X st) entries" "sort entries = gone @ rest" "out = map (\<lambda>e. fst (snd e)) gone"
    "distinct (map (\<lambda>e. fst (snd e)) entries)"
    "rest = [] \<or> room_bytes (st_files st') \<le> st_max st"
    "\<And>j. map_of (st_files st') (bin_of j) =
       (if j \<in> set out then None else map_of (st_files st) (bin_of j))"
proof -
  have files: "imap_ok (st_files st)" using ok by (simp add: names_ok_def)
  obtain w1 tot es w2 where s: "prune_scan X active st (st_files st) (0, []) w1 = (Some (tot, es), w2)"
    and r: "prune_remove X (sort es) tot [] (st, w2) = (Some out, st', w')"
    using assms(1,2) by (auto simp: prune_def Let_def split: if_splits option.splits prod.splits)
  from prune_scan_ok [OF s files] have sc: "tot = room_bytes (st_files st)"
    "list_all (idle_entry active (st_files st)) es" "distinct (map (\<lambda>e. fst (snd e)) es)"
    "covers active (st_files st) es" "list_all (stamped X st) es" by auto
  have ent: "list_all (entry_file (st_files st)) (sort es)"
    using sc(2) idle_entry_file(1) [OF _ ok] by (auto simp: list_all_iff)
  have "distinct (map (\<lambda>e. fst (snd e)) (sort es))"
    using sc(3) by (simp add: distinct_map)
  from prune_remove_ok [OF r files sc(1) ent this]
  obtain gone rest where g: "sort es = gone @ rest" "out = map (\<lambda>e. fst (snd e)) gone"
      "rest = [] \<or> room_bytes (st_files st') \<le> st_max st"
      "\<forall>j. map_of (st_files st') (bin_of j) =
        (if j \<in> (\<lambda>e. fst (snd e)) ` set gone then None else map_of (st_files st) (bin_of j))"
    by auto
  show thesis by (rule that [OF sc(2,4,5) g(1,2) sc(3) g(3)]) (use g(2,4) in simp)
qed

text \<open>Rooms in use stay, and what is left fits or is all in use.\<close>

lemma prune_active:
  assumes "prune X active (st, w) = (Some out, st', w')" "st_enabled st" "names_ok (st_files st)"
  shows "set out \<inter> set active = {}"
    "i \<in> set active \<Longrightarrow> map_of (st_files st') (bin_of i) = map_of (st_files st) (bin_of i)"
proof -
  obtain entries gone rest where p: "list_all (idle_entry active (st_files st)) entries"
    "sort entries = gone @ rest" "out = map (\<lambda>e. fst (snd e)) gone"
    "\<And>j. map_of (st_files st') (bin_of j) = (if j \<in> set out then None else map_of (st_files st) (bin_of j))"
    using prune_ok [OF assms] by metis
  have "set gone \<subseteq> set entries" using p(2) by (metis set_sort set_append Un_upper1)
  then show dis: "set out \<inter> set active = {}"
    using p(1,3) idle_entry_file(2) [OF _ assms(3)] by (fastforce simp: list_all_iff)
  show "map_of (st_files st') (bin_of i) = map_of (st_files st) (bin_of i)" if "i \<in> set active"
    using that dis p(4) [of i] by auto
qed

lemma prune_fits:
  assumes "prune X active (st, w) = (Some out, st', w')" "st_enabled st" "names_ok (st_files st)"
  shows "room_bytes (st_files st') \<le> st_max st \<or>
    (\<forall>i. uuid_text i \<and> map_of (st_files st') (bin_of i) \<noteq> None \<longrightarrow> i \<in> set active)"
proof -
  obtain entries gone rest where p: "covers active (st_files st) entries"
    "sort entries = gone @ rest" "out = map (\<lambda>e. fst (snd e)) gone"
    "rest = [] \<or> room_bytes (st_files st') \<le> st_max st"
    "\<And>j. map_of (st_files st') (bin_of j) = (if j \<in> set out then None else map_of (st_files st) (bin_of j))"
    using prune_ok [OF assms] by metis
  have "i \<in> set active" if "rest = []" "uuid_text i" "map_of (st_files st') (bin_of i) \<noteq> None" for i
  proof (rule ccontr)
    assume i: "i \<notin> set active"
    from that(3) p(5) [of i] have out: "i \<notin> set out" and "map_of (st_files st) (bin_of i) \<noteq> None"
      by (auto split: if_splits)
    then obtain b where "(bin_of i, b) \<in> set (st_files st)" by (auto dest: map_of_SomeD)
    moreover have "bin_file (bin_of i)" "file_stem (i @ ''.bin'') = i"
      using that(2) bin_file_bin_of stem_bin by auto
    ultimately obtain stamp n where "(stamp, i, n) \<in> set entries"
      using p(1) i unfolding covers_def by fastforce
    then have "(stamp, i, n) \<in> set gone" using p(2) that(1) by (metis set_sort append_Nil2)
    then have "i \<in> set out" unfolding p(3) by force
    with out show False ..
  qed
  with p(4) show ?thesis by blast
qed

text \<open>Oldest first: no file that was removed has a later stamp than an idle one that stays.\<close>

lemma sorted_split:
  assumes "sort es = gone @ rest" "e \<in> set gone" "e' \<in> set rest"
  shows "fst e \<le> fst e'"
proof -
  have "sorted (gone @ rest)" unfolding assms(1) [symmetric] by simp
  then have "e \<le> e'" using assms(2,3) by (auto simp: sorted_append)
  then show ?thesis by (auto simp: less_eq_prod_def)
qed

lemma prune_oldest_first:
  assumes "prune X active (st, w) = (Some out, st', w')" "st_enabled st" "names_ok (st_files st)"
  obtains entries where "list_all (idle_entry active (st_files st)) entries"
    "covers active (st_files st) entries" "list_all (stamped X st) entries"
    "\<forall>e \<in> set entries. \<forall>e' \<in> set entries.
       fst (snd e) \<in> set out \<and> fst (snd e') \<notin> set out \<longrightarrow> fst e \<le> fst e'"
proof -
  obtain entries gone rest where p: "list_all (idle_entry active (st_files st)) entries"
    "covers active (st_files st) entries" "list_all (stamped X st) entries"
    "sort entries = gone @ rest" "out = map (\<lambda>e. fst (snd e)) gone"
    "distinct (map (\<lambda>e. fst (snd e)) entries)"
    by (rule prune_ok [OF assms]) (rule that)
  have all: "set entries = set gone \<union> set rest" using p(4) by (metis set_sort set_append)
  have "fst e \<le> fst e'" if e: "e \<in> set entries" "e' \<in> set entries" "fst (snd e) \<in> set out"
    "fst (snd e') \<notin> set out" for e e'
  proof -
    obtain g where g: "g \<in> set gone" "fst (snd g) = fst (snd e)" using e(3) p(5) by auto
    then have "g = e" using p(6) e(1) all by (auto simp: distinct_map dest: inj_onD)
    moreover have "e' \<in> set rest" using e(2,4) p(5) all by auto
    ultimately show ?thesis using sorted_split [OF p(4) g(1)] by simp
  qed
  with p(1-3) show thesis by (intro that) blast+
qed

end
