(* ===== verification/Scenes.thy ===== *)
theory Scenes
  imports Sample Quota Client
begin

text \<open>
  Concrete runs of the store and of the session uploads: the operations succeed on the sample data,
  so the theorems about what they leave behind apply to something.
\<close>

lemma lower_sample: "ascii_lower ID_R = ID_R" "ascii_lower ID_N = ID_N"
  by code_simp+

text \<open>Two saved rooms, one of them in memory, in a quota that only one of them fits.\<close>

definition store1 :: store where
  "store1 = \<lparr>st_enabled = True, st_max = 4, st_jobs = [],
     st_files = [(bin_of ID_R, [0, 0, 0]), (bin_of ID_N, [0, 0])]\<rparr>"

lemma names_store1: "names_ok (st_files store1)"
  by code_simp

lemma prunes_store1: "\<exists>out st' w'. prune X0 [ID_R] (store1, W0) = (Some out, st', w')"
proof -
  have "fst (prune X0 [ID_R] (store1, W0)) = Some [ID_N]" by code_simp
  then show ?thesis by (metis prod.collapse)
qed

lemma uploads_room0:
  "\<exists>r' s' u'. Sessions.upload X0 ID_A (chunk_frame (uuid_bytes ID_N) 1 [7]) (room0, server1) = Ret (r', s') \<and>
     r_upload r' = Some u'"
proof -
  have "holds (\<lambda>(r, s). r_upload r \<noteq> None)
      (Sessions.upload X0 ID_A (chunk_frame (uuid_bytes ID_N) 1 [7]) (room0, server1))"
    by code_simp
  from holdsD [OF this] show ?thesis by auto
qed

definition room1 :: room where
  "room1 = room0\<lparr>r_upload := Some \<lparr>u_id = ID_N, u_owner = ID_A, u_generation = 3, u_revision = 5,
     u_bytes = [0, 7, 8, 9], u_offset = 4, u_at = 99000\<rparr>\<rparr>"

lemma commits_room1:
  "\<exists>r' s'. commit_session X0 ID_A (JStr ID_N) (JObj []) (room1, server1) = Ret (r', s') \<and>
     r_revision r' \<noteq> r_revision room1"
proof -
  have "holds (\<lambda>(r, s). r_revision r \<noteq> r_revision room1)
      (commit_session X0 ID_A (JStr ID_N) (JObj []) (room1, server1))"
    by code_simp
  from holdsD [OF this] show ?thesis by auto
qed

text \<open>The same room with an upload that has just begun: what the tool saves arrives and is committed.\<close>

definition room2 :: room where
  "room2 = room0\<lparr>r_upload := Some \<lparr>u_id = ID_N, u_owner = ID_A, u_generation = 3, u_revision = 5,
     u_bytes = [0, 0, 0, 0], u_offset = 0, u_at = 99000\<rparr>\<rparr>"

lemma saves_room2:
  "\<exists>r1 s1 r2 s2. uploads X0 ID_A (save_frames (uuid_bytes ID_N) [7, 8, 9, 10]) (room2, server1) = Ret (r1, s1) \<and>
     commit_session X0 ID_A (JStr ID_N) (JObj []) (r1, s1) = Ret (r2, s2) \<and> r_revision r2 \<noteq> r_revision r1"
proof -
  have "holds (\<lambda>(r1, s1). holds (\<lambda>(r2, s2). r_revision r2 \<noteq> r_revision r1)
        (commit_session X0 ID_A (JStr ID_N) (JObj []) (r1, s1)))
      (uploads X0 ID_A (save_frames (uuid_bytes ID_N) [7, 8, 9, 10]) (room2, server1))"
    by code_simp
  from holdsD [OF this] show ?thesis by (auto dest!: holdsD)
qed

lemma pages_server1:
  "\<exists>data cursor. page X0 server1 (listing ID_A '''' server1) [] JNull = Some (data, cursor)"
proof -
  have "page X0 server1 (listing ID_A '''' server1) [] JNull \<noteq> None" by code_simp
  then show ?thesis by auto
qed

end
