(* ===== verification/Process.thy ===== *)
theory Process
  imports Admission Reach "HOL-Library.Multiset"
begin

text \<open>
  The listener, the tasks of the connections and the worker together (\<open>run\<close> and \<open>connection\<close> in
  \<open>rust/main.rs\<close>). A connection is accepted with a permit and gets a number; its task asks the worker
  to open it once the handshake is done and to end it when its loop is over, and then gives its permit
  back. Both requests go through the channel of the worker, so a connection may be there for a while
  after its permit has gone: that the server still never holds more connections than the
  configuration allows rests on the order of the channel.

  The other closures the worker runs, and what the socket tasks do to their outboxes, may come at any
  time between; they are the \<open>command\<close>s of theory Reach.
\<close>

section \<open>Requests in the channel\<close>

datatype channel_request = Opening nat | Ending nat

fun effect :: "channel_request \<Rightarrow> nat set \<Rightarrow> nat set" where
  "effect (Opening cid) A = insert cid A"
| "effect (Ending cid) A = A - {cid}"

text \<open>\<open>along P q A\<close>: the numbers open satisfy \<open>P\<close> now and after each request of the channel.\<close>

fun along :: "(nat set \<Rightarrow> bool) \<Rightarrow> channel_request list \<Rightarrow> nat set \<Rightarrow> bool" where
  "along P [] A = P A"
| "along P (r # q) A = (P A \<and> along P q (effect r A))"

lemma effect_mono: "A \<subseteq> B \<Longrightarrow> effect r A \<subseteq> effect r B"
  by (cases r) auto

lemma effects_mono: "A \<subseteq> B \<Longrightarrow> fold effect q A \<subseteq> fold effect q B"
  by (induction q arbitrary: A B) (simp_all add: effect_mono)

lemma along_append: "along P (q @ [r]) A \<longleftrightarrow> along P q A \<and> P (effect r (fold effect q A))"
  by (induction q arbitrary: A) auto

lemma along_now: "along P q A \<Longrightarrow> P A"
  by (cases q) auto

lemma along_mono:
  assumes "\<And>A B. A \<subseteq> B \<Longrightarrow> P B \<Longrightarrow> P A" "A \<subseteq> B" "along P q B"
  shows "along P q A"
  using assms(2,3)
proof (induction q arbitrary: A B)
  case (Cons r q)
  with effect_mono [of A B r] assms(1) [of A B] show ?case by auto
qed (auto intro: assms(1))

lemma along_cong:
  assumes "\<And>B. B \<subseteq> K \<Longrightarrow> P B \<longleftrightarrow> Q B" "A \<subseteq> K" "\<forall>r \<in> set q. case r of Opening c \<Rightarrow> c \<in> K | _ \<Rightarrow> True"
  shows "along P q A \<longleftrightarrow> along Q q A"
  using assms(2,3)
proof (induction q arbitrary: A)
  case (Cons r q)
  then have "effect r A \<subseteq> K" by (cases r) auto
  with Cons assms(1) [of A] show ?case by auto
qed (simp add: assms(1))

lemma effects_within:
  "A \<subseteq> K \<Longrightarrow> \<forall>r \<in> set q. case r of Opening c \<Rightarrow> c \<in> K | _ \<Rightarrow> True \<Longrightarrow> fold effect q A \<subseteq> K"
proof (induction q arbitrary: A)
  case (Cons r q)
  then have "effect r A \<subseteq> K" by (cases r) auto
  with Cons show ?case by simp
qed simp

section \<open>The process\<close>

text \<open>
  The task of a connection: its number, the address of its permit, and whether it has asked for its
  opening. \<open>pr_given\<close> is no state of the code: it remembers the address a number was given to.
\<close>

record conn_task =
  ct_number :: nat
  ct_address :: string
  ct_open :: bool

record process =
  pr_server :: server
  pr_costs :: "nat \<Rightarrow> nat"
  pr_admission :: admission
  pr_tasks :: "conn_task list"
  pr_number :: nat
  pr_channel :: "channel_request list"
  pr_given :: "nat \<Rightarrow> string"

definition taken_on :: "string \<Rightarrow> admission \<Rightarrow> process \<Rightarrow> process" where
  "taken_on ip adm p =
     (let n = pr_number p + 1 in
      p\<lparr>pr_admission := adm, pr_number := n,
        pr_tasks := \<lparr>ct_number = n, ct_address = ip, ct_open = False\<rparr> # pr_tasks p,
        pr_given := (pr_given p)(n := ip)\<rparr>)"

definition opens :: "conn_task \<Rightarrow> process \<Rightarrow> process" where
  "opens k p =
     p\<lparr>pr_channel := pr_channel p @ [Opening (ct_number k)],
       pr_tasks := k\<lparr>ct_open := True\<rparr> # remove1 k (pr_tasks p)\<rparr>"

definition finished :: "conn_task \<Rightarrow> process \<Rightarrow> process" where
  "finished k p =
     p\<lparr>pr_channel := pr_channel p @ (if ct_open k then [Ending (ct_number k)] else []),
       pr_tasks := remove1 k (pr_tasks p),
       pr_admission := drop_permit (ct_address k) (pr_admission p)\<rparr>"

text \<open>
  A task ends by itself before the handshake is done, or after its loop; in the first case it has
  asked for nothing. The worker takes the requests in order, and goes on after an error.
\<close>

inductive process_step :: "externals \<Rightarrow> config \<Rightarrow> process \<Rightarrow> process \<Rightarrow> bool" for X cfg where
  accept: "acquire cfg t ip (pr_admission p) = (True, adm) \<Longrightarrow> process_step X cfg p (taken_on ip adm p)"
| turn_away: "acquire cfg t ip (pr_admission p) = (False, adm) \<Longrightarrow>
    process_step X cfg p (p\<lparr>pr_admission := adm\<rparr>)"
| shake: "k \<in> set (pr_tasks p) \<Longrightarrow> \<not> ct_open k \<Longrightarrow> process_step X cfg p (opens k p)"
| finish: "k \<in> set (pr_tasks p) \<Longrightarrow> process_step X cfg p (finished k p)"
| open_one: "pr_channel p = Opening cid # q \<Longrightarrow>
    process_step X cfg p (p\<lparr>pr_server := connected X cid (pr_server p), pr_channel := q\<rparr>)"
| end_one: "pr_channel p = Ending cid # q \<Longrightarrow>
    disconnect X cid (pr_server p) = Ret t \<or> disconnect X cid (pr_server p) = Fail t \<Longrightarrow>
    process_step X cfg p (p\<lparr>pr_server := t, pr_channel := q\<rparr>)"
| other: "command X (pr_server p, pr_costs p) r \<Longrightarrow> r = Ret (t, g) \<or> r = Fail (t, g) \<Longrightarrow>
    process_step X cfg p (p\<lparr>pr_server := t, pr_costs := g\<rparr>)"

inductive process_run :: "externals \<Rightarrow> config \<Rightarrow> process \<Rightarrow> process \<Rightarrow> bool" for X cfg z where
  process_start: "process_run X cfg z z"
| process_next: "process_run X cfg z p \<Longrightarrow> process_step X cfg p q \<Longrightarrow> process_run X cfg z q"

definition launched :: "server \<Rightarrow> process" where
  "launched s =
     \<lparr>pr_server = s, pr_costs = (\<lambda>_. 0), pr_admission = admission_default, pr_tasks = [],
      pr_number = 0, pr_channel = [], pr_given = (\<lambda>_. '''')\<rparr>"

lemma map_outcome_Fail: "map_outcome f r = Fail y \<longleftrightarrow> (\<exists>x. r = Fail x \<and> y = f x)"
  by (cases r) auto

section \<open>Permits\<close>

lemma admission_inv_mset:
  assumes "admission_inv cfg s ps" "mset qs = mset ps"
  shows "admission_inv cfg s qs"
proof -
  have "count_list qs ip = count_list ps ip" for ip
    using assms(2) by (metis count_mset)
  moreover have "length qs = length ps" "set qs = set ps"
    using assms(2) by (metis size_mset, metis set_mset_mset)
  ultimately show ?thesis using assms(1) by (simp add: admission_inv_def)
qed

lemma permit_dropped:
  assumes inv: "admission_inv cfg s (map ct_address ks)" and k: "k \<in> set ks"
  shows "admission_inv cfg (drop_permit (ct_address k) s) (map ct_address (remove1 k ks))"
proof (rule admission_inv_mset)
  show "admission_inv cfg (drop_permit (ct_address k) s) (remove1 (ct_address k) (map ct_address ks))"
    by (rule drop_permit_inv [OF inv]) (use k in auto)
  show "mset (map ct_address (remove1 k ks)) = mset (remove1 (ct_address k) (map ct_address ks))"
    using k by (simp add: image_mset_Diff)
qed

text \<open>The numbers open, as many as the configuration allows, in all and of one address.\<close>

definition in_limits :: "config \<Rightarrow> (nat \<Rightarrow> string) \<Rightarrow> nat set \<Rightarrow> bool" where
  "in_limits cfg given A \<longleftrightarrow> finite A \<and> card A \<le> cfg_n cfg ''maxConnections'' \<and>
     (\<forall>ip. card {c \<in> A. given c = ip} \<le> cfg_n cfg ''maxConnectionsPerIp'')"

lemma in_limits_mono:
  assumes "A \<subseteq> B" "in_limits cfg given B"
  shows "in_limits cfg given A"
proof -
  have B: "finite B" using assms(2) by (simp add: in_limits_def)
  have 1: "card B \<le> cfg_n cfg ''maxConnections''"
    and 2: "card {c \<in> B. given c = ip} \<le> cfg_n cfg ''maxConnectionsPerIp''" for ip
    using assms(2) by (simp_all add: in_limits_def)
  have "finite A" by (rule finite_subset [OF assms(1) B])
  moreover have "card A \<le> cfg_n cfg ''maxConnections''"
    by (rule order_trans [OF card_mono [OF B assms(1)] 1])
  moreover have "card {c \<in> A. given c = ip} \<le> cfg_n cfg ''maxConnectionsPerIp''" for ip
    by (rule order_trans [OF card_mono 2 [of ip]]) (use assms(1) B in auto)
  ultimately show ?thesis unfolding in_limits_def by simp
qed

lemma in_limits_tasks:
  assumes inv: "admission_inv cfg s (map ct_address ks)"
    and given: "\<forall>k \<in> set ks. given (ct_number k) = ct_address k" and A: "A \<subseteq> ct_number ` set ks"
  shows "in_limits cfg given A"
proof -
  have f: "finite A" using A by (rule finite_subset) simp
  have "card A \<le> card (ct_number ` set ks)" using A by (intro card_mono) auto
  also have "\<dots> \<le> length ks" by (meson card_image_le card_length finite_set order_trans)
  also have "\<dots> \<le> cfg_n cfg ''maxConnections''" using inv by (simp add: admission_inv_def)
  finally have all: "card A \<le> cfg_n cfg ''maxConnections''" .
  have "card {c \<in> A. given c = ip} \<le> cfg_n cfg ''maxConnectionsPerIp''" for ip
  proof -
    let ?ks = "filter (\<lambda>k. ct_address k = ip) ks"
    have "{c \<in> A. given c = ip} \<subseteq> ct_number ` set ?ks" using A given by auto
    then have "card {c \<in> A. given c = ip} \<le> card (ct_number ` set ?ks)" by (intro card_mono) auto
    also have "\<dots> \<le> length ?ks" by (meson card_image_le card_length finite_set order_trans)
    also have "\<dots> = count_list (map ct_address ks) ip" by (induction ks) auto
    also have "\<dots> \<le> cfg_n cfg ''maxConnectionsPerIp''" using inv by (simp add: admission_inv_def)
    finally show ?thesis .
  qed
  with f all show ?thesis by (simp add: in_limits_def)
qed

section \<open>The invariant\<close>

lemma command_costs:
  assumes "command X (s, f) r" "r = Ret (t, g) \<or> r = Fail (t, g)" "conn_of s c = None" "f c = 0"
  shows "g c = 0"
  using assms
proof (cases rule: command.cases)
  case (popped cid m u)
  then have "c \<noteq> cid" using assms(3) by (auto simp: pop_frame_def split: option.splits)
  with popped assms show ?thesis by auto
qed (use assms(2,4) in \<open>auto simp: map_outcome_Ret map_outcome_Fail\<close>)

text \<open>A number that has not been used: no connection has it and none will get it.\<close>

definition unused :: "process \<Rightarrow> nat \<Rightarrow> bool" where
  "unused p c \<longleftrightarrow> c \<notin> set (keys (connections (pr_server p))) \<and> Opening c \<notin> set (pr_channel p) \<and>
     pr_costs p c = 0"

fun openings :: "channel_request list \<Rightarrow> nat list" where
  "openings [] = []"
| "openings (Opening c # q) = c # openings q"
| "openings (Ending c # q) = openings q"

lemma openings_append [simp]: "openings (q @ q') = openings q @ openings q'"
  by (induction q rule: openings.induct) auto

lemma set_openings [simp]: "c \<in> set (openings q) \<longleftrightarrow> Opening c \<in> set q"
  by (induction q rule: openings.induct) auto

definition numbers_open :: "process \<Rightarrow> nat set" where
  "numbers_open p = set (keys (connections (pr_server p)))"

definition process_inv :: "externals \<Rightarrow> config \<Rightarrow> process \<Rightarrow> bool" where
  "process_inv X cfg p \<longleftrightarrow>
     wf_but (X, config (pr_server p), {..pr_number p}) {} (pr_server p) \<and>
     admission_inv cfg (pr_admission p) (map ct_address (pr_tasks p)) \<and>
     distinct (map ct_number (pr_tasks p)) \<and>
     (\<forall>k \<in> set (pr_tasks p). ct_number k \<le> pr_number p \<and> pr_given p (ct_number k) = ct_address k \<and>
        (\<not> ct_open k \<longrightarrow> unused p (ct_number k))) \<and>
     (\<forall>c. pr_number p < c \<longrightarrow> unused p c) \<and>
     distinct (openings (pr_channel p)) \<and>
     (\<forall>c \<in> set (openings (pr_channel p)). c \<le> pr_number p \<and> c \<notin> numbers_open p \<and> pr_costs p c = 0) \<and>
     along (in_limits cfg (pr_given p)) (pr_channel p) (numbers_open p) \<and>
     fold effect (pr_channel p) (numbers_open p) \<subseteq> ct_number ` {k \<in> set (pr_tasks p). ct_open k}"

lemma openings_bounded:
  "(\<forall>r \<in> set q. case r of Opening c \<Rightarrow> P c | Ending c \<Rightarrow> True) \<longleftrightarrow> (\<forall>c \<in> set (openings q). P c)"
  by (induction q rule: openings.induct) auto

lemma process_invD:
  assumes "process_inv X cfg p"
  shows "wf_but (X, config (pr_server p), {..pr_number p}) {} (pr_server p)"
    "admission_inv cfg (pr_admission p) (map ct_address (pr_tasks p))"
    "distinct (map ct_number (pr_tasks p))"
    "\<And>k. k \<in> set (pr_tasks p) \<Longrightarrow> ct_number k \<le> pr_number p \<and> pr_given p (ct_number k) = ct_address k"
    "\<And>k. k \<in> set (pr_tasks p) \<Longrightarrow> \<not> ct_open k \<Longrightarrow> unused p (ct_number k)"
    "\<And>c. pr_number p < c \<Longrightarrow> unused p c"
    "distinct (openings (pr_channel p))"
    "\<And>c. Opening c \<in> set (pr_channel p) \<Longrightarrow> c \<le> pr_number p \<and> c \<notin> numbers_open p \<and> pr_costs p c = 0"
    "along (in_limits cfg (pr_given p)) (pr_channel p) (numbers_open p)"
    "fold effect (pr_channel p) (numbers_open p) \<subseteq> ct_number ` {k \<in> set (pr_tasks p). ct_open k}"
    "numbers_open p \<subseteq> {..pr_number p}"
  using assms unfolding process_inv_def by (auto simp: numbers_open_def wf_but_def)

lemma accept_inv:
  assumes inv: "process_inv X cfg p" and a: "acquire cfg t ip (pr_admission p) = (True, adm)"
  shows "process_inv X cfg (taken_on ip adm p)"
proof -
  note I = process_invD [OF inv]
  let ?n = "Suc (pr_number p)" and ?p = "taken_on ip adm p"
  have f: "pr_server ?p = pr_server p" "pr_admission ?p = adm" "pr_number ?p = ?n"
    "pr_tasks ?p = \<lparr>ct_number = ?n, ct_address = ip, ct_open = False\<rparr> # pr_tasks p"
    "pr_channel ?p = pr_channel p" "pr_costs ?p = pr_costs p" "pr_given ?p = (pr_given p)(?n := ip)"
    by (simp_all add: taken_on_def Let_def)
  have u: "unused ?p c = unused p c" for c by (simp add: unused_def f)
  have o: "numbers_open ?p = numbers_open p" by (simp add: numbers_open_def f)
  have "along (in_limits cfg (pr_given p)) (pr_channel p) (numbers_open p) \<longleftrightarrow>
      along (in_limits cfg ((pr_given p)(?n := ip))) (pr_channel p) (numbers_open p)"
  proof (rule along_cong [OF _ I(11)])
    show "in_limits cfg (pr_given p) B = in_limits cfg ((pr_given p)(?n := ip)) B"
      if "B \<subseteq> {..pr_number p}" for B
    proof -
      have "{c \<in> B. pr_given p c = x} = {c \<in> B. ((pr_given p)(?n := ip)) c = x}" for x
        using that by (auto simp: subset_iff)
      then show ?thesis by (simp only: in_limits_def)
    qed
    show "\<forall>r \<in> set (pr_channel p). case r of Opening c \<Rightarrow> c \<in> {..pr_number p} | Ending c \<Rightarrow> True"
      using I(8) by (auto split: channel_request.split)
  qed
  moreover have "wf_but (X, config (pr_server p), {..?n}) {} (pr_server p)"
    by (rule wf_numbers_mono [OF I(1)]) auto
  moreover have "admission_inv cfg adm (ip # map ct_address (pr_tasks p))"
    using acquire_inv [OF I(2) a] by simp
  moreover have "\<forall>k \<in> set (pr_tasks p). ct_number k \<noteq> ?n" using I(4) by fastforce
  ultimately show ?thesis
    using I(3-10) unfolding process_inv_def f u o by (auto simp: le_Suc_eq)
qed

lemma turn_away_inv:
  assumes inv: "process_inv X cfg p" and a: "acquire cfg t ip (pr_admission p) = (False, adm)"
  shows "process_inv X cfg (p\<lparr>pr_admission := adm\<rparr>)"
proof -
  have "admission_inv cfg adm (map ct_address (pr_tasks p))"
    using acquire_inv [OF process_invD(2) [OF inv] a] by simp
  with inv show ?thesis by (simp add: process_inv_def unused_def numbers_open_def)
qed

text \<open>Taking a task out of the list, of which it is a member once.\<close>

lemma without_task:
  assumes "distinct (map ct_number ks)" "k \<in> set ks"
  shows "set (remove1 k ks) = set ks - {k}" "distinct (map ct_number (remove1 k ks))"
    "ct_number k \<notin> ct_number ` set (remove1 k ks)"
    "\<And>j. j \<in> set ks \<Longrightarrow> j \<noteq> k \<Longrightarrow> ct_number j \<noteq> ct_number k"
proof -
  have d: "distinct ks" using assms(1) by (simp add: distinct_map)
  then show s: "set (remove1 k ks) = set ks - {k}" by (rule set_remove1_eq)
  show "distinct (map ct_number (remove1 k ks))"
    using assms(1) d s by (auto simp: distinct_map inj_on_def)
  show "ct_number k \<notin> ct_number ` set (remove1 k ks)"
    using assms s by (auto simp: distinct_map inj_on_def)
  show "\<And>j. j \<in> set ks \<Longrightarrow> j \<noteq> k \<Longrightarrow> ct_number j \<noteq> ct_number k"
    using assms by (auto simp: distinct_map inj_on_def)
qed

lemma open_inv:
  assumes inv: "process_inv X cfg p" and k: "k \<in> set (pr_tasks p)" "\<not> ct_open k"
  shows "process_inv X cfg (opens k p)"
proof -
  note I = process_invD [OF inv]
  note w = without_task [OF I(3) k(1)]
  let ?p = "opens k p" and ?c = "ct_number k"
  have f: "pr_server ?p = pr_server p" "pr_admission ?p = pr_admission p" "pr_number ?p = pr_number p"
    "pr_tasks ?p = k\<lparr>ct_open := True\<rparr> # remove1 k (pr_tasks p)"
    "pr_channel ?p = pr_channel p @ [Opening ?c]" "pr_costs ?p = pr_costs p" "pr_given ?p = pr_given p"
    by (simp_all add: opens_def)
  have o: "numbers_open ?p = numbers_open p" by (simp add: numbers_open_def f)
  have u: "unused ?p c \<longleftrightarrow> unused p c \<and> c \<noteq> ?c" for c by (auto simp: unused_def f)
  have fresh: "unused p ?c" by (rule I(5) [OF k])
  have ks: "set (pr_tasks ?p) = insert (k\<lparr>ct_open := True\<rparr>) (set (pr_tasks p) - {k})"
    by (simp add: f w)
  have final: "insert ?c (fold effect (pr_channel p) (numbers_open p)) \<subseteq>
      ct_number ` {j \<in> set (pr_tasks ?p). ct_open j}"
  proof
    fix c assume "c \<in> insert ?c (fold effect (pr_channel p) (numbers_open p))"
    then consider "c = ?c" | j where "j \<in> set (pr_tasks p)" "ct_open j" "c = ct_number j"
      using I(10) by auto
    then show "c \<in> ct_number ` {j \<in> set (pr_tasks ?p). ct_open j}"
    proof cases
      case 1
      then show ?thesis by (auto simp: ks image_iff)
    next
      case (2 j)
      then have "j \<in> {j \<in> set (pr_tasks ?p). ct_open j}" using k(2) by (auto simp: ks)
      with 2(3) show ?thesis by blast
    qed
  qed
  have adm: "admission_inv cfg (pr_admission p) (map ct_address (pr_tasks ?p))"
    by (rule admission_inv_mset [OF I(2)]) (use k(1) in \<open>simp add: f image_mset_Diff\<close>)
  have given: "\<forall>j \<in> set (pr_tasks ?p). pr_given p (ct_number j) = ct_address j"
    using I(4) k(1) by (auto simp: ks)
  have "in_limits cfg (pr_given p) (insert ?c (fold effect (pr_channel p) (numbers_open p)))"
    by (rule in_limits_tasks [OF adm given]) (use final in auto)
  then have al: "along (in_limits cfg (pr_given p)) (pr_channel ?p) (numbers_open p)"
    using I(9) by (simp add: f along_append)
  have "distinct (map ct_number (pr_tasks ?p))" using w by (simp add: f)
  moreover have "\<forall>j \<in> set (pr_tasks ?p). ct_number j \<le> pr_number p \<and> (\<not> ct_open j \<longrightarrow> unused ?p (ct_number j))"
  proof
    fix j assume "j \<in> set (pr_tasks ?p)"
    then consider "j = k\<lparr>ct_open := True\<rparr>" | "j \<in> set (pr_tasks p)" "j \<noteq> k" by (auto simp: ks)
    then show "ct_number j \<le> pr_number p \<and> (\<not> ct_open j \<longrightarrow> unused ?p (ct_number j))"
    proof cases
      case 2
      then have "ct_number j \<noteq> ?c" by (intro w(4))
      with 2 I(4,5) show ?thesis by (auto simp: u)
    qed (use I(4) [OF k(1)] in simp)
  qed
  moreover have "\<forall>c. pr_number p < c \<longrightarrow> unused ?p c"
    using I(4) [OF k(1)] I(6) by (auto simp: u)
  moreover have "distinct (openings (pr_channel ?p))"
    using I(7) fresh by (simp add: f unused_def)
  moreover have "\<forall>c \<in> set (openings (pr_channel ?p)). c \<le> pr_number p \<and> c \<notin> numbers_open p \<and> pr_costs p c = 0"
    using I(4) [OF k(1)] I(8) fresh by (auto simp: f unused_def numbers_open_def)
  moreover have "fold effect (pr_channel ?p) (numbers_open p) \<subseteq> ct_number ` {j \<in> set (pr_tasks ?p). ct_open j}"
    using final by (simp add: f)
  ultimately show ?thesis
    using I(1) adm given al unfolding process_inv_def o f(1,2,3,6,7) by blast
qed

lemma finish_inv:
  assumes inv: "process_inv X cfg p" and k: "k \<in> set (pr_tasks p)"
  shows "process_inv X cfg (finished k p)"
proof -
  note I = process_invD [OF inv]
  note w = without_task [OF I(3) k]
  let ?p = "finished k p" and ?c = "ct_number k" and ?now = "numbers_open p"
  let ?more = "if ct_open k then [Ending ?c] else []"
  have f: "pr_server ?p = pr_server p" "pr_admission ?p = drop_permit (ct_address k) (pr_admission p)"
    "pr_number ?p = pr_number p" "pr_tasks ?p = remove1 k (pr_tasks p)"
    "pr_channel ?p = pr_channel p @ ?more" "pr_costs ?p = pr_costs p" "pr_given ?p = pr_given p"
    by (simp_all add: finished_def)
  have o: "numbers_open ?p = ?now" by (simp add: numbers_open_def f)
  have u: "unused ?p c = unused p c" for c by (auto simp: unused_def f)
  have ends: "fold effect (pr_channel ?p) ?now = fold effect (pr_channel p) ?now - (if ct_open k then {?c} else {})"
    by (simp add: f)
  have final: "fold effect (pr_channel ?p) ?now \<subseteq> ct_number ` {j \<in> set (pr_tasks ?p). ct_open j}"
  proof
    fix c assume c: "c \<in> fold effect (pr_channel ?p) ?now"
    then obtain j where j: "j \<in> set (pr_tasks p)" "ct_open j" "c = ct_number j"
      using I(10) by (auto simp: ends split: if_split_asm)
    then have "j \<noteq> k" using c by (auto simp: ends)
    with j have "j \<in> {j \<in> set (pr_tasks ?p). ct_open j}" by (simp add: f w(1))
    with j(3) show "c \<in> ct_number ` {j \<in> set (pr_tasks ?p). ct_open j}" by blast
  qed
  have ok: "in_limits cfg (pr_given p) B" if "B \<subseteq> fold effect (pr_channel p) ?now" for B
    by (rule in_limits_tasks [OF I(2)]) (use that I(4,10) in auto)
  have al: "along (in_limits cfg (pr_given p)) (pr_channel ?p) ?now"
    using I(9) ok by (simp add: f along_append)
  have adm: "admission_inv cfg (pr_admission ?p) (map ct_address (pr_tasks ?p))"
    unfolding f by (rule permit_dropped [OF I(2) k])
  have "\<forall>j \<in> set (pr_tasks ?p). ct_number j \<le> pr_number p \<and> pr_given p (ct_number j) = ct_address j \<and>
      (\<not> ct_open j \<longrightarrow> unused ?p (ct_number j))"
    using I(4,5) by (simp add: f(4) w(1) u)
  moreover have "distinct (openings (pr_channel ?p))" "openings (pr_channel ?p) = openings (pr_channel p)"
    using I(7) by (simp_all add: f)
  ultimately show ?thesis
    using I(1,6,8) w(2) adm al final unfolding process_inv_def o u by (simp add: f(1,3,4,6,7))
qed

lemma opening_inv:
  assumes inv: "process_inv X cfg p" and q: "pr_channel p = Opening cid # q"
  shows "process_inv X cfg (p\<lparr>pr_server := connected X cid (pr_server p), pr_channel := q\<rparr>)"
    "conn_of (pr_server p) cid = None" "pr_costs p cid = 0"
proof -
  note I = process_invD [OF inv]
  let ?s = "pr_server p"
  let ?p = "p\<lparr>pr_server := connected X cid ?s, pr_channel := q\<rparr>"
  have cid: "cid \<le> pr_number p" "cid \<notin> numbers_open p" "pr_costs p cid = 0" using I(8) [of cid] q by simp_all
  then show none: "conn_of ?s cid = None" and "pr_costs p cid = 0"
    by (simp_all add: numbers_open_def map_of_eq_None_iff)
  have wf: "wf_but (X, config ?s, {..pr_number p}) {} (connected X cid ?s)"
    by (rule wf_connected [OF I(1) none]) (use cid in simp)
  then have cf: "config (connected X cid ?s) = config ?s" by (simp add: wf_but_def)
  have o: "numbers_open ?p = effect (Opening cid) (numbers_open p)"
    by (simp add: numbers_open_def connected_def Let_def clock_def numbers_update split: prod.split)
  have fresh: "cid \<notin> set (openings q)" "distinct (openings q)" using I(7) q by simp_all
  have u: "unused ?p c" if "unused p c" for c
    using that q o by (auto simp: unused_def numbers_open_def)
  have "along (in_limits cfg (pr_given p)) q (numbers_open ?p)" using I(9) by (simp add: q o)
  moreover have "fold effect q (numbers_open ?p) \<subseteq> ct_number ` {k \<in> set (pr_tasks p). ct_open k}"
    using I(10) by (simp add: q o)
  moreover have "\<forall>c \<in> set (openings q). c \<le> pr_number p \<and> c \<notin> numbers_open ?p \<and> pr_costs p c = 0"
    using I(8) fresh q by (auto simp: o)
  ultimately show "process_inv X cfg ?p"
    using I(2-6) wf fresh u cf unfolding process_inv_def by simp
qed

text \<open>A command that ends connections, or none, and keeps the books.\<close>

lemma shrink_inv:
  assumes inv: "process_inv X cfg p" and q: "pr_channel p = pre @ q" "length pre \<le> 1"
    and wf: "wf_but (X, config (pr_server p), A) {} t" and A: "A \<subseteq> fold effect pre (numbers_open p)"
    and pre: "openings pre = []"
    and costs: "\<And>c. c \<notin> numbers_open p \<Longrightarrow> pr_costs p c = 0 \<Longrightarrow> g c = 0"
  shows "process_inv X cfg (p\<lparr>pr_server := t, pr_costs := g, pr_channel := q\<rparr>)"
proof -
  note I = process_invD [OF inv]
  let ?p = "p\<lparr>pr_server := t, pr_costs := g, pr_channel := q\<rparr>"
  have shrink: "fold effect pre B \<subseteq> B" for B
    using pre by (induction pre arbitrary: B rule: openings.induct) auto
  have o: "numbers_open ?p \<subseteq> fold effect pre (numbers_open p)"
    using wf A by (auto simp: numbers_open_def wf_but_def)
  then have less: "numbers_open ?p \<subseteq> numbers_open p" using shrink by blast
  have cf: "config t = config (pr_server p)" using wf by (simp add: wf_but_def)
  have "A \<subseteq> {..pr_number p}" using A shrink I(11) by blast
  then have wf': "wf_but (X, config t, {..pr_number p}) {} t"
    using wf_numbers_mono [OF wf] cf by simp
  have u: "unused ?p c" if "unused p c" for c
    using that less costs q by (auto simp: unused_def numbers_open_def)
  have "along (in_limits cfg (pr_given p)) q (fold effect pre (numbers_open p))"
  proof (cases pre)
    case (Cons r rs)
    with q I(9) show ?thesis by simp
  qed (use q I(9) in simp)
  then have al: "along (in_limits cfg (pr_given p)) q (numbers_open ?p)"
    by (rule along_mono [OF in_limits_mono o, rotated -1]) 
  have "fold effect q (numbers_open ?p) \<subseteq> fold effect (pr_channel p) (numbers_open p)"
    using effects_mono [OF o, of q] by (simp add: q)
  then have fin: "fold effect q (numbers_open ?p) \<subseteq> ct_number ` {k \<in> set (pr_tasks p). ct_open k}"
    using I(10) by blast
  have "\<forall>c \<in> set (openings q). c \<le> pr_number p \<and> c \<notin> numbers_open ?p \<and> g c = 0"
    using I(8) less costs by (auto simp: q)
  moreover have "distinct (openings q)" using I(7) by (simp add: q pre)
  ultimately show ?thesis
    using I(2-6) wf' u al fin unfolding process_inv_def by simp
qed

lemma ending_inv:
  assumes inv: "process_inv X cfg p" and q: "pr_channel p = Ending cid # q"
    and d: "disconnect X cid (pr_server p) = Ret t \<or> disconnect X cid (pr_server p) = Fail t"
  shows "process_inv X cfg (p\<lparr>pr_server := t, pr_channel := q\<rparr>)"
proof -
  note I = process_invD [OF inv]
  have "wf_but (X, config (pr_server p), numbers_open p) {} (pr_server p)"
    using I(1) by (simp add: wf_but_def numbers_open_def)
  from wf_disconnect_number [OF this, of cid] d
  have "wf_but (X, config (pr_server p), numbers_open p - {cid}) {} t" by auto
  from shrink_inv [OF inv, of "[Ending cid]" q, OF _ _ this, of "pr_costs p"] q show ?thesis by simp
qed

lemma other_inv:
  assumes inv: "process_inv X cfg p" and X: "parses X"
    and c: "command X (pr_server p, pr_costs p) r" "r = Ret (t, g) \<or> r = Fail (t, g)"
  shows "process_inv X cfg (p\<lparr>pr_server := t, pr_costs := g\<rparr>)"
proof -
  note I = process_invD [OF inv]
  have "wf_but (X, config (pr_server p), numbers_open p) {} (pr_server p)"
    using I(1) by (simp add: wf_but_def numbers_open_def)
  from command_wf [OF X c(1) this] c(2)
  have wf: "wf_but (X, config (pr_server p), numbers_open p) {} t" by auto
  have "g n = 0" if "n \<notin> numbers_open p" "pr_costs p n = 0" for n
    by (rule command_costs [OF c]) (use that in \<open>simp_all add: numbers_open_def map_of_eq_None_iff\<close>)
  from shrink_inv [OF inv, of "[]" "pr_channel p", OF _ _ wf, OF _ _ _ _ this] show ?thesis by simp
qed

section \<open>Runs\<close>

lemma process_step_inv:
  assumes "process_step X cfg p q" "process_inv X cfg p" "parses X"
  shows "process_inv X cfg q"
  using assms(1)
proof cases
  case (accept t ip adm)
  then show ?thesis using accept_inv [OF assms(2)] by simp
next
  case (turn_away t ip adm)
  then show ?thesis using turn_away_inv [OF assms(2)] by simp
next
  case (shake k)
  then show ?thesis using open_inv [OF assms(2)] by simp
next
  case (finish k)
  then show ?thesis using finish_inv [OF assms(2)] by simp
next
  case (open_one cid q')
  then show ?thesis using opening_inv(1) [OF assms(2)] by simp
next
  case (end_one cid q' t)
  then show ?thesis using ending_inv [OF assms(2)] by simp
next
  case (other r t g)
  then show ?thesis using other_inv [OF assms(2,3)] by simp
qed

text \<open>Every step of the process is a step of the worker or leaves its state alone.\<close>

lemma process_step_worker:
  assumes "process_step X cfg p q" "process_inv X cfg p"
    and z: "reachable X z (pr_server p, pr_costs p)"
  shows "reachable X z (pr_server q, pr_costs q)"
  using assms(1)
proof cases
  case (open_one cid r)
  then have "step X (pr_server p, pr_costs p) (Ret (connected X cid (pr_server p), pr_costs p))"
    using opening_inv(2,3) [OF assms(2)] by (intro connect) simp_all
  with open_one reachable.returned [OF z] show ?thesis by simp
next
  case (end_one cid r t)
  have "step X (pr_server p, pr_costs p) (held (pr_costs p) (disconnect X cid (pr_server p)))"
    by (intro work gone)
  with end_one reachable.returned [OF z] reachable.failed [OF z] show ?thesis by auto
next
  case (other r t g)
  with work reachable.returned [OF z] reachable.failed [OF z] show ?thesis by auto
qed (use z in \<open>simp_all add: taken_on_def Let_def opens_def finished_def\<close>)

lemma launched_inv:
  assumes "server_wf X s" "connections s = []"
  shows "process_inv X cfg (launched s)"
proof -
  have "wf_but (X, config s, {..0}) {} s"
    using assms by (simp add: server_wf_def wf_but_def)
  moreover have "admission_inv cfg admission_default []" by (rule admits_inv [OF admits.start])
  ultimately show ?thesis
    using assms(2) by (simp add: process_inv_def launched_def unused_def numbers_open_def in_limits_def)
qed

lemma process_run_ok:
  assumes "process_run X cfg (launched s) p" "parses X" "server_wf X s" "connections s = []"
  shows "process_inv X cfg p \<and> reachable X (s, \<lambda>_. 0) (pr_server p, pr_costs p)"
  using assms(1)
proof induction
  case process_start
  then show ?case
    using launched_inv [OF assms(3,4)] by (simp add: launched_def reachable.start)
next
  case (process_next p q)
  then show ?case
    using process_step_inv [OF process_next(2) _ assms(2)] process_step_worker [OF process_next(2)] by blast
qed

text \<open>
  The server never holds more connections than the configuration allows, in all or of one address,
  although their permits are given back before the worker has ended them.
\<close>

lemma connections_limited:
  assumes "process_inv X cfg p"
  shows "length (connections (pr_server p)) \<le> cfg_n cfg ''maxConnections''"
    "length (filter (\<lambda>c. pr_given p c = ip) (keys (connections (pr_server p)))) \<le>
       cfg_n cfg ''maxConnectionsPerIp''"
proof -
  let ?ks = "keys (connections (pr_server p))"
  note I = process_invD [OF assms]
  have d: "distinct ?ks" using I(1) by (simp add: wf_but_def)
  have l: "in_limits cfg (pr_given p) (set ?ks)" using along_now [OF I(9)] by (simp add: numbers_open_def)
  have "length (connections (pr_server p)) = card (set ?ks)" using distinct_card [OF d] by simp
  then show "length (connections (pr_server p)) \<le> cfg_n cfg ''maxConnections''"
    using l by (simp add: in_limits_def)
  have "length (filter (\<lambda>c. pr_given p c = ip) ?ks) = card {c \<in> set ?ks. pr_given p c = ip}"
    using distinct_card [OF distinct_filter [OF d, of "\<lambda>c. pr_given p c = ip"]] by simp
  also have "\<dots> \<le> cfg_n cfg ''maxConnectionsPerIp''" using l by (simp only: in_limits_def)
  finally show "length (filter (\<lambda>c. pr_given p c = ip) ?ks) \<le> cfg_n cfg ''maxConnectionsPerIp''" .
qed

text \<open>A number is given once: a connection that is open has the number of a task, or of one that has ended.\<close>

lemma open_is_known:
  assumes "process_inv X cfg p" "conn_of (pr_server p) cid \<noteq> None"
  shows "cid \<le> pr_number p \<and> ((\<exists>k \<in> set (pr_tasks p). ct_number k = cid \<and> ct_open k) \<or>
    Ending cid \<in> set (pr_channel p))"
proof -
  note I = process_invD [OF assms(1)]
  have now: "cid \<in> numbers_open p" using assms(2) by (force simp: numbers_open_def dest: map_of_SomeD)
  have keep: "c \<in> fold effect q A" if "c \<in> A" "Ending c \<notin> set q" for c q A
    using that
  proof (induction q arbitrary: A)
    case (Cons r q)
    then show ?case by (cases r) auto
  qed simp
  show ?thesis
  proof (cases "Ending cid \<in> set (pr_channel p)")
    case False
    then have "cid \<in> ct_number ` {k \<in> set (pr_tasks p). ct_open k}" using keep [OF now] I(10) by blast
    with I(11) now show ?thesis by auto
  qed (use I(11) now in auto)
qed

end
