(* ===== verification/Telemetry.thy ===== *)
theory Telemetry
  imports Server
begin

text \<open>
  The telemetry queue (\<open>rust/telemetry.rs\<close>): events are queued with a bound on their number and
  bytes, posted in batches, put back when the collector does not answer, and counted when they are
  dropped. The HTTP client is a parameter: the answer of the collector to a batch.
\<close>

section \<open>The queue\<close>

text \<open>The queue and its accounts; url, key, project and the HTTP client only concern the request.\<close>

record telemetry =
  tm_release :: string
  tm_platform :: string       \<comment> \<open>\<open>rust-\<close> and the operating system's name\<close>
  tm_session :: string
  tm_queue :: "json list"
  tm_dropped :: nat
  tm_failures :: nat
  tm_next :: nat
  tm_started :: nat
  tm_window :: nat

type_synonym tw = "telemetry \<times> world"

definition QUEUE_MAX :: nat where "QUEUE_MAX = 256"
definition QUEUE_BYTES :: nat where "QUEUE_BYTES = 512 * 1024"

definition event_bytes :: "externals \<Rightarrow> json \<Rightarrow> nat" where
  "event_bytes X v = length (x_display X v)"

definition queue_bytes :: "externals \<Rightarrow> json list \<Rightarrow> nat" where
  "queue_bytes X q = sum_list (map (event_bytes X) q)"

text \<open>The loop of \<open>enqueue\<close>: the oldest events go while there is too much.\<close>

fun shed :: "externals \<Rightarrow> json list \<Rightarrow> nat \<Rightarrow> json list \<times> nat" where
  "shed X [] n = ([], n)"
| "shed X (v # q) n =
     (if length (v # q) > QUEUE_MAX \<or> queue_bytes X (v # q) > QUEUE_BYTES
      then shed X q (n + 1) else (v # q, n))"

definition telemetry_event :: "externals \<Rightarrow> string \<Rightarrow> json \<Rightarrow> tw \<Rightarrow> json \<times> world" where
  "telemetry_event X name properties = (\<lambda>(tm, w).
     let (i, w1) = new_id w; (t, w2) = now w1
     in (JObj [(''id'', JStr i), (''timestamp'', JStr (x_time X t)), (''type'', JStr ''event''),
               (''name'', JStr name), (''sessionId'', JStr (tm_session tm)),
               (''release'', JStr (tm_release tm)), (''platform'', JStr (tm_platform tm)),
               (''properties'', properties)], w2))"

definition enqueue :: "externals \<Rightarrow> string \<Rightarrow> json \<Rightarrow> tw \<Rightarrow> tw" where
  "enqueue X name properties = (\<lambda>(tm, w).
     let (v, w1) = telemetry_event X name properties (tm, w);
         (q, n) = shed X (tm_queue tm @ [v]) (tm_dropped tm)
     in (tm\<lparr>tm_queue := q, tm_dropped := n\<rparr>, w1))"

definition as_error :: "string \<Rightarrow> json \<Rightarrow> json" where
  "as_error name v =
     setk ''error'' (JObj [(''name'', JStr ''Error''), (''message'', JStr name)])
       (setk ''type'' (JStr ''error'') v)"

definition capture :: "externals \<Rightarrow> string \<Rightarrow> tw \<Rightarrow> tw" where
  "capture X name = (\<lambda>(tm, w).
     let (tm1, w1) = enqueue X name (JObj []) (tm, w) in
     (if tm_queue tm1 = [] then tm1
      else tm1\<lparr>tm_queue := butlast (tm_queue tm1) @ [as_error name (last (tm_queue tm1))]\<rparr>, w1))"

section \<open>Delivery\<close>

text \<open>
  What came of a request: a success status, a client error other than 408 and 429, or anything
  else (another status, no connection, a time-out).
\<close>

datatype answer = Accepted | Refused | Failed

definition BATCH_MAX :: nat where "BATCH_MAX = 32"
definition BATCH_BYTES :: nat where "BATCH_BYTES = 64 * 1024"

fun fill :: "externals \<Rightarrow> json list \<Rightarrow> nat \<Rightarrow> nat \<Rightarrow> json list \<times> json list" where
  "fill X [] n bytes = ([], [])"
| "fill X (v # q) n bytes =
     (if n \<ge> BATCH_MAX \<or> bytes + (event_bytes X v + 1) > BATCH_BYTES then ([], v # q)
      else let (batch, rest) = fill X q (n + 1) (bytes + (event_bytes X v + 1)) in (v # batch, rest))"

definition backoff :: "nat \<Rightarrow> nat" where
  "backoff failures = min (1000 * 2 ^ (failures - 1)) 300000"

text \<open>What the answer does to the queue from which the batch was taken.\<close>

definition settle :: "answer \<Rightarrow> json list \<Rightarrow> tw \<Rightarrow> tw" where
  "settle a batch = (\<lambda>(tm, w).
     case a of
       Accepted \<Rightarrow> (tm\<lparr>tm_failures := 0, tm_next := 0\<rparr>, w)
     | Refused \<Rightarrow>
         let (t, w1) = now w
         in (tm\<lparr>tm_dropped := tm_dropped tm + length batch, tm_failures := 0,
                tm_next := t + 60000\<rparr>, w1)
     | Failed \<Rightarrow>
         let (t, w1) = now w; failures = min (tm_failures tm + 1) 10; q = batch @ tm_queue tm
         in (tm\<lparr>tm_failures := failures, tm_next := t + backoff failures,
                tm_queue := take QUEUE_MAX q,
                tm_dropped := tm_dropped tm + (length q - QUEUE_MAX)\<rparr>, w1))"

text \<open>A flush posts at most one batch; the first component is that batch, if one was posted.\<close>

definition flush :: "externals \<Rightarrow> bool \<Rightarrow> (json list \<Rightarrow> answer) \<Rightarrow> tw \<Rightarrow> json list option \<times> tw" where
  "flush X force collector = (\<lambda>(tm, w).
     if tm_queue tm = [] then (None, tm, w)
     else
       let (early, w1) = (if force then (False, w) else let (t, w1) = now w in (t < tm_next tm, w1)) in
       if early then (None, tm, w1)
       else
         let (batch, rest) = fill X (tm_queue tm) 0 128
         in (Some batch, settle (collector batch) batch (tm\<lparr>tm_queue := rest\<rparr>, w1)))"

text \<open>One sample of the server's counters, taken on the state worker, queued and flushed.\<close>

definition sample :: "externals \<Rightarrow> nat \<Rightarrow> (json list \<Rightarrow> answer) \<Rightarrow> server \<Rightarrow> tw \<Rightarrow> server \<times> tw" where
  "sample X rss collector s = (\<lambda>(tm, w).
     let (t, w1) = now w;
         st = stats s; errors = d_errors (diagnostics s); activity = d_activity (diagnostics s);
         s1 = s\<lparr>diagnostics := (diagnostics s)\<lparr>d_errors := [], d_activity := JObj []\<rparr>\<rparr>;
         (tm1, w2) = fold (\<lambda>e. capture X (case as_str (idx e ''name'') of
                         Some name \<Rightarrow> name | None \<Rightarrow> ''server.fatal'')) errors (tm, w1);
         (tm2, w3) =
           (case as_object activity of
              Some (e # m) \<Rightarrow> enqueue X ''server.activity''
                                (setk ''windowMs'' (jnat (t - tm_window tm1)) activity) (tm1, w2)
            | _ \<Rightarrow> (tm1, w2));
         tm3 = tm2\<lparr>tm_window := t\<rparr>;
         metrics = setk ''telemetryDropped'' (jnat (tm_dropped tm3))
                     (setk ''uptimeSeconds'' (jnat ((t - tm_started tm3) div 1000))
                       (setk ''rssBytes'' (jnat rss) st));
         (_, tm4, w4) = flush X False collector (enqueue X ''server.metrics'' metrics (tm3, w3))
     in (s1, tm4, w4))"

text \<open>
  The flushes of \<open>close\<close>: at most nine, until the queue is empty or one fails. A flush may be cut
  off by the time-out of one second; \<open>answers\<close> holds what came of those that were not.
\<close>

fun drain :: "externals \<Rightarrow> (json list \<Rightarrow> answer) list \<Rightarrow> tw \<Rightarrow> tw" where
  "drain X [] tw = tw"
| "drain X (c # cs) tw =
     (let (_, tm, w) = flush X True c tw in
      if tm_queue tm = [] \<or> tm_failures tm > 0 then (tm, w) else drain X cs (tm, w))"

definition close_telemetry :: "externals \<Rightarrow> (json list \<Rightarrow> answer) list \<Rightarrow> tw \<Rightarrow> tw" where
  "close_telemetry X answers = (\<lambda>(tm, w).
     drain X (take 9 answers)
       (enqueue X ''server.stopped'' (JObj [(''telemetryDropped'', jnat (tm_dropped tm))]) (tm, w)))"

section \<open>Bounds and accounts\<close>

lemma queue_bytes_simps [simp]:
  "queue_bytes X [] = 0" "queue_bytes X (v # q) = event_bytes X v + queue_bytes X q"
  "queue_bytes X (p @ q) = queue_bytes X p + queue_bytes X q"
  by (simp_all add: queue_bytes_def)

text \<open>The oldest are shed, no more than needed, and each is counted.\<close>

lemma shed_ok:
  assumes "shed X q n = (q', n')"
  shows "length q' \<le> QUEUE_MAX" "queue_bytes X q' \<le> QUEUE_BYTES" "n' + length q' = n + length q"
    "\<exists>old. q = old @ q' \<and> n' = n + length old \<and>
       (old \<noteq> [] \<longrightarrow> QUEUE_MAX < length (last old # q') \<or> QUEUE_BYTES < queue_bytes X (last old # q'))"
proof -
  have "length q' \<le> QUEUE_MAX \<and> queue_bytes X q' \<le> QUEUE_BYTES \<and>
    (\<exists>old. q = old @ q' \<and> n' = n + length old \<and>
       (old \<noteq> [] \<longrightarrow> QUEUE_MAX < length (last old # q') \<or> QUEUE_BYTES < queue_bytes X (last old # q')))"
    using assms
  proof (induction X q n arbitrary: q' n' rule: shed.induct)
    case (2 X v q n)
    show ?case
    proof (cases "length (v # q) > QUEUE_MAX \<or> queue_bytes X (v # q) > QUEUE_BYTES")
      case True
      then have sh: "shed X q (n + 1) = (q', n')" using "2.prems" by simp
      from "2.IH" [OF True sh] obtain old where
        old: "q = old @ q'" "n' = n + 1 + length old"
          "old \<noteq> [] \<longrightarrow> QUEUE_MAX < length (last old # q') \<or> QUEUE_BYTES < queue_bytes X (last old # q')"
        and b: "length q' \<le> QUEUE_MAX" "queue_bytes X q' \<le> QUEUE_BYTES" by blast
      have "v # q = (v # old) @ q'" "n' = n + length (v # old)" using old by simp_all
      moreover have "QUEUE_MAX < length (last (v # old) # q') \<or>
          QUEUE_BYTES < queue_bytes X (last (v # old) # q')"
        using old True by (cases "old = []") auto
      ultimately show ?thesis using b by blast
    next
      case False
      with "2.prems" show ?thesis by (intro conjI exI [of _ "[]"]) auto
    qed
  qed simp
  then show "length q' \<le> QUEUE_MAX" "queue_bytes X q' \<le> QUEUE_BYTES" "n' + length q' = n + length q"
    "\<exists>old. q = old @ q' \<and> n' = n + length old \<and>
       (old \<noteq> [] \<longrightarrow> QUEUE_MAX < length (last old # q') \<or> QUEUE_BYTES < queue_bytes X (last old # q'))"
    by auto
qed

lemma enqueue_shed:
  assumes "enqueue X name p (tm, w) = (tm', w')"
  obtains v q n where "shed X (tm_queue tm @ [v]) (tm_dropped tm) = (q, n)"
    "tm' = tm\<lparr>tm_queue := q, tm_dropped := n\<rparr>" "fst (telemetry_event X name p (tm, w)) = v"
  using assms unfolding enqueue_def by (auto split: prod.splits)

lemma enqueue_bounded:
  assumes "enqueue X name p (tm, w) = (tm', w')"
  shows "length (tm_queue tm') \<le> QUEUE_MAX" "queue_bytes X (tm_queue tm') \<le> QUEUE_BYTES"
    "tm_dropped tm' + length (tm_queue tm') = tm_dropped tm + length (tm_queue tm) + 1"
proof -
  obtain v q n where "shed X (tm_queue tm @ [v]) (tm_dropped tm) = (q, n)"
    "tm' = tm\<lparr>tm_queue := q, tm_dropped := n\<rparr>"
    by (rule enqueue_shed [OF assms])
  with shed_ok [OF this(1)] show "length (tm_queue tm') \<le> QUEUE_MAX"
    "queue_bytes X (tm_queue tm') \<le> QUEUE_BYTES"
    "tm_dropped tm' + length (tm_queue tm') = tm_dropped tm + length (tm_queue tm) + 1"
    by simp_all
qed

text \<open>A batch is a prefix of the queue, within both bounds.\<close>

lemma fill_ok:
  assumes "fill X q n bytes = (batch, rest)"
  shows "q = batch @ rest" "n \<le> BATCH_MAX \<Longrightarrow> n + length batch \<le> BATCH_MAX"
    "bytes \<le> BATCH_BYTES \<Longrightarrow> bytes + queue_bytes X batch + length batch \<le> BATCH_BYTES"
    "rest = [] \<or> n + length batch \<ge> BATCH_MAX \<or>
       BATCH_BYTES < bytes + queue_bytes X batch + length batch + event_bytes X (hd rest) + 1"
  using assms
proof (induction X q n bytes arbitrary: batch rest rule: fill.induct)
  case (2 X v q n bytes)
  let ?stop = "n \<ge> BATCH_MAX \<or> bytes + (event_bytes X v + 1) > BATCH_BYTES"
  {
    case 1
    then show ?case using "2.IH"(1) by (auto split: if_splits prod.splits)
  next
    case 2
    then show ?case using "2.IH"(2) by (fastforce split: if_splits prod.splits)
  next
    case 3
    then show ?case using "2.IH"(3) by (fastforce split: if_splits prod.splits)
  next
    case 4
    then show ?case using "2.IH"(4) by (fastforce split: if_splits prod.splits)
  }
qed simp_all

lemma flush_cases:
  assumes "flush X force c (tm, w) = (out, tm', w')"
  obtains (nothing) "out = None" "tm' = tm"
  | (accepted) batch rest where "out = Some batch" "c batch = Accepted" "fill X (tm_queue tm) 0 128 = (batch, rest)"
      "tm' = tm\<lparr>tm_queue := rest, tm_failures := 0, tm_next := 0\<rparr>"
  | (refused) batch rest t where "out = Some batch" "c batch = Refused" "fill X (tm_queue tm) 0 128 = (batch, rest)"
      "tm' = tm\<lparr>tm_queue := rest, tm_dropped := tm_dropped tm + length batch, tm_failures := 0,
         tm_next := t + 60000\<rparr>"
  | (failed) batch rest t where "out = Some batch" "c batch = Failed" "fill X (tm_queue tm) 0 128 = (batch, rest)"
      "tm' = tm\<lparr>tm_queue := take QUEUE_MAX (tm_queue tm), tm_failures := min (tm_failures tm + 1) 10,
         tm_dropped := tm_dropped tm + (length (tm_queue tm) - QUEUE_MAX),
         tm_next := t + backoff (min (tm_failures tm + 1) 10)\<rparr>"
proof (cases "out = None")
  case True
  with assms have "tm' = tm" by (auto simp: flush_def Let_def split: if_splits prod.splits)
  with True show ?thesis by (rule nothing)
next
  case False
  obtain batch rest where f: "fill X (tm_queue tm) 0 128 = (batch, rest)"
    by (cases "fill X (tm_queue tm) 0 128")
  have q: "batch @ rest = tm_queue tm" using fill_ok(1) [OF f] by simp
  obtain w1 where s: "out = Some batch" "settle (c batch) batch (tm\<lparr>tm_queue := rest\<rparr>, w1) = (tm', w')"
    using assms False by (auto simp: flush_def f Let_def split: if_splits prod.splits)
  obtain t w2 where n: "now w1 = (t, w2)" by fastforce
  show ?thesis
  proof (cases "c batch")
    case Accepted
    with s show ?thesis by (intro accepted [OF s(1) _ f]) (simp_all add: settle_def)
  next
    case Refused
    with s n show ?thesis by (intro refused [OF s(1) _ f, of t]) (simp_all add: settle_def)
  next
    case Failed
    with s n q show ?thesis by (intro failed [OF s(1) _ f, of t]) (auto simp: settle_def Let_def q simp del: take_append length_append)
  qed
qed

lemma backoff_bounds: "1000 \<le> backoff n" "backoff n \<le> 300000"
  by (simp_all add: backoff_def)

text \<open>A batch that did not get through is back in its place: same events, same order, nothing lost.\<close>

lemma flush_failed:
  assumes "flush X force c (tm, w) = (Some batch, tm', w')" "c batch = Failed"
    and "length (tm_queue tm) \<le> QUEUE_MAX"
  shows "tm_queue tm' = tm_queue tm" "tm_dropped tm' = tm_dropped tm" "0 < tm_failures tm'"
    "tm_failures tm' \<le> 10" "\<exists>t. t + 1000 \<le> tm_next tm' \<and> tm_next tm' \<le> t + 300000"
proof -
  obtain t where tm': "tm' = tm\<lparr>tm_queue := take QUEUE_MAX (tm_queue tm),
       tm_failures := min (tm_failures tm + 1) 10,
       tm_dropped := tm_dropped tm + (length (tm_queue tm) - QUEUE_MAX),
       tm_next := t + backoff (min (tm_failures tm + 1) 10)\<rparr>"
    using assms(1) by (cases rule: flush_cases) (use assms(2) in auto)
  show "tm_queue tm' = tm_queue tm" "tm_dropped tm' = tm_dropped tm" "0 < tm_failures tm'"
    "tm_failures tm' \<le> 10"
    using assms(3) by (simp_all add: tm')
  show "\<exists>t. t + 1000 \<le> tm_next tm' \<and> tm_next tm' \<le> t + 300000"
    by (rule exI [of _ t]) (simp add: tm' backoff_bounds)
qed

text \<open>A batch that got through, or that the collector will never take, leaves the queue.\<close>

lemma flush_posted:
  assumes "flush X force c (tm, w) = (Some batch, tm', w')" "c batch \<noteq> Failed"
  shows "tm_queue tm = batch @ tm_queue tm'"
    "tm_dropped tm' = tm_dropped tm + (if c batch = Refused then length batch else 0)"
    "length batch \<le> BATCH_MAX" "queue_bytes X batch + length batch + 128 \<le> BATCH_BYTES"
proof -
  obtain rest where f: "fill X (tm_queue tm) 0 128 = (batch, rest)" "tm_queue tm' = rest"
    "tm_dropped tm' = tm_dropped tm + (if c batch = Refused then length batch else 0)"
    using assms(1) by (cases rule: flush_cases) (use assms(2) in auto)
  show "tm_queue tm = batch @ tm_queue tm'" using fill_ok(1) [OF f(1)] f(2) by simp
  show "tm_dropped tm' = tm_dropped tm + (if c batch = Refused then length batch else 0)" by (rule f(3))
  show "length batch \<le> BATCH_MAX" using fill_ok(2) [OF f(1)] by simp
  show "queue_bytes X batch + length batch + 128 \<le> BATCH_BYTES"
    using fill_ok(3) [OF f(1)] by (simp add: BATCH_BYTES_def)
qed

section \<open>Runs\<close>

text \<open>How many events were queued and how many the collector took.\<close>

inductive telemetry_run :: "externals \<Rightarrow> telemetry \<Rightarrow> nat \<Rightarrow> nat \<Rightarrow> bool" for X where
  start: "tm_queue tm = [] \<Longrightarrow> tm_dropped tm = 0 \<Longrightarrow> telemetry_run X tm 0 0"
| queued: "telemetry_run X tm a d \<Longrightarrow> enqueue X name p (tm, w) = (tm', w') \<Longrightarrow>
    telemetry_run X tm' (a + 1) d"
| captured: "telemetry_run X tm a d \<Longrightarrow> capture X name (tm, w) = (tm', w') \<Longrightarrow>
    telemetry_run X tm' (a + 1) d"
| flushed: "telemetry_run X tm a d \<Longrightarrow> flush X force c (tm, w) = (out, tm', w') \<Longrightarrow>
    telemetry_run X tm' a
      (d + (case out of None \<Rightarrow> 0 | Some batch \<Rightarrow> if c batch = Accepted then length batch else 0))"
| sampled: "telemetry_run X tm a d \<Longrightarrow> telemetry_run X (tm\<lparr>tm_window := t\<rparr>) a d"

lemma capture_counts:
  assumes "capture X name (tm, w) = (tm', w')"
  shows "length (tm_queue tm') \<le> QUEUE_MAX"
    "tm_dropped tm' + length (tm_queue tm') = tm_dropped tm + length (tm_queue tm) + 1"
proof -
  obtain tm1 w1 where e: "enqueue X name (JObj []) (tm, w) = (tm1, w1)" by fastforce
  have "length (tm_queue tm') = length (tm_queue tm1)" "tm_dropped tm' = tm_dropped tm1"
    using assms by (auto simp: capture_def e split: if_splits)
  with enqueue_bounded [OF e] show "length (tm_queue tm') \<le> QUEUE_MAX"
    "tm_dropped tm' + length (tm_queue tm') = tm_dropped tm + length (tm_queue tm) + 1" by simp_all
qed

lemma telemetry_accounts:
  assumes "telemetry_run X tm a d"
  shows "a = d + tm_dropped tm + length (tm_queue tm) \<and> length (tm_queue tm) \<le> QUEUE_MAX"
  using assms
proof induction
  case (queued tm a d name p w tm' w')
  then show ?case using enqueue_bounded [OF queued.hyps(2)] by auto
next
  case (captured tm a d name w tm' w')
  then show ?case using capture_counts [OF captured.hyps(2)] by auto
next
  case (flushed tm a d force c w out tm' w')
  from flushed.hyps(2) show ?case
    by (cases rule: flush_cases) (use flushed.IH fill_ok(1) in fastforce)+
qed simp_all


lemma fold_capture_run:
  assumes "telemetry_run X tm a d" "fold (\<lambda>e. capture X (f e)) es (tm, w) = (tm', w')"
  shows "telemetry_run X tm' (a + length es) d"
  using assms
proof (induction es arbitrary: tm w a)
  case (Cons e es)
  obtain tm1 w1 where c: "capture X (f e) (tm, w) = (tm1, w1)" by fastforce
  then have "telemetry_run X tm1 (a + 1) d" by (rule captured [OF Cons.prems(1)])
  from Cons.IH [OF this] Cons.prems(2) c show ?case by simp
qed simp

text \<open>
  A sample takes the errors and counters off the server, queues an event for each error, one for the
  counters if there are any and one for the metrics, and flushes: it is a run of those operations.
\<close>

lemma sample_run:
  assumes r: "telemetry_run X tm a d" and s: "sample X rss c s (tm, w) = (s', tm', w')"
  obtains a' d' where "telemetry_run X tm' a' d'"
    "a' = a + length (d_errors (diagnostics s)) +
      (if as_object (d_activity (diagnostics s)) \<in> {None, Some []} then 0 else 1) + 1" "d \<le> d'"
proof -
  let ?act = "d_activity (diagnostics s)"
  obtain t w1 where n: "now w = (t, w1)" by fastforce
  obtain tm1 w2 where f: "fold (\<lambda>e. capture X (case as_str (idx e ''name'') of
      Some name \<Rightarrow> name | None \<Rightarrow> ''server.fatal'')) (d_errors (diagnostics s)) (tm, w1) = (tm1, w2)"
    by fastforce
  from fold_capture_run [OF r f] have 1: "telemetry_run X tm1 (a + length (d_errors (diagnostics s))) d" .
  obtain tm2 w3 where e: "(case as_object ?act of
      Some (e # m) \<Rightarrow> enqueue X ''server.activity'' (setk ''windowMs'' (jnat (t - tm_window tm1)) ?act) (tm1, w2)
    | _ \<Rightarrow> (tm1, w2)) = (tm2, w3)" by fastforce
  have 2: "telemetry_run X tm2 (a + length (d_errors (diagnostics s)) +
      (if as_object ?act \<in> {None, Some []} then 0 else 1)) d"
  proof (cases "as_object ?act")
    case None
    with e 1 show ?thesis by auto
  next
    case (Some m)
    with e 1 queued [OF 1] show ?thesis by (cases m) auto
  qed
  let ?tm3 = "tm2\<lparr>tm_window := t\<rparr>"
  let ?p = "setk ''telemetryDropped'' (jnat (tm_dropped ?tm3))
      (setk ''uptimeSeconds'' (jnat ((t - tm_started ?tm3) div 1000))
        (setk ''rssBytes'' (jnat rss) (stats s)))"
  obtain tm4 w4 where q: "enqueue X ''server.metrics'' ?p (?tm3, w3) = (tm4, w4)" by fastforce
  obtain b where "flush X False c (tm4, w4) = (b, tm', w')"
    using s unfolding sample_def prod.case n Let_def f e q by (auto split: prod.splits)
  from flushed [OF queued [OF sampled [OF 2] q] this] show thesis by (rule that) simp_all
qed

section \<open>Shutdown\<close>

text \<open>
  Events of at most 2000 bytes always fill a batch by number, so nine accepted batches empty the
  fullest queue.
\<close>

lemma fill_full:
  assumes "fill X q n bytes = (batch, rest)" "\<forall>v \<in> set q. event_bytes X v \<le> 2000"
    and "bytes \<le> 128 + n * 2001" "n \<le> BATCH_MAX"
  shows "length batch = min (length q) (BATCH_MAX - n)"
  using assms
proof (induction X q n bytes arbitrary: batch rest rule: fill.induct)
  case (2 X v q n bytes)
  show ?case
  proof (cases "n = BATCH_MAX")
    case False
    then have n: "n < BATCH_MAX" using "2.prems"(4) by simp
    have "event_bytes X v \<le> 2000" using "2.prems"(2) by simp
    with n "2.prems"(3) have go: "\<not> (n \<ge> BATCH_MAX \<or> bytes + (event_bytes X v + 1) > BATCH_BYTES)"
      by (simp add: BATCH_MAX_def BATCH_BYTES_def)
    obtain b r where f: "fill X q (n + 1) (bytes + (event_bytes X v + 1)) = (b, r)" by fastforce
    have "length b = min (length q) (BATCH_MAX - (n + 1))"
      by (rule "2.IH" [OF go f]) (use "2.prems" n in auto)
    with "2.prems"(1) go f n show ?thesis by auto
  qed (use "2.prems" in auto)
qed simp

lemma drain_empties:
  assumes "length (tm_queue tm) \<le> BATCH_MAX * n" "\<forall>v \<in> set (tm_queue tm). event_bytes X v \<le> 2000"
    and "tm_queue tm \<noteq> []"
  shows "tm_queue (fst (drain X (replicate n (\<lambda>_. Accepted)) (tm, w))) = []"
  using assms
proof (induction n arbitrary: tm w)
  case (Suc n)
  obtain batch rest where f: "fill X (tm_queue tm) 0 128 = (batch, rest)"
    by (cases "fill X (tm_queue tm) 0 128")
  note q = fill_ok(1) [OF f]
  let ?tm = "tm\<lparr>tm_queue := rest, tm_failures := 0, tm_next := 0\<rparr>"
  have fl: "flush X True (\<lambda>_. Accepted) (tm, w) = (Some batch, ?tm, w)"
    using Suc.prems(3) by (simp add: flush_def f settle_def)
  have len: "length batch = min (length (tm_queue tm)) BATCH_MAX"
    using fill_full [OF f Suc.prems(2)] by simp
  show ?case
  proof (cases "rest = []")
    case True
    then show ?thesis by (simp add: fl)
  next
    case False
    have "length (tm_queue tm) = length batch + length rest" "0 < length rest"
      using False by (simp_all add: q)
    then have "length (tm_queue ?tm) \<le> BATCH_MAX * n"
      using Suc.prems(1) len by (simp add: BATCH_MAX_def)
    moreover have "\<forall>v \<in> set (tm_queue ?tm). event_bytes X v \<le> 2000" using Suc.prems(2) q by simp
    ultimately show ?thesis using Suc.IH [of ?tm w] False by (simp add: fl)
  qed
qed simp

lemma close_empties:
  assumes "\<forall>v \<in> set (tm_queue (fst (enqueue X ''server.stopped''
      (JObj [(''telemetryDropped'', jnat (tm_dropped tm))]) (tm, w)))). event_bytes X v \<le> 2000"
    and "length answers \<ge> 9" "\<forall>c \<in> set answers. c = (\<lambda>_. Accepted)"
  shows "tm_queue (fst (close_telemetry X answers (tm, w))) = []"
proof -
  obtain tm1 w1 where e: "enqueue X ''server.stopped''
      (JObj [(''telemetryDropped'', jnat (tm_dropped tm))]) (tm, w) = (tm1, w1)" by fastforce
  have "take 9 answers = replicate 9 (\<lambda>_. Accepted)"
    using assms(2,3) by (intro replicate_eqI) (auto dest: in_set_takeD)
  moreover have "tm_queue (fst (drain X (replicate 9 (\<lambda>_. Accepted)) (tm1, w1))) = []"
  proof (cases "tm_queue tm1 = []")
    case True
    then show ?thesis by (simp add: flush_def eval_nat_numeral)
  next
    case False
    have "length (tm_queue tm1) \<le> BATCH_MAX * 9"
      using enqueue_bounded(1) [OF e] by (simp add: QUEUE_MAX_def BATCH_MAX_def)
    with False assms(1) e show ?thesis by (intro drain_empties) simp_all
  qed
  ultimately show ?thesis by (simp add: close_telemetry_def e)
qed

end
