(* ===== verification/Startup.thy ===== *)
theory Startup
  imports Config Telemetry Quota Membership
begin

text \<open>
  What the process builds before it serves: the store with the notification jobs it finds on disk
  (\<open>Store::new\<close>), the diagnostics, the server and the telemetry. The environment, the parser of
  URLs and whether the HTTP client can be built are parameters.
\<close>

section \<open>The store\<close>

definition string_array :: "json \<Rightarrow> bool" where
  "string_array v = (case as_array v of None \<Rightarrow> False | Some a \<Rightarrow> list_all is_string a)"

definition job_ok :: "json \<Rightarrow> bool" where
  "job_ok j \<longleftrightarrow> notice j \<and> string_array (idx j ''done'') \<and> integer (idx j ''retryAt'') \<and>
     is_boolean (idx j ''scheduled'')"

definition job_list :: "externals \<Rightarrow> bytes \<Rightarrow> json list option" where
  "job_list X b =
     (case Option.bind (x_from_slice X b) as_array of
        None \<Rightarrow> None | Some js \<Rightarrow> if list_all job_ok js then Some js else None)"

text \<open>One pass over the directory of notifications; a file that cannot be read is skipped.\<close>

fun scan_jobs :: "externals \<Rightarrow> (fname, bytes) imap \<Rightarrow> (string, json list) imap \<Rightarrow> world \<Rightarrow>
    (string, json list) imap option \<times> world" where
  "scan_jobs X [] jobs w = (Some jobs, w)"
| "scan_jobs X (((folder, name), b) # fs) jobs w =
     (if folder \<noteq> ''notifications'' then scan_jobs X fs jobs w
      else
        let (listed, w1) = disk w; i = file_stem name in
        if \<not> listed then (None, w1)
        else if extension name \<noteq> Some ''json'' \<or> \<not> uuid_text i then scan_jobs X fs jobs w1
        else
          let (got, w2) = disk w1 in
          (case (if got then job_list X b else None) of
             Some js \<Rightarrow> scan_jobs X fs (AList.update i js jobs) w2
           | None \<Rightarrow> scan_jobs X fs jobs w2))"

text \<open>The three directories, each created and given its mode.\<close>

fun make_dirs :: "string list \<Rightarrow> world \<Rightarrow> bool \<times> world" where
  "make_dirs [] w = (True, w)"
| "make_dirs (f # fs) w =
     (let (made, w1) = disk w in
      if \<not> made then (False, w1)
      else let (set_mode, w2) = disk w1 in if \<not> set_mode then (False, w2) else make_dirs fs w2)"

definition store_new :: "externals \<Rightarrow> string \<Rightarrow> nat \<Rightarrow> (fname, bytes) imap \<Rightarrow> world \<Rightarrow>
    store option \<times> world" where
  "store_new X dir cap files w =
     (let st = \<lparr>st_enabled = (dir \<noteq> []), st_max = cap, st_jobs = [], st_files = files\<rparr> in
      if \<not> st_enabled st then (Some st, w)
      else
        let (made, w1) = make_dirs [''rooms'', ''accounts'', ''notifications''] w in
        if \<not> made then (None, w1)
        else
          let (listed, w2) = disk w1 in
          if \<not> listed then (None, w2)
          else
            (case scan_jobs X files [] w2 of
               (None, w3) \<Rightarrow> (None, w3)
             | (Some jobs, w3) \<Rightarrow>
                 (case prune X [] (st\<lparr>st_jobs := jobs\<rparr>, w3) of
                    (None, st', w4) \<Rightarrow> (None, w4)
                  | (Some removed, st', w4) \<Rightarrow> (Some st', w4))))"

section \<open>The server\<close>

definition diag_new :: "env \<Rightarrow> config \<Rightarrow> diag" where
  "diag_new env cf =
     \<lparr>d_verbose = cfg_b cf ''verboseLogs'',
      d_tx = (cfg_b cf ''verboseLogs'' \<and> env ''RELAY_TEST_CONTROL'' = Unset),
      d_lines = [], d_queued = 0, d_dropped = 0, d_activity = JObj [], d_errors = []\<rparr>"

definition server_new :: "externals \<Rightarrow> env \<Rightarrow> config \<Rightarrow> (fname, bytes) imap \<Rightarrow> world \<Rightarrow> server option" where
  "server_new X env cf files w =
     (case store_new X (cfg_s cf ''sessionDirectory'') (cfg_n cf ''sessionMaxBytes'') files w of
        (None, w1) \<Rightarrow> None
      | (Some st, w1) \<Rightarrow>
          Some \<lparr>diagnostics = diag_new env cf, config = cf, players = [], rooms = [],
                connections = [], store = st, delayed = [],
                push = (env ''FCM_ENABLED'' = Given ''true''), pushes_in_flight = 0,
                legacy_pushes = [], notice_wake = False, legacy_wake = False, world = w1\<rparr>)"

section \<open>Telemetry\<close>

text \<open>The parts of a parsed URL the code looks at.\<close>

record url =
  url_scheme :: string
  url_username :: string
  url_password :: "string option"
  url_query :: "string option"
  url_fragment :: "string option"

record collector =
  cl_url :: string
  cl_key :: string
  cl_project :: string
  cl_interval :: nat
  cl_timeout :: nat

definition url_ok :: "(string \<Rightarrow> url option) \<Rightarrow> string \<Rightarrow> bool" where
  "url_ok parse_url s =
     (case parse_url s of
        None \<Rightarrow> False
      | Some u \<Rightarrow> url_scheme u = ''https'' \<and> url_username u = [] \<and> url_password u = None \<and>
          url_query u = None \<and> url_fragment u = None)"

definition var_or :: "env \<Rightarrow> string \<Rightarrow> string \<Rightarrow> string" where
  "var_or env name d = (case env name of Given s \<Rightarrow> s | _ \<Rightarrow> d)"

definition project_ok :: "string \<Rightarrow> bool" where
  "project_ok s \<longleftrightarrow> s \<noteq> [] \<and> length s \<le> 64 \<and> (is_digit (hd s) \<or> is_lower (hd s)) \<and>
     list_all (\<lambda>c. is_digit c \<or> is_lower c \<or> c \<in> set ''_-'') (tl s)"

definition release_ok :: "string \<Rightarrow> bool" where
  "release_ok s \<longleftrightarrow> s \<noteq> [] \<and> length s \<le> 64 \<and> list_all (\<lambda>c. is_alnum c \<or> c \<in> set ''._+-'') s"

definition ranged :: "env \<Rightarrow> string \<Rightarrow> nat \<Rightarrow> nat \<Rightarrow> nat \<Rightarrow> nat option" where
  "ranged env name fallback low high =
     (case env name of
        Given s \<Rightarrow> (case parse_uint 64 s of
            None \<Rightarrow> None | Some n \<Rightarrow> if n < low \<or> n > high then None else Some n)
      | _ \<Rightarrow> Some fallback)"

text \<open>\<^const>\<open>None\<close> is an error; \<open>Some None\<close> is telemetry that is off.\<close>

definition telemetry_new :: "(string \<Rightarrow> url option) \<Rightarrow> bool \<Rightarrow> string \<Rightarrow> env \<Rightarrow> world \<Rightarrow>
    ((collector \<times> telemetry) option) option \<times> world" where
  "telemetry_new parse_url client platform env w =
     (let enabled = env ''TELEMETRY_ENABLED'';
          url = trimmed (var_or env ''TELEMETRY_URL'' '''');
          key = trimmed (var_or env ''TELEMETRY_WRITE_KEY'' '''');
          project = var_or env ''TELEMETRY_PROJECT'' ''no-logic'';
          release = var_or env ''TELEMETRY_RELEASE'' ''1.0.0''
      in if enabled = Given ''false'' then (Some None, w)
         else if (case enabled of Given s \<Rightarrow> s \<noteq> ''true'' | _ \<Rightarrow> False) then (None, w)
         else if enabled = Given ''true'' \<and> (url = [] \<or> key = []) then (None, w)
         else if url \<noteq> [] \<and> \<not> url_ok parse_url url then (None, w)
         else if key \<noteq> [] \<and> \<not> key_text 24 key then (None, w)
         else if \<not> project_ok project \<or> \<not> release_ok release then (None, w)
         else
           (case ranged env ''TELEMETRY_INTERVAL_MS'' 60000 1000 3600000 of
              None \<Rightarrow> (None, w)
            | Some interval \<Rightarrow>
                (case ranged env ''TELEMETRY_TIMEOUT_MS'' 5000 100 30000 of
                   None \<Rightarrow> (None, w)
                 | Some timeout \<Rightarrow>
                     if url = [] \<or> key = [] then (Some None, w)
                     else if \<not> client then (None, w)
                     else
                       let (t, w1) = now w; (i, w2) = new_id w1
                       in (Some (Some (\<lparr>cl_url = url, cl_key = key, cl_project = project,
                                         cl_interval = interval, cl_timeout = timeout\<rparr>,
                            \<lparr>tm_release = release, tm_platform = platform, tm_session = i,
                             tm_queue = [], tm_dropped = 0, tm_failures = 0, tm_next = 0,
                             tm_started = t, tm_window = t\<rparr>)), w2))))"

section \<open>Notices survive a restart\<close>

lemma stem_json: "uuid_text i \<Longrightarrow> extension (i @ ''.json'') = Some ''json'' \<and> file_stem (i @ ''.json'') = i"
  by (simp add: file_stem_def extension_def uuid_length)

text \<open>What a scan makes of the file of one room, if there is one.\<close>

definition jobs_at :: "externals \<Rightarrow> (fname, bytes) imap \<Rightarrow> string \<Rightarrow> json list option" where
  "jobs_at X fs i =
     (if uuid_text i then Option.bind (map_of fs (''notifications'', i @ ''.json'')) (job_list X) else None)"

lemma scan_jobs_ok:
  assumes "disk_ok w" "imap_ok fs"
  shows "\<exists>jobs' w'. scan_jobs X fs jobs w = (Some jobs', w') \<and> disk_ok w' \<and>
    (imap_ok jobs \<longrightarrow> imap_ok jobs') \<and>
    (\<forall>i. map_of jobs' i = (case jobs_at X fs i of Some js \<Rightarrow> Some js | None \<Rightarrow> map_of jobs i))"
  using assms
proof (induction fs arbitrary: jobs w)
  case Nil
  then show ?case by (simp add: jobs_at_def)
next
  case (Cons e fs)
  obtain folder name b where e: "e = ((folder, name), b)" by (metis prod.exhaust)
  let ?i = "file_stem name"
  have fs: "imap_ok fs" "map_of fs (folder, name) = None"
    using Cons.prems(2) by (auto simp: e map_of_eq_None_iff)
  have other: "jobs_at X (e # fs) i = jobs_at X fs i"
    if "(folder, name) \<noteq> (''notifications'', i @ ''.json'')" for i
    using that by (auto simp: jobs_at_def e)
  show ?case
  proof (cases "folder = ''notifications'' \<and> extension name = Some ''json'' \<and> uuid_text ?i")
    case False
    have "jobs_at X (e # fs) i = jobs_at X fs i" for i
      using False stem_json [of i] by (cases "uuid_text i") (auto simp: jobs_at_def e)
    moreover define w1 where "w1 = (if folder \<noteq> ''notifications'' then w else snd (disk w))"
    moreover have "scan_jobs X (e # fs) jobs w = scan_jobs X fs jobs w1" "disk_ok w1"
      using False Cons.prems(1) by (auto simp: e split_beta Let_def w1_def)
    ultimately show ?thesis using Cons.IH [OF _ fs(1), of w1 jobs] by simp
  next
    case True
    then have name: "name = ?i @ ''.json''" using extension_split by fastforce
    let ?w = "snd (disk (snd (disk w)))"
    have w: "disk_ok ?w" using Cons.prems(1) by simp
    have elsewhere: "jobs_at X (e # fs) i = jobs_at X fs i" if "i \<noteq> ?i" for i
      by (rule other) (metis that name append_same_eq prod.inject)
    have at: "jobs_at X (e # fs) ?i = job_list X b" "jobs_at X fs ?i = None"
      using True fs(2) name by (simp_all add: jobs_at_def e flip: name)
    show ?thesis
    proof (cases "job_list X b")
      case None
      then have "scan_jobs X (e # fs) jobs w = scan_jobs X fs jobs ?w"
        using True Cons.prems(1) by (simp add: e split_beta)
      moreover have "jobs_at X (e # fs) i = jobs_at X fs i" for i
        using elsewhere [of i] at None by (cases "i = ?i") auto
      ultimately show ?thesis using Cons.IH [OF w fs(1), of jobs] by simp
    next
      case (Some js)
      then have *: "scan_jobs X (e # fs) jobs w = scan_jobs X fs (AList.update ?i js jobs) ?w"
        using True Cons.prems(1) by (simp add: e split_beta)
      have "(case jobs_at X (e # fs) i of Some js \<Rightarrow> Some js | None \<Rightarrow> map_of jobs i) =
          (case jobs_at X fs i of Some js \<Rightarrow> Some js | None \<Rightarrow> map_of (AList.update ?i js jobs) i)" for i
        using elsewhere [of i] at Some by (cases "i = ?i") (auto simp: update_conv' split: option.split)
      then show ?thesis
        unfolding * using Cons.IH [OF w fs(1), of "AList.update ?i js jobs"] by auto
    qed
  qed
qed

lemma disk_ok_load: "disk_ok w \<Longrightarrow> disk_ok (snd (load X i body (st, w)))"
  by (auto simp: load_def Let_def exists_file_def split_beta disk_ok_room_of [OF _ prod.collapse [symmetric]]
      split: option.splits)

lemma prune_scan_complete:
  assumes "disk_ok w"
  shows "\<exists>tot es w'. prune_scan X active st fs acc w = (Some (tot, es), w') \<and> disk_ok w'"
  using assms
proof (induction fs arbitrary: acc w)
  case Nil
  then show ?case by (cases acc) simp
next
  case (Cons e fs)
  obtain folder name b where e: "e = ((folder, name), b)" by (metis prod.exhaust)
  obtain tot es where acc: "acc = (tot, es)" by (cases acc)
  have "disk_ok (snd (load X (file_stem name) False (st, snd (disk (snd (disk w))))))"
    using Cons.prems by (simp add: disk_ok_load)
  with Cons.prems show ?case by (simp add: e acc split_beta Let_def Cons.IH)
qed

lemma make_dirs_ok: "disk_ok w \<Longrightarrow> \<exists>w'. make_dirs fs w = (True, w') \<and> disk_ok w'"
  by (induction fs arbitrary: w) (auto simp: split_beta)


lemma store_new_on:
  assumes w: "disk_ok w" and dir: "dir \<noteq> []" and fs: "imap_ok files" and small: "room_bytes files \<le> cap"
  obtains jobs w' where "store_new X dir cap files w =
      (Some \<lparr>st_enabled = True, st_max = cap, st_jobs = jobs, st_files = files\<rparr>, w')"
    "\<And>i. map_of jobs i = jobs_at X files i" "imap_ok jobs"
proof -
  obtain w1 where w1: "make_dirs [''rooms'', ''accounts'', ''notifications''] w = (True, w1)" "disk_ok w1"
    using make_dirs_ok [OF w] by blast
  obtain w2 where w2: "disk w1 = (True, w2)" "disk_ok w2"
    using disk_okD [OF w1(2)] by (metis prod.collapse)
  obtain jobs w3 where sc: "scan_jobs X files [] w2 = (Some jobs, w3)" "disk_ok w3" "imap_ok jobs"
    "\<forall>i. map_of jobs i = (case jobs_at X files i of Some js \<Rightarrow> Some js | None \<Rightarrow> map_of [] i)"
    using scan_jobs_ok [OF w2(2) fs, of X "[]"] by auto
  let ?st = "\<lparr>st_enabled = True, st_max = cap, st_jobs = jobs, st_files = files\<rparr>"
  have w3: "disk w3 = (True, snd (disk w3))" "disk_ok (snd (disk w3))"
    using disk_okD [OF sc(2), of "fst (disk w3)" "snd (disk w3)"] by (auto simp: prod_eq_iff)
  obtain tot es w4 where ps: "prune_scan X [] ?st files (0, []) (snd (disk w3)) = (Some (tot, es), w4)"
    using prune_scan_complete [OF w3(2)] by blast
  have "tot \<le> cap" using prune_scan_ok [OF ps fs] small by simp
  then have "prune X [] (?st, w3) = (Some [], ?st, w4)"
    using disk_ok_step(1) [OF sc(2)] ps by (cases "sort es") (auto simp: prune_def split_beta)
  then have "store_new X dir cap files w = (Some ?st, w4)"
    using dir w1(1) w2(1) sc(1) by (simp add: store_new_def)
  moreover have "map_of jobs i = jobs_at X files i" for i
    using sc(4) by (cases "jobs_at X files i") simp_all
  ultimately show thesis using sc(3) by (rule that)
qed

text \<open>
  A store whose job lists are on disk comes back with the same lists: the codec reads back what it
  wrote, the lists are well-formed, and no other readable list lies in the directory.
\<close>

lemma restart_jobs:
  assumes w: "disk_ok w" and sy: "jobs_synced X st" and dir: "dir \<noteq> []"
    and small: "room_bytes (st_files st) \<le> cap"
    and codec: "\<forall>js \<in> ran (map_of (st_jobs st)). x_from_slice X (x_to_vec X (JArr js)) = Some (JArr js) \<and>
      list_all job_ok js"
    and only: "\<forall>i. jobs_at X (st_files st) i \<noteq> None \<longrightarrow> map_of (st_jobs st) i \<noteq> None"
  obtains st' w' where "store_new X dir cap (st_files st) w = (Some st', w')"
    "map_of (st_jobs st') = map_of (st_jobs st)" "st_files st' = st_files st" "jobs_synced X st'"
proof -
  have fs: "imap_ok (st_files st)" using sy by (simp add: jobs_synced_def)
  obtain jobs w' where sn: "store_new X dir cap (st_files st) w =
      (Some \<lparr>st_enabled = True, st_max = cap, st_jobs = jobs, st_files = st_files st\<rparr>, w')"
    and jobs: "\<And>i. map_of jobs i = jobs_at X (st_files st) i" "imap_ok jobs"
    by (rule store_new_on [OF w dir fs small]) (rule that)
  have "jobs_at X (st_files st) i = map_of (st_jobs st) i" for i
  proof (cases "map_of (st_jobs st) i")
    case None
    then show ?thesis using only by (metis not_None_eq)
  next
    case (Some js)
    then have "js \<in> ran (map_of (st_jobs st))" by (rule ranI)
    with codec have "job_list X (x_to_vec X (JArr js)) = Some js" by (simp add: job_list_def)
    with jobs_syncedD [OF sy Some] Some show ?thesis by (simp add: jobs_at_def)
  qed
  with jobs(1) have "map_of jobs = map_of (st_jobs st)" by (simp add: fun_eq_iff)
  with sy jobs(2) fs show thesis by (intro that [OF sn]) (simp_all add: jobs_synced_def)
qed

section \<open>The state a run starts from\<close>

lemma job_ok_object: "job_ok j \<Longrightarrow> is_object j"
  by (auto simp: job_ok_def notice_def string_array_def idx_def split: option.splits)

lemma job_list_objects: "job_list X b = Some js \<Longrightarrow> list_all is_object js"
  by (auto simp: job_list_def list_all_iff job_ok_object split: option.splits if_splits)

lemma scan_jobs_sound:
  "scan_jobs X fs jobs w = (Some jobs', w') \<Longrightarrow> list_all (\<lambda>(i, js). list_all is_object js) jobs \<Longrightarrow>
   list_all (\<lambda>(i, js). list_all is_object js) jobs'"
proof (induction X fs jobs w rule: scan_jobs.induct)
  case (2 X folder name b fs jobs w)
  obtain listed w1 where 1: "disk w = (listed, w1)" by fastforce
  obtain got w2 where g: "disk w1 = (got, w2)" by fastforce
  have up: "list_all (\<lambda>(i, js). list_all is_object js) (AList.update (file_stem name) js jobs)"
    if "list_all is_object js" for js
    using sound_jobs_update [of "\<lparr>st_enabled = True, st_max = 0, st_jobs = jobs, st_files = []\<rparr>"]
      that "2.prems"(2) by (simp add: sound_jobs_def)
  note skip = "2.IH"(1) and unlisted = "2.IH"(2) [OF _ 1 [symmetric] refl refl]
    and read = "2.IH"(3,4) [OF _ 1 [symmetric] refl refl _ _ g [symmetric] refl]
  show ?case
  proof (cases "folder = ''notifications''")
    case False
    with "2.prems" skip show ?thesis by simp
  next
    case True
    note run = "2.prems"(1) [unfolded scan_jobs.simps Let_def 1 g prod.case]
    show ?thesis
    proof (cases "listed \<and> extension name = Some ''json'' \<and> uuid_text (file_stem name)")
      case False
      with True run "2.prems"(2) unlisted show ?thesis by (auto split: if_split_asm)
    next
      case live: True
      show ?thesis
      proof (cases "if got then job_list X b else None")
        case None
        with live True run "2.prems"(2) read(1) show ?thesis by simp
      next
        case (Some js)
        then have "list_all is_object js" by (auto intro: job_list_objects split: if_split_asm)
        with Some live True run read(2) up show ?thesis by simp
      qed
    qed
  qed
qed simp

lemma store_new_sound:
  assumes "store_new X dir cap files w = (Some st, w')"
  shows "sound_jobs st"
proof (cases "dir = []")
  case True
  with assms show ?thesis by (auto simp: store_new_def sound_jobs_def)
next
  case False
  with assms obtain jobs w2 w3 removed w4 where
    scan: "scan_jobs X files [] w2 = (Some jobs, w3)"
    and prune: "prune X [] (\<lparr>st_enabled = True, st_max = cap, st_jobs = jobs, st_files = files\<rparr>, w3) =
      (Some removed, st, w4)"
    by (auto simp: store_new_def Let_def split: if_split_asm prod.split_asm option.split_asm)
  have "list_all (\<lambda>(i, js). list_all is_object js) jobs" by (rule scan_jobs_sound [OF scan]) simp
  then show ?thesis
    by (intro keeps_jobsD [OF keeps_jobs_prune prune]) (simp add: sound_jobs_def)
qed

lemma server_new_wf:
  assumes "server_new X env cf files w = Some s"
  shows "server_wf X s" "config s = cf" "players s = []" "rooms s = []" "connections s = []"
    "diag_bounded (diagnostics s)"
  using assms by (auto simp: server_new_def server_wf_def wf_but_def books_def members_agree_def
      diag_bounded_def diag_new_def store_new_sound split: option.splits prod.splits)

lemma ranged_bounds:
  "ranged env name d low high = Some n \<Longrightarrow> low \<le> d \<Longrightarrow> d \<le> high \<Longrightarrow> low \<le> n \<and> n \<le> high"
  by (auto simp: ranged_def split: setting.splits option.splits if_splits)

text \<open>Telemetry is only sent to an HTTPS address without credentials, with a key of the right form.\<close>

lemma telemetry_new_ok:
  assumes "telemetry_new parse_url client platform env w = (Some (Some (cl, tm)), w')"
  shows "url_ok parse_url (cl_url cl)" "key_text 24 (cl_key cl)" "project_ok (cl_project cl)"
    "release_ok (tm_release tm)" "1000 \<le> cl_interval cl" "cl_interval cl \<le> 3600000"
    "100 \<le> cl_timeout cl" "cl_timeout cl \<le> 30000" "telemetry_run X tm 0 0"
    "env ''TELEMETRY_ENABLED'' \<noteq> Given ''false''"
proof -
  obtain t w1 i where on: "env ''TELEMETRY_ENABLED'' \<noteq> Given ''false''"
    and ok: "url_ok parse_url (cl_url cl)" "key_text 24 (cl_key cl)" "project_ok (cl_project cl)"
      "release_ok (tm_release tm)"
    and n: "ranged env ''TELEMETRY_INTERVAL_MS'' 60000 1000 3600000 = Some (cl_interval cl)"
      "ranged env ''TELEMETRY_TIMEOUT_MS'' 5000 100 30000 = Some (cl_timeout cl)"
    and tm: "tm_queue tm = []" "tm_dropped tm = 0"
    using assms unfolding telemetry_new_def Let_def
    by (auto split: if_split_asm option.split_asm prod.split_asm)
  show "url_ok parse_url (cl_url cl)" "key_text 24 (cl_key cl)" "project_ok (cl_project cl)"
    "release_ok (tm_release tm)" "env ''TELEMETRY_ENABLED'' \<noteq> Given ''false''"
    by (rule ok on)+
  show "1000 \<le> cl_interval cl" "cl_interval cl \<le> 3600000" "100 \<le> cl_timeout cl" "cl_timeout cl \<le> 30000"
    using ranged_bounds [OF n(1)] ranged_bounds [OF n(2)] by simp_all
  show "telemetry_run X tm 0 0" by (rule telemetry_run.start [OF tm])
qed

end
