(* ===== verification/Harness.thy ===== *)
theory Harness
  imports Client Startup Logger Worker Push
begin

text \<open>
  What the developer tools share with the server (\<open>rust/tooling/mod.rs\<close>): the environment a server is
  started with, the lines it prints, the commands it takes on its standard input (\<open>rust/main.rs\<close>), and
  the address of a binary frame.
\<close>

section \<open>The environment of a server\<close>

text \<open>\<open>.collect::<Vec<_>>().join(",")\<close>\<close>

definition strings_in :: "json list \<Rightarrow> string list" where
  "strings_in vs = List.map_filter as_str vs"

definition option_text :: "externals \<Rightarrow> json \<Rightarrow> string" where
  "option_text X v =
     (case as_str v of
        Some s \<Rightarrow> s
      | None \<Rightarrow> (case as_array v of Some vs \<Rightarrow> Protocol.join (strings_in vs) | None \<Rightarrow> x_display X v))"

definition harness_settings :: "(string \<times> string) list" where
  "harness_settings =
     [(''HOST'', ''127.0.0.1''), (''PORT'', ''0''), (''SESSION_DIRECTORY'', ''''),
      (''FCM_ENABLED'', ''false''), (''TELEMETRY_ENABLED'', ''false''), (''RELAY_TEST_CONTROL'', ''1''),
      (''MAINTENANCE_INTERVAL_MS'', ''10''), (''SHUTDOWN_TIMEOUT_MS'', ''200''),
      (''IDLE_TIMEOUT_MS'', ''30000''), (''AUTH_TIMEOUT_MS'', ''1000'')]"

text \<open>
  \<open>Relay::spawn\<close>: what the child sees of a name. The options are set after the fixed ones, a later one
  over an earlier one, over what the child inherits. The names of the options are ASCII.
\<close>

definition relay_env :: "externals \<Rightarrow> env \<Rightarrow> json \<Rightarrow> bool \<Rightarrow> env" where
  "relay_env X inherited options test_control name =
     (let given = (case options of JObj kvs \<Rightarrow> map (\<lambda>(k, v). (env_key k, option_text X v)) kvs | _ \<Rightarrow> [])
      in if \<not> test_control \<and> name = ''RELAY_TEST_CONTROL'' then Unset
         else case map_of (rev given @ harness_settings) name of
             Some s \<Rightarrow> Given s
           | None \<Rightarrow> inherited name)"

section \<open>What it prints\<close>

definition snapshot :: "externals \<Rightarrow> server \<Rightarrow> json" where
  "snapshot X s =
     JObj [(''stats'', stats s),
       (''rooms'', JArr (map (\<lambda>(i, r). JArr [JStr i, JObj [(''active'', jstrs (r_active r)),
          (''sessionState'', JStr (x_b64 X (r_state r))),
          (''upload'', (case r_upload r of None \<Rightarrow> JNull | Some u \<Rightarrow> JObj [(''at'', jnat (u_at u))]))]])
          (rooms s))),
       (''jobs'', JObj (map (\<lambda>(i, js). (i, JArr js)) (st_jobs (store s))))]"

record observed =
  ob_records :: "json list"
  ob_snapshot :: json
  ob_port :: nat
  ob_sync :: string

text \<open>A line of the child's standard output; \<^const>\<open>None\<close> is the \<open>unwrap\<close> of a port that is no number.\<close>

definition observe :: "externals \<Rightarrow> string \<Rightarrow> observed \<Rightarrow> observed option" where
  "observe X line ob =
     (case x_from_str X line of
        None \<Rightarrow> Some ob
      | Some v \<Rightarrow>
          let listening = idx v ''event'' = JStr ''server.listening'';
              port = as_u64 (idx (idx v ''address'') ''port'');
              plain = getk v ''stats'' = None
          in if listening \<and> port = None then None
             else
               let o1 = (if listening then ob\<lparr>ob_port := the port mod 65536\<rparr> else ob);
                   o2 = (if \<not> plain then o1\<lparr>ob_snapshot := v\<rparr> else o1);
                   o3 = (case as_str (idx v ''sync'') of Some i \<Rightarrow> o2\<lparr>ob_sync := i\<rparr> | None \<Rightarrow> o2)
               in Some (if length (ob_records o3) < 10000 \<and> plain
                        then o3\<lparr>ob_records := ob_records o3 @ [v]\<rparr> else o3))"

section \<open>Commands on the standard input\<close>

text \<open>The closure of a line that is JSON, for a server that was started with test control.\<close>

definition set_upload_at :: "json \<Rightarrow> server \<Rightarrow> server" where
  "set_upload_at v s =
     (case as_str (idx (idx v ''uploadAt'') ''id'') of
        None \<Rightarrow> s
      | Some i \<Rightarrow>
          (case room_at s i of
             None \<Rightarrow> s
           | Some r \<Rightarrow>
               (case r_upload r of
                  None \<Rightarrow> s
                | Some u \<Rightarrow>
                    put_room i (r\<lparr>r_upload := Some (u\<lparr>u_at :=
                      (case as_u64 (idx (idx v ''uploadAt'') ''at'') of Some t \<Rightarrow> t | None \<Rightarrow> 0)\<rparr>)\<rparr>) s)))"

definition set_job_retry :: "json \<Rightarrow> server \<Rightarrow> server outcome" where
  "set_job_retry v s =
     (let c = idx v ''jobRetry''; st = store s in
      case as_str (idx c ''id'') of
        None \<Rightarrow> Ret s
      | Some i \<Rightarrow>
          (case map_of (st_jobs st) i of
             None \<Rightarrow> Ret s
           | Some js \<Rightarrow>
               let n = (case as_u64 (idx c ''index'') of Some n \<Rightarrow> n | None \<Rightarrow> 0) in
               if n \<ge> length js then Ret s
               else (case field_mut (js ! n) ''retryAt'' (\<lambda>_. idx c ''at'') of
                   None \<Rightarrow> Panic
                 | Some j \<Rightarrow>
                     Ret (s\<lparr>store := st\<lparr>st_jobs := AList.update i (js[n := j]) (st_jobs st)\<rparr>\<rparr>))))"

definition set_options :: "json \<Rightarrow> server \<Rightarrow> server" where
  "set_options v s =
     (case as_object (idx v ''options'') of
        None \<Rightarrow> s
      | Some kvs \<Rightarrow> s\<lparr>config := fold (\<lambda>(k, w) c. setk k w c) kvs (config s)\<rparr>)"

definition control :: "externals \<Rightarrow> json \<Rightarrow> server \<Rightarrow> (json list \<times> server) outcome" where
  "control X v s =
     map_outcome (\<lambda>t. let t1 = set_options v t in
         (if getk v ''sync'' = None then []
          else [snapshot X t1, JObj [(''sync'', idx v ''sync'')]], t1))
       (set_job_retry v (set_upload_at v s))"

section \<open>The address of a binary frame\<close>

definition address_packet :: "externals \<Rightarrow> string option \<Rightarrow> bytes \<Rightarrow> bytes option" where
  "address_packet X target body =
     (case target of
        None \<Rightarrow> Some ([1] @ replicate 16 0 @ body)
      | Some i \<Rightarrow> map_option (\<lambda>a. [1] @ a @ body) (x_uuid_parse X i))"

section \<open>A control command keeps the books\<close>

lemma wf_put_kept_room:
  assumes wf: "wf_but (X, cf) {} s" and r: "room_at s i = Some r" and k: "keeps_room r r'"
  shows "wf_but (X, cf) {} (put_room i r' s)"
proof (rule wf_put_room [OF wf])
  show "books {} (player_of s) ((room_at s)(i \<mapsto> r')) (bound_to s)"
  proof (rule books_same_rooms [where R = "room_at s"])
    show "books {} (player_of s) (room_at s) (bound_to s)" using wf by (simp add: wf_but_def)
    show "rel_option (\<lambda>r s. r_active s = r_active r \<and> (entry_ok j r \<longrightarrow> entry_ok j s)) (room_at s j)
        (((room_at s)(i \<mapsto> r')) j)" for j
      using r k by (cases "room_at s j") (auto simp: keeps_room_def)
  qed
qed

lemma wf_set_upload_at:
  assumes wf: "wf_but (X, cf) {} s"
  shows "wf_but (X, cf) {} (set_upload_at v s)"
proof -
  have "wf_but (X, cf) {} (put_room i (r\<lparr>r_upload := Some (u\<lparr>u_at := t\<rparr>)\<rparr>) s)"
    if r: "room_at s i = Some r" and u: "r_upload r = Some u" for i r u t
  proof (rule wf_put_kept_room [OF wf r])
    have "entry_ok i r" using wf r books_room [of "{}" "player_of s" "room_at s" "bound_to s"]
      by (auto simp: wf_but_def)
    then have "uuid_text (u_id u)" using u by (simp add: entry_ok_def room_ok_def)
    then show "keeps_room r (r\<lparr>r_upload := Some (u\<lparr>u_at := t\<rparr>)\<rparr>)" by (intro keeps_room_upload) simp
  qed
  then show ?thesis using wf by (auto simp: set_upload_at_def split: option.split)
qed

lemma set_job_retry_same_books:
  assumes "sound_jobs (store s)"
  obtains t where "set_job_retry v s = Ret t" "same_books s t"
proof -
  let ?i = "idx (idx v ''jobRetry'') ''id''"
  show thesis
  proof (cases "\<exists>i js n. as_str ?i = Some i \<and> map_of (st_jobs (store s)) i = Some js \<and>
      n = (case as_u64 (idx (idx v ''jobRetry'') ''index'') of Some n \<Rightarrow> n | None \<Rightarrow> 0) \<and> n < length js")
    case False
    then have "set_job_retry v s = Ret s"
      by (auto simp: set_job_retry_def Let_def not_less split: option.split)
    then show thesis by (rule that) simp
  next
    case True
    then obtain i js n where i: "as_str ?i = Some i" "map_of (st_jobs (store s)) i = Some js"
      and n: "n = (case as_u64 (idx (idx v ''jobRetry'') ''index'') of Some n \<Rightarrow> n | None \<Rightarrow> 0)" "n < length js"
      by blast
    note js = sound_jobs_at [OF assms i(2)]
    then have "is_object (js ! n)" using n(2) by (simp add: list_all_length)
    then obtain j where j: "field_mut (js ! n) ''retryAt'' (\<lambda>_. idx (idx v ''jobRetry'') ''at'') = Some j" "is_object j"
      using field_mut_object by blast
    let ?t = "s\<lparr>store := store s\<lparr>st_jobs := AList.update i (js[n := j]) (st_jobs (store s))\<rparr>\<rparr>"
    have "list_all is_object (js[n := j])" using js j(2) by (rule list_all_update)
    then have "same_books s ?t"
      using sound_jobs_update [OF assms] by (intro same_books_store) simp
    moreover have "set_job_retry v s = Ret ?t"
      using i n j(1) by (simp add: set_job_retry_def Let_def)
    ultimately show thesis using that by blast
  qed
qed

text \<open>Only its options, which change the configuration, may do more than that.\<close>

lemma control_keeps_books:
  assumes wf: "wf_but (X, cf) {} s" and v: "as_object (idx v ''options'') = None"
  shows "after (\<lambda>(out, t). wf_but (X, cf) {} t) (control X v s)"
proof -
  have 1: "wf_but (X, cf) {} (set_upload_at v s)" by (rule wf_set_upload_at [OF wf])
  obtain t where t: "set_job_retry v (set_upload_at v s) = Ret t" "same_books (set_upload_at v s) t"
    by (rule set_job_retry_same_books [OF wf_sound [OF 1]])
  from wf_same_books [OF t(2) 1] show ?thesis using t(1) v by (simp add: control_def set_options_def Let_def)
qed

section \<open>Settings arrive\<close>

lemma split_on_plain: "c \<notin> set s \<Longrightarrow> split_on c s = [s]"
  by (induction s) auto

lemma split_on_cons: "c \<notin> set s \<Longrightarrow> split_on c (s @ c # t) = s # split_on c t"
  by (induction s) auto

lemma split_join:
  "\<forall>s \<in> set ss. CHR '','' \<notin> set s \<Longrightarrow> ss \<noteq> [] \<Longrightarrow> split_on (CHR '','') (Protocol.join ss) = ss"
  by (induction ss rule: Protocol.join.induct) (simp_all add: split_on_plain split_on_cons)

text \<open>A value an option may have for a setting with this default, so that it survives as text.\<close>

definition plain_option :: "externals \<Rightarrow> json \<Rightarrow> json \<Rightarrow> bool" where
  "plain_option X d v \<longleftrightarrow>
     (if is_boolean d then \<exists>b. v = JBool b \<and> x_display X v = (if b then ''true'' else ''false'')
      else if is_number d then \<exists>n. v = jnat n \<and> x_display X v = dec n
      else if as_array d \<noteq> None then
        \<exists>ss. v = jstrs ss \<and> (\<forall>s \<in> set ss. s \<noteq> [] \<and> CHR '','' \<notin> set s \<and> trimmed s = s)
      else \<exists>s. v = JStr s)"

lemma strings_in_jstrs: "strings_in (map JStr ss) = ss"
  by (induction ss) (simp_all add: strings_in_def List.map_filter_simps)

lemma digits_value_dec: "digits_value (dec n) = n"
  using decimal_dec [of n] by (simp add: digits_value_def decimal_def)

lemma read_option:
  assumes "plain_option X d v" "read_setting k d (option_text X v) = Some w"
  shows "w = v"
proof -
  consider "is_boolean d" | "\<not> is_boolean d" "is_number d" | "\<not> is_boolean d" "\<not> is_number d" "as_array d \<noteq> None"
    | "\<not> is_boolean d" "\<not> is_number d" "as_array d = None" by blast
  then show ?thesis
  proof cases
    case 1
    with assms show ?thesis by (auto simp: plain_option_def read_setting_def option_text_def split: if_split_asm)
  next
    case 2
    then obtain n where n: "v = jnat n" "x_display X v = dec n" using assms(1) by (auto simp: plain_option_def)
    have "option_text X v = dec n" using n by (simp add: option_text_def)
    with 2 n assms(2) show ?thesis
      by (auto simp: read_setting_def parse_uint_def digits_value_dec split: option.splits if_split_asm)
  next
    case 3
    then obtain ss where ss: "v = jstrs ss" "\<forall>s \<in> set ss. s \<noteq> [] \<and> CHR '','' \<notin> set s \<and> trimmed s = s"
      using assms(1) by (auto simp: plain_option_def)
    have "filter (\<lambda>t. t \<noteq> []) (map trimmed (split_on (CHR '','') (Protocol.join ss))) = ss"
    proof (cases "ss = []")
      case True
      then show ?thesis by (simp add: trimmed_def text_of_def chars_def trim_matches_def)
    next
      case False
      have "map trimmed ss = ss" using ss(2) by (simp add: map_idI)
      then show ?thesis using ss(2) False by (simp add: split_join)
    qed
    moreover have "option_text X v = Protocol.join ss"
      by (simp add: ss(1) option_text_def jstrs_def strings_in_jstrs)
    ultimately show ?thesis using 3 ss(1) assms(2) by (auto simp: read_setting_def)
  next
    case 4
    with assms show ?thesis by (auto simp: plain_option_def read_setting_def option_text_def)
  qed
qed

lemma names_of_settings: "list_all (\<lambda>(k, d). env_key k \<noteq> ''RELAY_TEST_CONTROL'') defaults"
  by code_simp

text \<open>An option given to the harness is the setting of the server it starts.\<close>

lemma settings_arrive:
  assumes load: "load_config (relay_env X inherited (JObj kvs) test_control) args = Some c"
    and k: "(k, d) \<in> set defaults" "k \<notin> fst ` set quota_names" "k \<notin> {''devMode'', ''sendDelayMs''}"
    and v: "distinct (map (env_key \<circ> fst) kvs)" "(k, v) \<in> set kvs" "plain_option X d v"
  shows "idx c k = v"
proof -
  let ?given = "map (\<lambda>(k, v). (env_key k, option_text X v)) kvs"
  have e: "map fst ?given = map (env_key \<circ> fst) kvs" by auto
  have "distinct (map fst ?given)" using v(1) by (simp only: e)
  then have "distinct (map fst (rev ?given))" by (simp only: rev_map [symmetric] distinct_rev)
  moreover have "(env_key k, option_text X v) \<in> set (rev ?given)" using v(2) by force
  ultimately have "map_of (rev ?given) (env_key k) = Some (option_text X v)" by (rule map_of_is_SomeI)
  moreover have "env_key k \<noteq> ''RELAY_TEST_CONTROL''" using names_of_settings k(1) by (auto simp: list_all_iff)
  ultimately have "relay_env X inherited (JObj kvs) test_control (env_key k) = Given (option_text X v)"
    by (simp add: relay_env_def map_add_Some_iff)
  with load_config_setting [OF load k] have "read_setting k d (option_text X v) = Some (idx c k)"
    by (simp add: setting_from_def)
  then show ?thesis by (rule read_option [OF v(3)])
qed

section \<open>A packet reaches its addressee\<close>

text \<open>
  The frame the tools address to a player is relayed to that player alone, with the sender's bytes in
  the place of the address; one without an address is relayed to all the others.
\<close>

lemma packet_addressed:
  assumes "address_packet X (Some i) body = Some b" "x_uuid_parse X i = Some a" "length a = 16"
    and "\<not> nil_address a" "uuid_bits b" "x_uuid_text X a = i" "body \<noteq> []"
    and "x_uuid_parse X p = Some sender" "length sender = 16"
  shows "addressed X p r b s = Ret (relay_bytes X p (Some i) r ([1] @ sender @ body) s)"
proof -
  have b: "b = [1] @ a @ body" using assms(1,2) by (simp add: address_packet_def)
  have "slice 1 17 b = a" using slice_middle [of 1 "[1]" 17 a body] assms(3) by (simp add: b)
  moreover have "splice 1 sender b = [1] @ sender @ body" using assms(3,9) by (simp add: b splice_def)
  ultimately show ?thesis
    using assms by (cases body) (auto simp: addressed_def Let_def b)
qed

lemma packet_to_all:
  assumes "address_packet X None body = Some b" "body \<noteq> []" "x_uuid_parse X p = Some sender" "length sender = 16"
  shows "addressed X p r b s = Ret (relay_bytes X p None r ([1] @ sender @ body) s)"
proof -
  have b: "b = [1] @ replicate 16 0 @ body" using assms(1) by (simp add: address_packet_def)
  have "slice 1 17 b = replicate 16 0" using slice_middle [of 1 "[1]" 17 "replicate 16 0" body] by (simp add: b)
  moreover have "splice 1 sender b = [1] @ sender @ body" using assms(4) by (simp add: b splice_def)
  moreover have "nil_address (replicate 16 0)" by (simp add: nil_address_def list_all_iff)
  ultimately show ?thesis
    using assms(2,3) by (cases body) (auto simp: addressed_def Let_def b)
qed

section \<open>What the tool keeps of the output\<close>

lemma observe_bounded:
  "observe X line ob = Some ob' \<Longrightarrow> length (ob_records ob) \<le> 10000 \<Longrightarrow> length (ob_records ob') \<le> 10000"
  by (auto simp: observe_def Let_def split: option.splits if_split_asm)

text \<open>A command is acknowledged: after its two lines the tool has its id, and the state of the server then.\<close>

lemma control_observed:
  assumes "control X v s = Ret (out, t)" "idx v ''sync'' = JStr i"
    and out: "\<And>w. w \<in> set out \<Longrightarrow> x_from_str X (x_display X w) = Some w"
  obtains o1 o2 where "out = [snapshot X t, JObj [(''sync'', JStr i)]]"
    "observe X (x_display X (out ! 0)) ob = Some o1" "observe X (x_display X (out ! 1)) o1 = Some o2"
    "ob_sync o2 = i" "ob_snapshot o2 = snapshot X t"
proof -
  have "getk v ''sync'' \<noteq> None" using assms(2) by (cases "getk v ''sync''") (simp_all add: idx_def)
  then have o: "out = [snapshot X t, JObj [(''sync'', JStr i)]]"
    using assms(1,2) by (auto simp: control_def Let_def map_outcome_Ret)
  let ?o1 = "ob\<lparr>ob_snapshot := snapshot X t\<rparr>"
  have 1: "observe X (x_display X (out ! 0)) ob = Some ?o1"
    using out by (simp add: o observe_def snapshot_def Let_def idx_def)
  have 2: "\<exists>o2. observe X (x_display X (out ! 1)) ?o1 = Some o2 \<and> ob_sync o2 = i \<and> ob_snapshot o2 = snapshot X t"
    using out by (simp add: o observe_def Let_def idx_def)
  from 2 that [OF o 1] show thesis by blast
qed

end
