(* ===== verification/Launch.thy ===== *)
theory Launch
  imports Process Startup Harness
begin

text \<open>
  How the process starts (\<open>run\<close> and \<open>main\<close> in \<open>rust/main.rs\<close>, \<open>Sender::new\<close> in \<open>rust/push.rs\<close>): settings,
  telemetry, the datagram socket, the server, the push sender, the listener. What the operating system
  and the clients of other services answer is the record \<open>network\<close>; an error of any of them ends the
  start.
\<close>

section \<open>What is outside\<close>

text \<open>
  Ports are \<open>u16\<close>. \<open>nw_project\<close> is the provider of access tokens: \<^const>\<open>None\<close> when there is none,
  \<open>Some None\<close> when it knows no project.
\<close>

record network =
  nw_udp_bind :: "string \<Rightarrow> 16 word \<Rightarrow> bool"
  nw_udp_recv_buffer :: "nat \<Rightarrow> bool"
  nw_udp_send_buffer :: "nat \<Rightarrow> bool"
  nw_udp_port :: "16 word option"
  nw_listen :: "string \<Rightarrow> 16 word \<Rightarrow> bool"
  nw_address :: "(string \<times> 16 word) option"
  nw_url :: "string \<Rightarrow> url option"
  nw_telemetry_client :: bool
  nw_push_client :: bool
  nw_project :: "string option option"

section \<open>The push sender\<close>

record push_sender =
  sd_access :: bool
  sd_url :: string

definition push_project :: "env \<Rightarrow> string option \<Rightarrow> string option" where
  "push_project env known =
     (case env ''GOOGLE_CLOUD_PROJECT'' of
        Given p \<Rightarrow> Some p
      | _ \<Rightarrow> (case env ''GCLOUD_PROJECT'' of Given p \<Rightarrow> Some p | _ \<Rightarrow> known))"

definition fcm_url :: "string \<Rightarrow> string" where
  "fcm_url project = ''https://fcm.googleapis.com/v1/projects/'' @ project @ ''/messages:send''"

definition sender_new :: "network \<Rightarrow> env \<Rightarrow> push_sender option" where
  "sender_new nw env =
     (if \<not> nw_push_client nw then None
      else case (if env ''RELAY_TEST_CONTROL'' \<noteq> Unset then env ''RELAY_TEST_PUSH_URL'' else Unset) of
          Given url \<Rightarrow> Some \<lparr>sd_access = False, sd_url = url\<rparr>
        | _ \<Rightarrow>
            (case nw_project nw of
               None \<Rightarrow> None
             | Some known \<Rightarrow>
                 (case push_project env known of
                    None \<Rightarrow> None
                  | Some p \<Rightarrow>
                      if \<not> list_all (\<lambda>c. is_alnum c \<or> c = CHR ''-'') p then None
                      else Some \<lparr>sd_access = True, sd_url = fcm_url p\<rparr>)))"

section \<open>Sockets and the server\<close>

text \<open>The datagram socket is bound, and its buffers set, before the server is built.\<close>

definition udp_ready :: "network \<Rightarrow> config \<Rightarrow> bool" where
  "udp_ready nw cf \<longleftrightarrow>
     cfg_b cf ''udpEnabled'' \<longrightarrow>
       nw_udp_bind nw (cfg_s cf ''udpHost'') (of_nat (cfg_n cf ''udpPort'')) \<and>
       nw_udp_recv_buffer nw (cfg_n cf ''udpReceiveBufferBytes'') \<and>
       nw_udp_send_buffer nw (cfg_n cf ''udpSendBufferBytes'')"

text \<open>The server tells clients the port the socket has, not the one that was asked for.\<close>

definition bound_port :: "network \<Rightarrow> config \<Rightarrow> server \<Rightarrow> server option" where
  "bound_port nw cf s =
     (if \<not> cfg_b cf ''udpEnabled'' then Some s
      else map_option (\<lambda>p. s\<lparr>config := setk ''udpPort'' (jnat (unat p)) (config s)\<rparr>) (nw_udp_port nw))"

definition listening_line :: "string \<times> 16 word \<Rightarrow> json" where
  "listening_line a =
     JObj [(''event'', JStr ''server.listening''),
       (''address'', JObj [(''address'', JStr (fst a)), (''port'', jnat (unat (snd a)))])]"

definition announced :: "externals \<Rightarrow> string \<times> 16 word \<Rightarrow> server \<Rightarrow> server" where
  "announced X a s =
     emit X ''server.listening''
       (JObj [(''address'', JObj [(''address'', JStr (fst a)), (''port'', jnat (unat (snd a)))])])
       (emit X ''server started'' (JObj []) s)"

record started =
  sr_config :: config
  sr_server :: server
  sr_sender :: "push_sender option"
  sr_telemetry :: "(collector \<times> telemetry) option"
  sr_printed :: "json list"

text \<open>
  The start of \<open>run\<close>, up to its tasks. The tasks and the listener go by the configuration that was
  loaded; the server's own has the port of the datagram socket.
\<close>

definition starts :: "externals \<Rightarrow> network \<Rightarrow> string \<Rightarrow> env \<Rightarrow> string list \<Rightarrow> (fname, bytes) imap \<Rightarrow> world \<Rightarrow>
    started option" where
  "starts X nw platform env args files w =
     Option.bind (load_config env args) (\<lambda>cf.
     case telemetry_new (nw_url nw) (nw_telemetry_client nw) platform env w of
       (None, w1) \<Rightarrow> None
     | (Some tel, w1) \<Rightarrow>
         if \<not> udp_ready nw cf then None
         else
           Option.bind (server_new X env cf files w1) (\<lambda>s.
           Option.bind (bound_port nw cf s) (\<lambda>s1.
           Option.bind (if push s1 then map_option Some (sender_new nw env) else Some None) (\<lambda>sd.
           if \<not> nw_listen nw (cfg_s cf ''host'') (of_nat (cfg_n cf ''port'')) then None
           else map_option (\<lambda>a.
             \<lparr>sr_config = cf, sr_server = announced X a s1, sr_sender = sd, sr_telemetry = tel,
              sr_printed = (if env ''RELAY_TEST_CONTROL'' \<noteq> Unset \<or> \<not> cfg_b cf ''verboseLogs''
                            then [listening_line a] else [])\<rparr>) (nw_address nw)))))"

section \<open>The end of the process\<close>

text \<open>\<open>str::parse\<close> to a \<open>usize\<close> takes a plus sign.\<close>

definition worker_threads :: "env \<Rightarrow> nat" where
  "worker_threads env =
     (case (case env ''TOKIO_WORKER_THREADS'' of
              Given (c # s) \<Rightarrow> if c = CHR ''+'' then parse_uint 64 s else parse_uint 64 (c # s)
            | _ \<Rightarrow> None) of
        Some n \<Rightarrow> if n > 0 then n else 1
      | None \<Rightarrow> 1)"

definition failure_name :: "bool \<Rightarrow> string" where
  "failure_name listening = (if listening then ''server.shutdown_failed'' else ''server.start_failed'')"

text \<open>
  \<open>report_error\<close>: the telemetry is built anew and sends the one error; what is sent is the batch.
\<close>

definition report_error :: "externals \<Rightarrow> network \<Rightarrow> string \<Rightarrow> env \<Rightarrow> (json list \<Rightarrow> answer) \<Rightarrow> string \<Rightarrow> world \<Rightarrow>
    json list option" where
  "report_error X nw platform env collector name w =
     (case telemetry_new (nw_url nw) (nw_telemetry_client nw) platform env w of
        (Some (Some (cl, tm)), w1) \<Rightarrow> fst (flush X True collector (capture X name (tm, w1)))
      | _ \<Rightarrow> None)"

section \<open>A server that has started\<close>

lemma port_bound: "unat (p :: 16 word) < 65536"
proof -
  have "unat p < 2 ^ LENGTH(16)" by (rule unsigned_less)
  then show ?thesis by simp
qed

lemma server_wf_empty:
  assumes "players s = []" "rooms s = []" "connections s = []" "delayed s = []" "sound_jobs (store s)"
  shows "server_wf X s"
  using assms by (simp add: server_wf_def wf_but_def books_def members_agree_def)

lemma server_new_empty:
  assumes "server_new X env cf files w = Some s"
  shows "players s = []" "rooms s = []" "connections s = []" "delayed s = []" "sound_jobs (store s)"
    "push s \<longleftrightarrow> env ''FCM_ENABLED'' = Given ''true''" "config s = cf"
  using assms by (auto simp: server_new_def store_new_sound split: option.splits prod.splits)

lemma bound_port_fields:
  assumes "bound_port nw cf s = Some t" "config s = cf"
  shows "players t = players s" "rooms t = rooms s" "connections t = connections s"
    "delayed t = delayed s" "store t = store s" "push t = push s" "diagnostics t = diagnostics s"
    "config t = cf \<or> (\<exists>p :: 16 word. config t = setk ''udpPort'' (jnat (unat p)) cf)"
  using assms by (auto simp: bound_port_def split: if_split_asm)

lemma bound_port_typed:
  assumes "bound_port nw cf s = Some t" "config s = cf" "config_typed cf"
  shows "config_typed (config t)"
  using bound_port_fields(8) [OF assms(1,2)]
proof
  assume "\<exists>p :: 16 word. config t = setk ''udpPort'' (jnat (unat p)) cf"
  then obtain p :: "16 word" where p: "config t = setk ''udpPort'' (jnat (unat p)) cf" by blast
  have "unat p \<le> 65535" using port_bound [of p] by simp
  then show ?thesis unfolding p
    by (intro config_typed_setk [OF assms(3)]) (auto simp: defaults_def setting_max_def may_be_zero_def)
qed (use assms(3) in simp)

lemma quiet_announced: "quiet s (announced X a s)"
  by (simp add: announced_def quiet_trans [OF quiet_emit quiet_emit])

lemma starts_cases:
  assumes "starts X nw platform env args files w = Some r"
  obtains s s1 w1 a where "load_config env args = Some (sr_config r)"
    "telemetry_new (nw_url nw) (nw_telemetry_client nw) platform env w = (Some (sr_telemetry r), w1)"
    "udp_ready nw (sr_config r)" "server_new X env (sr_config r) files w1 = Some s"
    "bound_port nw (sr_config r) s = Some s1" "sr_server r = announced X a s1"
    "if push s1 then sender_new nw env = sr_sender r \<and> sr_sender r \<noteq> None else sr_sender r = None"
    "nw_listen nw (cfg_s (sr_config r) ''host'') (of_nat (cfg_n (sr_config r) ''port''))"
    "nw_address nw = Some a"
    "sr_printed r = (if env ''RELAY_TEST_CONTROL'' \<noteq> Unset \<or> \<not> cfg_b (sr_config r) ''verboseLogs''
       then [listening_line a] else [])"
proof -
  obtain cf where 1: "load_config env args = Some cf"
    using assms by (auto simp: starts_def bind_eq_Some_conv)
  obtain tel w1 where 2: "telemetry_new (nw_url nw) (nw_telemetry_client nw) platform env w = (Some tel, w1)"
    and 3: "udp_ready nw cf"
    using assms 1 by (auto simp: starts_def split: prod.splits option.splits if_split_asm)
  obtain s where 4: "server_new X env cf files w1 = Some s"
    using assms 1 2 3 by (auto simp: starts_def bind_eq_Some_conv)
  obtain s1 where 5: "bound_port nw cf s = Some s1"
    using assms 1 2 3 4 by (auto simp: starts_def bind_eq_Some_conv)
  obtain sd where 6: "(if push s1 then map_option Some (sender_new nw env) else Some None) = Some sd"
    using assms 1 2 3 4 5 by (auto simp: starts_def bind_eq_Some_conv)
  obtain a where 7: "nw_listen nw (cfg_s cf ''host'') (of_nat (cfg_n cf ''port''))" "nw_address nw = Some a"
    using assms 1 2 3 4 5 6 by (auto simp: starts_def split: if_split_asm)
  have r: "r = \<lparr>sr_config = cf, sr_server = announced X a s1, sr_sender = sd, sr_telemetry = tel,
      sr_printed = (if env ''RELAY_TEST_CONTROL'' \<noteq> Unset \<or> \<not> cfg_b cf ''verboseLogs''
                    then [listening_line a] else [])\<rparr>"
    using assms 1 2 3 4 5 6 7 by (simp add: starts_def)
  have sd: "if push s1 then sender_new nw env = sd \<and> sd \<noteq> None else sd = None"
    using 6 by (auto split: if_split_asm)
  show thesis
    by (rule that [of w1 s s1 a]) (use 1 2 3 4 5 7 sd in \<open>simp_all only: r started.simps\<close>)
qed

lemma starts_ok:
  assumes "starts X nw platform env args files w = Some r"
  shows "server_wf X (sr_server r)" "connections (sr_server r) = []" "config_typed (config (sr_server r))"
    "push (sr_server r) \<longleftrightarrow> env ''FCM_ENABLED'' = Given ''true''" "push (sr_server r) \<longleftrightarrow> sr_sender r \<noteq> None"
    "load_config env args = Some (sr_config r)"
proof -
  obtain s s1 w1 a where c: "load_config env args = Some (sr_config r)"
    and n: "server_new X env (sr_config r) files w1 = Some s"
    and b: "bound_port nw (sr_config r) s = Some s1" and r: "sr_server r = announced X a s1"
    and sd: "if push s1 then sender_new nw env = sr_sender r \<and> sr_sender r \<noteq> None else sr_sender r = None"
    by (rule starts_cases [OF assms])
  note q = quiet_frame [OF quiet_announced [of s1 X a], folded r]
  note e = server_new_empty [OF n]
  note f = bound_port_fields [OF b e(7)]
  have k: "connections (sr_server r) = connections s1" by (simp add: r announced_def)
  show "server_wf X (sr_server r)"
    by (rule server_wf_empty) (simp_all only: k q f e)
  show "connections (sr_server r) = []" by (simp only: k f e)
  show "config_typed (config (sr_server r))"
    using bound_port_typed [OF b e(7) load_config_ok(1) [OF c]] by (simp only: q)
  show "push (sr_server r) \<longleftrightarrow> env ''FCM_ENABLED'' = Given ''true''" by (simp only: q f e)
  show "push (sr_server r) \<longleftrightarrow> sr_sender r \<noteq> None" using sd by (simp only: q) (simp split: if_split_asm)
  show "load_config env args = Some (sr_config r)" by (rule c)
qed

section \<open>Notices go to the push service\<close>

text \<open>
  Outside of tests a sender has a provider of tokens, and its address is that of the service, with a
  project that is one segment of the path.
\<close>

lemma sender_new_ok:
  assumes "sender_new nw env = Some sd" "env ''RELAY_TEST_CONTROL'' = Unset"
  obtains p where "sd = \<lparr>sd_access = True, sd_url = fcm_url p\<rparr>" "list_all (\<lambda>c. is_alnum c \<or> c = CHR ''-'') p"
    "nw_project nw \<noteq> None"
  using assms by (auto simp: sender_new_def split: option.splits if_splits)

lemma fcm_url_segment:
  assumes "list_all (\<lambda>c. is_alnum c \<or> c = CHR ''-'') p"
  shows "filter (\<lambda>c. c \<in> set ''/?#@'') (fcm_url p) = filter (\<lambda>c. c \<in> set ''/?#@'') (fcm_url [])"
proof -
  have "filter (\<lambda>c. c \<in> set ''/?#@'') p = []"
    using assms by (auto simp: filter_empty_conv list_all_iff is_alnum_def is_digit_def is_lower_def is_upper_def in_range_def)
  then show ?thesis by (simp add: fcm_url_def)
qed

section \<open>The tool finds the port\<close>

lemma announced_to_tool:
  assumes "x_from_str X (x_display X (listening_line a)) = Some (listening_line a)"
  obtains ob' where "observe X (x_display X (listening_line a)) ob = Some ob'" "ob_port ob' = unat (snd a)"
proof -
  note u = port_bound [of "snd a"]
  show thesis
    by (rule that [of "the (observe X (x_display X (listening_line a)) ob)"])
      (use assms u in \<open>auto simp: observe_def listening_line_def Let_def idx_def\<close>)
qed

text \<open>With test control the line is always printed, so the harness gets the port of the server it started.\<close>

lemma tool_finds_port:
  assumes "starts X nw platform (relay_env X inherited options True) args files w = Some r"
    and "\<And>v. x_from_str X (x_display X v) = Some v"
  obtains a ob' where "nw_address nw = Some a" "sr_printed r = [listening_line a]"
    "observe X (x_display X (hd (sr_printed r))) ob = Some ob'" "ob_port ob' = unat (snd a)"
proof -
  have "map_of harness_settings ''RELAY_TEST_CONTROL'' = Some ''1''" by code_simp
  then have c: "relay_env X inherited options True ''RELAY_TEST_CONTROL'' \<noteq> Unset"
    by (auto simp: relay_env_def Let_def map_add_def split: option.split)
  obtain a where a: "nw_address nw = Some a" "sr_printed r = [listening_line a]"
    by (rule starts_cases [OF assms(1)]) (use c in auto)
  obtain ob' where "observe X (x_display X (listening_line a)) ob = Some ob'" "ob_port ob' = unat (snd a)"
    by (rule announced_to_tool [OF assms(2)])
  then show thesis by (intro that [OF a]) (simp_all add: a)
qed

lemma worker_threads_positive: "worker_threads env > 0"
  by (simp add: worker_threads_def split: option.split setting.split list.split)

section \<open>What is told of a failure\<close>

lemma capture_fresh:
  assumes "capture X name (tm, w) = (tm', w')" "tm_queue tm = []"
  shows "tm_queue tm' = [] \<or> (\<exists>v. tm_queue tm' = [as_error name v])"
proof -
  obtain tm1 w1 where e: "enqueue X name (JObj []) (tm, w) = (tm1, w1)" by fastforce
  have "length (tm_queue tm1) \<le> 1"
    using e assms(2) by (auto simp: enqueue_def Let_def split: prod.splits if_splits)
  then consider "tm_queue tm1 = []" | v where "tm_queue tm1 = [v]" by (cases "tm_queue tm1") auto
  then show ?thesis using assms(1) by cases (auto simp: capture_def e)
qed

text \<open>At most one event, and nothing where telemetry is off.\<close>

lemma report_one:
  assumes "report_error X nw platform env collector name w = Some batch"
  shows "length batch \<le> 1" "env ''TELEMETRY_ENABLED'' \<noteq> Given ''false''"
proof -
  obtain cl tm w1 where t: "telemetry_new (nw_url nw) (nw_telemetry_client nw) platform env w = (Some (Some (cl, tm)), w1)"
    and f: "fst (flush X True collector (capture X name (tm, w1))) = Some batch"
    using assms by (auto simp: report_error_def split: prod.splits option.splits)
  have q: "tm_queue tm = []"
    using t unfolding telemetry_new_def Let_def by (auto split: if_split_asm option.split_asm prod.split_asm)
  obtain tm' w' where c: "capture X name (tm, w1) = (tm', w')" by fastforce
  have "length (tm_queue tm') \<le> 1" using capture_fresh [OF c q] by auto
  moreover obtain rest where "fill X (tm_queue tm') 0 128 = (batch, rest)"
    using f by (auto simp: c flush_def Let_def split: prod.splits if_splits)
  ultimately show "length batch \<le> 1" using fill_ok(1) by (metis length_append le_add1 order_trans)
  show "env ''TELEMETRY_ENABLED'' \<noteq> Given ''false''" by (rule telemetry_new_ok(10) [OF t])
qed

end
