(* ===== verification/Notices.thy ===== *)
theory Notices
  imports Scenes Push Logger Launch
begin

text \<open>
  Concrete passes of the push sender: one player with one device, one job of the room. They show
  that the theorems about a pass apply to something, and what a pass does with a player a job names
  twice. Then a login that breaks the books, a run of the process, and the server a tool starts.
\<close>

definition device0 :: json where
  "device0 = JObj [(''token'', JStr ''token''), (''foreground'', JBool False), (''language'', JStr ''en'')]"

definition job_to :: "string list \<Rightarrow> json" where
  "job_to ids = JObj [(''eventId'', JStr ''event''), (''at'', jnat 1), (''to'', jstrs ids),
     (''title'', JStr ''title''), (''body'', JStr ''body''), (''done'', JArr []), (''retryAt'', jnat 0),
     (''scheduled'', JBool False)]"

definition server6 :: "string list \<Rightarrow> server" where
  "server6 ids = server1\<lparr>
     players := [(ID_A, (player0 ID_A 1)\<lparr>p_devices := [(ID_N, device0)]\<rparr>), (ID_B, player0 ID_B 2)],
     store := store0\<lparr>st_jobs := [(ID_R, [job_to ids])]\<rparr>\<rparr>"

definition pass0 :: "string list \<Rightarrow> pass" where
  "pass0 ids = \<lparr>ps_rest = [], ps_room = ID_R, ps_job = job_to ids, ps_failed = False,
     ps_targets = map JStr ids\<rparr>"

lemma sound_server6: "sound_jobs (store (server6 ids))"
  by (simp add: server6_def sound_jobs_def store0_def job_to_def is_object_def)

lemma wf_server6: "wf_but (X0, config0, UNIV) {} (server6 ids)"
proof -
  let ?q = "(player0 ID_A 1)\<lparr>p_devices := [(ID_N, device0)]\<rparr>"
  have 1: "wf_but (X0, config0, UNIV) {} server1"
    using wf_server1 by (simp add: server_wf_def server1_def server0_def)
  have "wf_but (X0, config0, UNIV) {} (put_player ID_A ?q server1)"
    by (rule wf_put_player [OF 1, of ID_A "player0 ID_A 1"])
      (simp_all add: server1_def devices_ok_def device0_def is_string_def)
  moreover have "server6 ids =
      (put_player ID_A ?q server1)\<lparr>store := store0\<lparr>st_jobs := [(ID_R, [job_to ids])]\<rparr>\<rparr>"
    by (simp add: server6_def server1_def)
  ultimately show ?thesis
    using wf_same_books [OF same_books_store] sound_server6 [of ids] by (simp add: server6_def)
qed

text \<open>What the push service answers when it takes a notice.\<close>

definition taken :: response where
  "taken = Some (True, JNull)"

abbreviation walk :: "string list \<Rightarrow> nat \<Rightarrow> push_task" where
  "walk ids n \<equiv> fst (alone X0 taken (NextPlayer (pass0 ids), server6 ids) n)"

lemma walk_run: "task_run X0 (walk ids)"
  by (rule alone_run [of _ "(config0, UNIV)"]) (simp add: wf_server6)

lemma walk_posts: "posting_to (walk [ID_A] 2) = Some (ID_A, ID_N)"
  by code_simp

lemma walk_in_job: "\<forall>k \<in> {0, 1, 2, 3, 4}. in_job (walk [ID_A] k)"
  by code_simp

text \<open>
  A notice may name a player twice (\<open>ids_ok\<close> is called without asking for distinct names), and the
  receipts a pass looks at are those of its copy of the job, so the same device is posted to twice.
\<close>

lemma named_twice:
  "notice (job_to [ID_A, ID_A])"
  "posting_to (walk [ID_A, ID_A] 2) = Some (ID_A, ID_N)"
  "posting_to (walk [ID_A, ID_A] 7) = Some (ID_A, ID_N)"
  by code_simp+

text \<open>The pass of one job to its end.\<close>

lemma pass_ends: "walk [ID_A] 7 = Waiting"
  by code_simp

section \<open>The store, the log and the telemetry\<close>

text \<open>A store with one notice of one room, in memory and on disk.\<close>

definition store2 :: store where
  "store2 = \<lparr>st_enabled = True, st_max = 10, st_jobs = [(ID_R, [job_to [ID_A]])],
     st_files = [((''notifications'', ID_R @ ''.json''), [1])]\<rparr>"

lemma store2_synced: "jobs_synced (codec (JArr [job_to [ID_A]])) store2"
  by (simp add: jobs_synced_def store2_def codec_def uuid_sample lower_sample)

lemma store2_small: "room_bytes (st_files store2) \<le> 10"
  by code_simp

lemma job_to_ok: "list_all job_ok [job_to [ID_A]]"
  by code_simp

lemma store2_codec:
  "\<forall>js \<in> ran (map_of (st_jobs store2)).
     x_from_slice (codec (JArr [job_to [ID_A]])) (x_to_vec (codec (JArr [job_to [ID_A]])) (JArr js)) =
       Some (JArr js) \<and> list_all job_ok js"
  using job_to_ok by (simp add: store2_def codec_def)

lemma store2_only:
  "\<forall>i. jobs_at (codec (JArr [job_to [ID_A]])) (st_files store2) i \<noteq> None \<longrightarrow>
     map_of (st_jobs store2) i \<noteq> None"
  by (auto simp: jobs_at_def store2_def split: if_split_asm)

definition logger0 :: logger where
  "logger0 = \<lparr>lg_max = 100, lg_file_max = 50, lg_files = [], lg_total = 0, lg_seq = 0, lg_file = None\<rparr>"

definition telemetry0 :: telemetry where
  "telemetry0 = \<lparr>tm_release = ''1'', tm_platform = ''rust-linux'', tm_session = ID_N, tm_queue = [],
     tm_dropped = 0, tm_failures = 0, tm_next = 0, tm_started = 0, tm_window = 0\<rparr>"

section \<open>The name of an account in capitals\<close>

text \<open>
  The names of files do not depend on the case of an id, the keys of the players do. So a second
  connection that logs in with the id of a player in a room, written in capitals, reads the account
  from disk and puts it in the place of the player's record: the room still lists the player, the
  record no longer names the room, and the first connection stays bound beside the second.
\<close>

definition codec_account :: externals where
  "codec_account = X0\<lparr>x_from_slice := (\<lambda>b. Some (JObj [(''id'', JStr ID_A), (''name'', JStr ''name''),
     (''password'', JStr ''secret''), (''devices'', JArr [])]))\<rparr>"

definition server7 :: server where
  "server7 = server1\<lparr>connections := (3, conn0 None) # connections server1,
     store := store0\<lparr>st_files := [((''accounts'', ID_A @ ''.json''), [2])]\<rparr>\<rparr>"

definition login_capitals :: json where
  "login_capitals = JObj [(''playerId'', JStr ''AAAAAAAA-0000-4000-8000-000000000001''),
     (''password'', JStr ''secret'')]"

lemma capitals_replace_the_player:
  "holds (\<lambda>t. bound_to t 1 = Some (Some ID_A) \<and> bound_to t 3 = Some (Some ID_A) \<and>
     map_option p_room (player_of t ID_A) = Some None \<and>
     map_option r_active (room_at t ID_R) = Some [ID_A, ID_B])
   (auth codec_account 3 login_capitals server7)"
  by code_simp

section \<open>A connection of the process\<close>

definition server8 :: server where
  "server8 = server0\<lparr>connections := []\<rparr>"

lemma wf_server8: "server_wf X0 server8" "connections server8 = []"
  by (simp_all add: server_wf_def wf_but_def server8_def server0_def books_def members_agree_def sound_store0)

text \<open>A client is accepted, its handshake is done, and the worker opens its connection.\<close>

lemma run_server8:
  obtains p where "process_run X0 config0 (launched server8) p" "length (connections (pr_server p)) = 1"
proof -
  let ?ip = "''127.0.0.1''" and ?p0 = "launched server8"
  obtain adm where "acquire config0 0 ?ip (pr_admission ?p0) = (True, adm)"
  proof -
    have "fst (acquire config0 0 ?ip admission_default)" by code_simp
    then show thesis using that by (cases "acquire config0 0 ?ip admission_default") (auto simp: launched_def)
  qed
  then have 1: "process_run X0 config0 ?p0 (taken_on ?ip adm ?p0)"
    by (intro process_next [OF process_start] accept)
  let ?k = "\<lparr>ct_number = 1, ct_address = ?ip, ct_open = False\<rparr>"
  have "process_run X0 config0 ?p0 (opens ?k (taken_on ?ip adm ?p0))"
    by (rule process_next [OF 1 shake]) (simp_all add: taken_on_def launched_def Let_def)
  then have "process_run X0 config0 ?p0 (opens ?k (taken_on ?ip adm ?p0)
      \<lparr>pr_server := connected X0 1 (pr_server (opens ?k (taken_on ?ip adm ?p0))), pr_channel := []\<rparr>)"
    by (rule process_next [OF _ open_one]) (simp add: opens_def taken_on_def launched_def Let_def)
  then show thesis
    by (rule that) (simp add: opens_def taken_on_def launched_def Let_def connected_def server8_def
        server0_def clock_def split: prod.split)
qed

section \<open>The server a tool starts\<close>

definition network0 :: network where
  "network0 = \<lparr>nw_udp_bind = (\<lambda>_ _. True), nw_udp_recv_buffer = (\<lambda>_. True), nw_udp_send_buffer = (\<lambda>_. True),
     nw_udp_port = Some 9001, nw_listen = (\<lambda>_ _. True), nw_address = Some (''127.0.0.1'', 9000),
     nw_url = (\<lambda>_. None), nw_telemetry_client = True, nw_push_client = True, nw_project = None\<rparr>"

definition harness_env :: env where
  "harness_env name = (case map_of harness_settings name of Some s \<Rightarrow> Given s | None \<Rightarrow> Unset)"

lemma harness_env: "relay_env X (\<lambda>_. Unset) (JObj []) True = harness_env"
  by (rule ext) (simp add: relay_env_def harness_env_def)

lemma harness_config: "load_config harness_env [] \<noteq> None"
  "map_option (\<lambda>c. cfg_s c ''sessionDirectory'') (load_config harness_env []) = Some ''''"
  by code_simp+

lemma harness_starts:
  obtains r where "starts X0 network0 ''rust-linux'' (relay_env X0 (\<lambda>_. Unset) (JObj []) True) [] [] W0 = Some r"
proof -
  obtain c where c: "load_config harness_env [] = Some c" "cfg_s c ''sessionDirectory'' = ''''"
    using harness_config by auto
  have t: "harness_env ''TELEMETRY_ENABLED'' = Given ''false''" "harness_env ''FCM_ENABLED'' = Given ''false''"
    by code_simp+
  have "starts X0 network0 ''rust-linux'' harness_env [] [] W0 \<noteq> None"
    using c t by (simp add: starts_def telemetry_new_def udp_ready_def network0_def server_new_def store_new_def
        bound_port_def Let_def)
  then show thesis using that by (auto simp: harness_env)
qed

end
