(* ===== verification/Entry.thy ===== *)
theory Entry
  imports Lifecycle
begin

text \<open>
  What entering, leaving and logging in do to a room and an account: the election of the next
  owner, the conditions of entry, and the password of a login.
\<close>

section \<open>The next owner\<close>

lemma depart_generation [simp]:
  "r_generation (depart p d r) = r_generation r" "host_lost p (depart p d r) = host_lost p r"
  by (simp_all add: depart_def host_lost_def)

lemma hand_over_elects:
  assumes "hand_over X p r s = Some (r', t)"
  shows "r_id r' = r_id r" "r_active r' = r_active r" "r_players r' = r_players r"
    "r_owner r = p \<Longrightarrow> r_owner r' = hd (r_active r) \<and> r_generation r' = r_generation r + 1"
    "r_owner r \<noteq> p \<Longrightarrow> r' = r"
  using assms by (auto simp: hand_over_def Let_def split: if_splits list.splits)

lemma leave_room_elects:
  assumes "leave_room X p d r s = Ret t" "\<not> host_lost p r" "removeAll p (r_active r) \<noteq> []"
  obtains r' where "room_at t (r_id r) = Some r'" "r_active r' = removeAll p (r_active r)"
    "r_owner r = p \<Longrightarrow> r_owner r' = hd (r_active r') \<and> r_generation r' = r_generation r + 1"
    "r_owner r \<noteq> p \<Longrightarrow> r_owner r' = r_owner r \<and> r_generation r' = r_generation r"
proof -
  from assms obtain w r3 s4 where h: "hand_over X p (depart p d r) w = Some (r3, s4)"
    and t: "t = put_room (r_id r3) r3 (announce_roster X r3 s4)"
    by (auto simp: leave_room_def Let_def split: if_splits option.splits)
  note e = hand_over_elects [OF h]
  show thesis
    by (rule that [of r3]) (use e t in \<open>auto simp: update_conv'\<close>)
qed

lemma leave_elects:
  assumes "leave X p d s = Ret t" "player_of s p = Some pl" "p_room pl = Some i"
    and "room_at s i = Some r" "r_id r = i" "\<not> host_lost p r" "removeAll p (r_active r) \<noteq> []"
  obtains r' where "room_at t i = Some r'" "r_active r' = removeAll p (r_active r)"
    "r_owner r = p \<Longrightarrow> r_owner r' = hd (r_active r') \<and> r_generation r' = r_generation r + 1"
    "r_owner r \<noteq> p \<Longrightarrow> r_owner r' = r_owner r \<and> r_generation r' = r_generation r"
proof -
  from assms(1-4) obtain q w where q: "leave_room X p d q w = Ret t"
    "q = r \<or> q = r\<lparr>r_reservations := removeAll p (r_reservations r)\<rparr>"
    by (auto simp: leave_def unreserve_def Let_def split: if_splits)
  then have f: "r_active q = r_active r" "r_owner q = r_owner r" "r_generation q = r_generation r"
    "r_id q = i" "host_lost p q = host_lost p r"
    using assms(5) by (auto simp: host_lost_def)
  obtain r' where "room_at t (r_id q) = Some r'" "r_active r' = removeAll p (r_active q)"
    "r_owner q = p \<Longrightarrow> r_owner r' = hd (r_active r') \<and> r_generation r' = r_generation q + 1"
    "r_owner q \<noteq> p \<Longrightarrow> r_owner r' = r_owner q \<and> r_generation r' = r_generation q"
    by (rule leave_room_elects [OF q(1)]) (use f assms in auto)
  with f show thesis by (intro that) auto
qed

section \<open>Entering\<close>

text \<open>Nobody gets into a room that does not admit them.\<close>

lemma admit_player:
  assumes "admit X p i r s = Ret t" "player_of s p = Some pl" "p_room pl = None"
  shows "\<exists>ql. player_of t p = Some ql \<and> p_room ql = Some i"
  using assms by (auto simp: admit_def Let_def update_conv' split: option.splits prod.splits)

lemma refuse_players [simp]: "players (refuse X p i r e s) = players s"
  by (simp add: refuse_def Let_def)

lemma enter_admits:
  assumes "enter X p i pw s = Ret t" "player_of s p = Some pl" "p_room pl = None"
    and "player_of t p = Some ql" "p_room ql = Some j"
  obtains r where "entry_error p pw r = None" "j = i"
    "room_at s i = Some r \<or> (\<exists>w. fst (load X i True (store s, w)) = Some (Some r))"
proof -
  obtain loaded w where l: "(if room_at s i \<noteq> None then (Some None, world s)
      else load X i True (store s, world s)) = (loaded, w)" by fastforce
  show thesis
  proof (cases "\<exists>found r. loaded = Some found \<and>
      room_at (case found of None \<Rightarrow> s\<lparr>world := w\<rparr> | Some r \<Rightarrow> put_room i r (s\<lparr>world := w\<rparr>)) i = Some r \<and>
      entry_error p pw r = None")
    case True
    then obtain found r where f: "loaded = Some found" "entry_error p pw r = None"
      "room_at (case found of None \<Rightarrow> s\<lparr>world := w\<rparr> | Some r \<Rightarrow> put_room i r (s\<lparr>world := w\<rparr>)) i = Some r"
      by blast
    then have src: "room_at s i = Some r \<or> fst (load X i True (store s, world s)) = Some (Some r)"
      using l by (auto simp: update_conv' split: option.splits if_splits)
    let ?s2 = "case found of None \<Rightarrow> s\<lparr>world := w\<rparr> | Some r \<Rightarrow> put_room i r (s\<lparr>world := w\<rparr>)"
    have "admit X p i r ?s2 = Ret t" using assms(1-3) l f by (auto simp: enter_def Let_def)
    moreover have "player_of ?s2 p = Some pl" using assms(2) by (auto split: option.split)
    ultimately have "j = i" using admit_player [of X p i r ?s2 t pl] assms(3-5) by auto
    with f(2) src show thesis by (intro that) auto
  next
    case False
    then have "player_of t p = player_of s p"
      using assms(1-3) l by (auto simp: enter_def Let_def split: option.splits)
    with assms(2-5) show thesis by simp
  qed
qed

lemma entry_error_roster:
  assumes "entry_error p pw r = None"
  shows "length (r_active r) < r_max r" "r_started r \<Longrightarrow> r_fixed r \<Longrightarrow> p \<in> set (r_players r)"
    "r_started r \<Longrightarrow> \<not> r_fixed r \<Longrightarrow> p \<in> set (r_reservations r)"
    "\<not> r_started r \<Longrightarrow> \<not> r_closed r \<and> pw = r_password r"
  using assms by (auto simp: entry_error_def rejoin_def split: if_splits)

section \<open>Logging in\<close>

lemma bind_account_bound:
  assumes "bind_account X cid created i s = Ret t"
  shows "bound_to t cid = Some (Some i)"
proof -
  from assms obtain pl where pl: "player_of s i = Some pl"
    by (auto simp: bind_account_def split: option.splits)
  let ?pl = "pl\<lparr>p_connection := Some cid, p_offline := None, p_rtt := None\<rparr>"
  from assms pl obtain c where c: "conn_of s cid = Some c"
    by (auto simp: bind_account_def Let_def split: option.splits)
  let ?u = "put_conn cid (c\<lparr>c_player := Some i\<rparr>) (put_player i ?pl s)"
  obtain saved s3 where st: "with_store (save_account X ?pl) ?u = (saved, s3)" by fastforce
  from assms pl c st have t: "t = greet X cid created i ?pl s3"
    by (simp add: bind_account_def Let_def split: if_splits)
  have "bound_to s3 cid = bound_to ?u cid" by (rule same_books_bound [OF same_books_with_store [OF st keeps_jobs_save_account]])
  also have "\<dots> = Some (Some i)" by (simp add: update_conv')
  finally show ?thesis unfolding t greet.conn_player .
qed

lemma finish_login_bound: "finish_login X cid d i pl s = Ret t \<Longrightarrow> bound_to t cid = Some (Some i)"
  unfolding finish_login_def Let_def by (rule bind_account_bound)

lemma login_bound:
  assumes "login X cid d pl s = Ret t"
  shows "bound_to t cid = Some (Some (p_id pl))"
proof -
  obtain q u where "finish_login X cid d (p_id pl) q u = Ret t"
    using assms leave_not_Fail
    by (auto simp: login_def Let_def split: if_splits option.splits elim!: andthen.elims)
  then show ?thesis by (rule finish_login_bound)
qed

lemma auth_password:
  assumes a: "auth X cid d s = Ret t" and anon: "bound_to s cid = Some None"
    and old: "getk d ''playerId'' \<noteq> None \<or> getk d ''password'' \<noteq> None"
    and b: "bound_to t cid = Some (Some i)"
  obtains pl s1 where "find_account X (str_or '''' (idx d ''playerId'')) (expire X s) = (Some (Some pl), s1)"
    "p_password pl = str_or '''' (idx d ''password'')" "p_id pl = i"
proof -
  obtain found s1 where f: "find_account X (str_or '''' (idx d ''playerId'')) (expire X s) = (found, s1)"
    by fastforce
  have k: "bound_to (auth_failed X cid s1) cid = Some None"
    using find_account_same_books [OF f] anon
    by (simp add: auth_failed_def same_books_bound)
  from a f old k b obtain pl where pl: "found = Some (Some pl)"
    "p_password pl = str_or '''' (idx d ''password'')" "login X cid d pl s1 = Ret t"
    by (auto simp: auth_def Let_def split: option.splits if_splits)
  with login_bound [OF pl(3)] b f show thesis by (intro that) auto
qed

end
