(* ===== verification/Paging.thy ===== *)
theory Paging
  imports Commands
begin

text \<open>
  The pages of the room list: each fits in a frame, and a client that follows the cursors reads
  every room of the list once.
\<close>

lemma page_prefix:
  assumes "page X s rs data cursor = Some (out, c)"
  obtains k where "k \<le> length rs" "out = data @ map (dto s) (take k rs)"
    "c = (if k = 0 then cursor else if k = length rs then JNull else JStr (r_id (rs ! (k - 1))))"
    "k > 0 \<Longrightarrow> encoded X s (rooms_msg out c) \<noteq> None" "k = 0 \<Longrightarrow> rs = [] \<or> data \<noteq> []"
  using assms
proof (induction rs arbitrary: data cursor thesis)
  case Nil
  then show ?case by (intro Nil.prems(1) [of 0]) auto
next
  case (Cons r rs)
  let ?next = "if rs = [] then JNull else JStr (r_id r)"
  show ?case
  proof (cases "encoded X s (rooms_msg (data @ [dto s r]) ?next) = None")
    case True
    with Cons.prems show ?thesis
      by (intro Cons.prems(1) [of 0]) (auto simp: Let_def split: if_splits)
  next
    case False
    then have pg: "page X s rs (data @ [dto s r]) ?next = Some (out, c)"
      using Cons.prems(2) by (simp only: page.simps Let_def if_False)
    obtain k where k: "k \<le> length rs" "out = (data @ [dto s r]) @ map (dto s) (take k rs)"
      "c = (if k = 0 then ?next else if k = length rs then JNull else JStr (r_id (rs ! (k - 1))))"
      "k > 0 \<Longrightarrow> encoded X s (rooms_msg out c) \<noteq> None"
      "k = 0 \<Longrightarrow> rs = [] \<or> data @ [dto s r] \<noteq> []"
      by (rule Cons.IH [OF _ pg]) (rule that)
    show ?thesis
    proof (rule Cons.prems(1) [of "Suc k"])
      show "Suc k \<le> length (r # rs)" "out = data @ map (dto s) (take (Suc k) (r # rs))"
        using k(1,2) by simp_all
      show "c = (if Suc k = 0 then cursor else if Suc k = length (r # rs) then JNull
          else JStr (r_id ((r # rs) ! (Suc k - 1))))"
        using k(1,3) by (cases k) auto
      show "encoded X s (rooms_msg out c) \<noteq> None" using k False by (cases k) auto
    qed simp_all
  qed
qed

lemma filter_sorted_key:
  assumes "sorted (map f xs)" "distinct (map f xs)" "0 < k" "k \<le> length xs"
  shows "filter (\<lambda>x. f (xs ! (k - 1)) < f x) xs = drop k xs"
  using assms
proof (induction xs arbitrary: k)
  case (Cons x xs)
  show ?case
  proof (cases "k = 1")
    case True
    have "f x < f y" if "y \<in> set xs" for y
      using that Cons.prems(1,2) by (auto simp: order_less_le image_iff)
    with True show ?thesis by (simp add: filter_id_conv)
  next
    case False
    then obtain j where j: "k = Suc j" "0 < j" using Cons.prems(3) by (cases k) auto
    have "f x \<le> f (xs ! (j - 1))"
      using Cons.prems(1,4) j by (simp add: nth_mem)
    moreover have "filter (\<lambda>y. f (xs ! (j - 1)) < f y) xs = drop j xs"
      using Cons.prems j by (intro Cons.IH) auto
    ultimately show ?thesis using j by (cases j) auto
  qed
qed simp

lemma listing_after:
  assumes "a \<le> x"
  shows "listing p x s = filter (\<lambda>r. x < r_id r) (listing p a s)"
proof -
  have "filter (\<lambda>r. x < r_id r) (filter (listed p a) rs) = filter (listed p x) rs" for rs
    using assms by (auto simp: listed_def intro!: filter_cong)
  then show ?thesis by (simp add: listing_def filter_sort)
qed

lemma listing_distinct:
  assumes "wf_but (X, cf) {} s"
  shows "distinct (map r_id (listing p a s))" "sorted (map r_id (listing p a s))"
proof -
  have ok: "imap_ok (rooms s)" and b: "books {} (player_of s) (room_at s) (bound_to s)"
    using assms by (simp_all add: wf_but_def)
  have "r_id (snd e) = fst e" if "e \<in> set (rooms s)" for e
    using books_room [OF b, of "fst e" "snd e"] that ok
    by (cases e) (simp add: entry_ok_def map_of_eq_Some_iff)
  then have eq: "map r_id (map snd (rooms s)) = keys (rooms s)" by simp
  have "distinct (map r_id (map snd (rooms s)))" unfolding eq using ok by simp
  then have d: "inj_on r_id (set (map snd (rooms s)))" "distinct (map snd (rooms s))"
    by (simp_all only: distinct_map)
  have "set (listing p a s) \<subseteq> set (map snd (rooms s))" by (auto simp: listing_def)
  moreover have "distinct (listing p a s)" using d(2) by (simp add: listing_def)
  ultimately show "distinct (map r_id (listing p a s))"
    using d(1) by (simp only: distinct_map) (blast intro: inj_on_subset)
  show "sorted (map r_id (listing p a s))" by (simp add: listing_def)
qed

text \<open>The page holds the rooms that come first, and its cursor is where the rest starts.\<close>

lemma page_continues:
  assumes wf: "wf_but (X, cf) {} s" and pg: "page X s (listing p a s) [] JNull = Some (data, cursor)"
  obtains k where "k \<le> length (listing p a s)" "data = map (dto s) (take k (listing p a s))"
    "listing p a s \<noteq> [] \<Longrightarrow> 0 < k \<and> encoded X s (rooms_msg data cursor) \<noteq> None"
    "cursor = JNull \<and> k = length (listing p a s) \<or>
      (\<exists>x. cursor = JStr x \<and> 0 < k \<and> listing p x s = drop k (listing p a s))"
proof -
  let ?rs = "listing p a s"
  obtain k where k: "k \<le> length ?rs" "data = [] @ map (dto s) (take k ?rs)"
    "cursor = (if k = 0 then JNull else if k = length ?rs then JNull else JStr (r_id (?rs ! (k - 1))))"
    "k > 0 \<Longrightarrow> encoded X s (rooms_msg data cursor) \<noteq> None" "k = 0 \<Longrightarrow> ?rs = [] \<or> ([] :: json list) \<noteq> []"
    by (rule page_prefix [OF pg]) (rule that)
  have "cursor = JNull \<and> k = length ?rs \<or>
      (\<exists>x. cursor = JStr x \<and> 0 < k \<and> listing p x s = drop k ?rs)"
  proof (cases "0 < k \<and> k < length ?rs")
    case True
    let ?x = "r_id (?rs ! (k - 1))"
    have "k - 1 < length ?rs" using True by linarith
    then have "?rs ! (k - 1) \<in> set ?rs" by (rule nth_mem)
    then have "a \<le> ?x" by (auto simp: listing_def listed_def)
    then have "listing p ?x s = filter (\<lambda>r. ?x < r_id r) ?rs" by (rule listing_after)
    also have "\<dots> = drop k ?rs"
      using listing_distinct [OF wf] True by (intro filter_sorted_key) simp_all
    finally show ?thesis using True k(3) by simp
  next
    case False
    with k show ?thesis by auto
  qed
  moreover have "?rs \<noteq> [] \<Longrightarrow> 0 < k" using k(5) by (cases k) auto
  ultimately show thesis using k by (intro that [of k]) auto
qed

end
