(* ===== verification/Spec2Isabelle.thy ===== *)
theory Spec2Isabelle
  imports Client Loadtest Tools Scenes Notices Reach Intake Quota Entry Assembly Paging Admission Startup Logger Process Harness Launch
begin

text \<open>
  A verification library for a WebSocket relay for multiplayer games. Paths are under \<open>src/rust/\<close>.

  \<^bold>\<open>The program.\<close> Clients connect over WebSocket, log in to an account, and enter rooms. The server
  relays text and binary frames, and authenticated datagrams, between the players of a room; rooms that
  are persistent have a state that their owner uploads in chunks and commits, together with notices
  for the push service. All of that state belongs to one worker thread (\<open>state.rs\<close>): the socket tasks,
  the datagram listener, the sweep timer and the push and telemetry tasks (\<open>main.rs\<close>, \<open>udp.rs\<close>,
  \<open>push.rs\<close>, \<open>telemetry.rs\<close>) hand it closures, which it runs one at a time. What a client is sent goes
  into the outbox of its connection, from which its socket task writes. Files are written under a
  session directory (\<open>store.rs\<close>), the detailed log by a thread of its own (\<open>diagnostics.rs\<close>).

  \<^bold>\<open>How code is written here.\<close> Structs are records, enums datatypes, one function of the code is one
  definition with its checks in the code's order. An operation of the server returns an \<open>outcome\<close>
  (theory Prelude): \<open>Ret\<close> for \<open>Ok\<close>, \<open>Fail\<close> for \<open>Err\<close> with the state it leaves, \<open>Panic\<close> for an
  \<open>unwrap\<close>, an index or a key that is not there. \<open>IndexMap\<close> is an association list in insertion order,
  with \<open>shift_remove\<close> and \<open>swap_remove\<close> apart. The clock, new ids, random bytes and what the disk does
  come from streams in the \<open>world\<close> (theory Model). Functions of other crates are the fields of the
  record \<open>externals\<close> (theory Json): JSON text, UUIDs, HMAC, base64, time format. What a theorem needs of
  them it assumes: \<open>parses\<close> (the text of a UUID parses to 16 bytes), or that the JSON codec reads back
  what it wrote. Integers of the code are \<open>nat\<close> where a bound in the code keeps them small, and are
  capped or cut to their width where they are not; datagram and frame bytes are \<open>8 word\<close>.

  \<^bold>\<open>Theories and the code they model.\<close>
  \<^item> \<open>protocol.rs\<close>: Json, Protocol (numbers, the serialiser, the validation of every message).
  \<^item> \<open>model.rs\<close>, \<open>config.rs\<close>: Model (players, rooms, uploads, views), Config (defaults, environment,
    arguments, checks).
  \<^item> \<open>store.rs\<close>: Store; Jobs, Saved, Quota prove what it keeps, writes, reads back and removes.
  \<^item> \<open>server.rs\<close>: Server (connections, sending), Rooms (login, entering, leaving, expiry), Sessions
    (binary frames, uploads, commits), Handle (every command), Serve (receive, the delay queue, sweep,
    stop). Transport, Membership, Lifecycle, Commands and Worker prove that each keeps the books;
    Entry, Assembly and Paging what entering, uploading and listing rooms do.
  \<^item> \<open>udp.rs\<close>: Udp (replay window, budgets, wire format), Datagram (the handler).
  \<^item> \<open>admission.rs\<close>: Admission. \<open>main.rs\<close>, \<open>state.rs\<close>: Intake (the header, the upgrade, the turns of a
    socket task), Reach (the worker as a transition system), Process (the listener, the tasks and the
    worker's channel together).
  \<^item> \<open>push.rs\<close>: Push (the pass of the sender as a machine that stops at every query of the worker).
  \<^item> \<open>diagnostics.rs\<close>: Diagnostics (redaction, counters), Logger (the log files). \<open>telemetry.rs\<close>:
    Telemetry. The constructors of store, server, logger and telemetry: Startup. The start of the process, from
    the environment to the listener, and the report of its failure: Launch.
  \<^item> \<open>tooling/mod.rs\<close>, \<open>tools/\<close>: Client (the test client), Harness (the server a tool starts: its
    environment, its output, and the test commands \<open>main.rs\<close> takes on its standard input), Loadtest,
    Tools (command line, demo page).
  \<^item> Sample, Scenes and Notices hold concrete servers, stores and runs on which the theorems are
    applied.

  \<^bold>\<open>What is proved.\<close> \<open>wf_but\<close> (theory Membership) relates players, rooms and connections: a
  connection is bound to the player that names it, a player is listed by exactly the room its record
  names, and rooms keep their own books. Every entry point of the worker keeps it and, under it, does
  not panic; so no run does. The interface \<open>transport_op\<close> (theory Transport) says once what sending may
  change, and every sending function is an instance; \<open>removal_map\<close> (theory Prelude) does it for the two
  ways to remove from a map. On that rest the theorems below: on logins and rooms, on datagrams (nothing
  is done for a forged, stale or repeated one, and none leaves the room), on the store (atomic writes,
  round trips, quota by age), on notices (posted once in a pass, settled, kept over a restart), on
  uploads and downloads, on admission, logs and telemetry.

  \<^bold>\<open>Loops.\<close> Recursion is on the data or by a measure. \<open>Client.load_bytes\<close> and \<open>Loadtest.ramp\<close> may
  run for ever in the code and are \<open>partial_function\<close>s: that they end is proved. The push task is a
  step function; \<open>task_run_ends\<close> bounds the number of its steps.

  \<^bold>\<open>Hypotheses on a run.\<close> Ids that are drawn are fresh (UUIDs of version 4), and a login writes the id
  as the account's file does: the names of files do not depend on the case of an id but the keys of the
  players do, and \<open>Notices.capitals_replace_the_player\<close> shows a login that breaks the books. Floating
  point: doubles are rationals, rounded where the code rounds; infinities, NaN and subnormal numbers
  are not modelled.

  \<^bold>\<open>Not modelled.\<close> The calls of sockets, timers, signals, threads and channels themselves, the HTTP and
  WebSocket libraries and the HTTP client: what they deliver is an input, in any order. From \<open>main.rs\<close>
  the splitting of standard input into lines, the panic hook and the time-outs of the shutdown;
  from \<open>diagnostics.rs\<close> the waiting of \<open>flush\<close> and the printing to standard output; from the tools the
  start and end of child processes, mock services, resource readings, and the scripts that only send one message after
  another.
\<close>

section \<open>The state worker\<close>

text \<open>
  C1: Every reachable state of the server keeps the membership invariant: connection and player
  records agree, a player is listed by exactly the room its record names, and rooms keep their own
  books. A run interleaves new connections, frames, lost connections, maintenance, datagrams, the
  passes of the push sender and the socket task that takes frames from an outbox and gives their
  cost back. Ids drawn in a run are fresh, and a login writes the id as the account file has it:
  \<open>capitals_replace_the_player\<close> shows what happens otherwise.
\<close>

theorem run_keeps_wf:
  assumes "parses X" "server_wf X s" "reachable X (s, costs) (t, costs')"
  shows "server_wf X t"
  using reachable_wf [OF assms(1) _ assms(3), of "config s"] assms(2)
  by (metis fst_conv server_wf_def wf_config)

theorem run_keeps_wf_witness: "server_wf X0 (hang_up 1 server1)"
proof -
  have "step X0 (server1, \<lambda>_. 0) (Ret (hang_up 1 server1, \<lambda>_. 0))"
    using step.work [OF command.ended [of X0 server1 "\<lambda>_. 0" 1]] by (simp add: fun_upd_idem)
  then have "reachable X0 (server1, \<lambda>_. 0) (hang_up 1 server1, \<lambda>_. 0)"
    by (rule reachable.returned [OF reachable.start])
  then show ?thesis by (rule run_keeps_wf [OF parses_X0 wf_server1])
qed



section \<open>The process\<close>

text \<open>
  C3: In every run of the process (listener, connection tasks and worker, with the requests to open and
  end connections on their way through the worker's channel) the server never holds more connections
  than the configuration allows, in all or of one address, although a task gives its permit back
  before the worker has ended its connection.
\<close>

theorem connections_stay_limited:
  assumes "parses X" "server_wf X s" "connections s = []" "process_run X cfg (launched s) p"
  shows "length (connections (pr_server p)) \<le> cfg_n cfg ''maxConnections'' \<and>
    length (filter (\<lambda>c. pr_given p c = ip) (keys (connections (pr_server p)))) \<le>
      cfg_n cfg ''maxConnectionsPerIp''"
  using connections_limited process_run_ok [OF assms(4,1-3)] by blast

theorem connections_stay_limited_witness:
  "\<exists>p. process_run X0 config0 (launched server8) p \<and> length (connections (pr_server p)) = 1 \<and>
    1 \<le> cfg_n config0 ''maxConnections''"
proof -
  obtain p where p: "process_run X0 config0 (launched server8) p" "length (connections (pr_server p)) = 1"
    by (rule run_server8)
  have "length (connections (pr_server p)) \<le> cfg_n config0 ''maxConnections''"
    using connections_stay_limited [OF parses_X0 wf_server8(1,2) p(1)] by blast
  with p show ?thesis by auto
qed

text \<open>
  C4: The process refines the worker's transition system: whatever the listener, the tasks and the
  channel do, the state of the worker is one of a run that opens connections only under numbers not in
  use, so what is proved of those runs holds of the process.
\<close>

theorem process_refines_worker:
  assumes "parses X" "server_wf X s" "connections s = []" "process_run X cfg (launched s) p"
  shows "reachable X (s, \<lambda>_. 0) (pr_server p, pr_costs p) \<and> server_wf X (pr_server p)"
proof -
  have "process_inv X cfg p" "reachable X (s, \<lambda>_. 0) (pr_server p, pr_costs p)"
    using process_run_ok [OF assms(4,1-3)] by simp_all
  then show ?thesis
    using wf_numbers_mono [OF process_invD(1), of X cfg p UNIV] by (simp add: server_wf_def)
qed

theorem process_refines_worker_witness:
  "\<exists>p. process_run X0 config0 (launched server8) p \<and> length (connections (pr_server p)) = 1 \<and>
    reachable X0 (server8, \<lambda>_. 0) (pr_server p, pr_costs p)"
proof -
  obtain p where p: "process_run X0 config0 (launched server8) p" "length (connections (pr_server p)) = 1"
    by (rule run_server8)
  with process_refines_worker [OF parses_X0 wf_server8(1,2) p(1)] show ?thesis by blast
qed

section \<open>Accounts and rooms\<close>



text \<open>
  C6: A player who was outside comes out of \<open>enterRoom\<close> inside a room only if it is the room asked
  for, live or loaded from disk, and that room admits: it has a free place, and it is either an open
  lobby whose password was given or a started game that lists the player.
\<close>

theorem enter_only_admitted:
  assumes "enter X p i pw s = Ret t" "player_of s p = Some pl" "p_room pl = None"
    and "player_of t p = Some ql" "p_room ql = Some j"
  shows "j = i \<and> (\<exists>r. (room_at s i = Some r \<or> (\<exists>w. fst (load X i True (store s, w)) = Some (Some r))) \<and>
    length (r_active r) < r_max r \<and>
    (if r_started r then rejoin r p else \<not> r_closed r \<and> pw = r_password r))"
proof -
  obtain r where r: "entry_error p pw r = None" "j = i"
    "room_at s i = Some r \<or> (\<exists>w. fst (load X i True (store s, w)) = Some (Some r))"
    by (rule enter_admits [OF assms])
  have "if r_started r then rejoin r p else \<not> r_closed r \<and> pw = r_password r"
    using entry_error_roster(2-4) [OF r(1)] by (auto simp: rejoin_def)
  with r entry_error_roster(1) [OF r(1)] show ?thesis by blast
qed

theorem enter_only_admitted_witness:
  "\<exists>r. (room_at server4 ID_R = Some r \<or> (\<exists>w. fst (load X0 ID_R True (store server4, w)) = Some (Some r))) \<and>
    length (r_active r) < r_max r \<and>
    (if r_started r then rejoin r ID_B else \<not> r_closed r \<and> JStr ''pw'' = r_password r)"
proof -
  obtain t ql where t: "enter X0 ID_B ID_R (JStr ''pw'') server4 = Ret t"
    "player_of t ID_B = Some ql" "p_room ql = Some ID_R"
    using holdsD [OF enters_lobby] by (auto simp: map_option_eq_Some)
  have "player_of server4 ID_B = Some ((player0 ID_B 2)\<lparr>p_room := None\<rparr>)"
    by (simp add: server4_def)
  from enter_only_admitted [OF t(1) this _ t(2,3)] show ?thesis by simp
qed

text \<open>
  C7: When a member leaves a room whose game goes on without it, exactly that member is taken off the
  list; if it owned the room, the first of the members left becomes the owner and the generation
  goes up by one, and otherwise the owner and the generation stay.
\<close>

theorem leave_hands_over:
  assumes "leave X p d s = Ret t" "player_of s p = Some pl" "p_room pl = Some i"
    and "room_at s i = Some r" "r_id r = i" "\<not> host_lost p r" "removeAll p (r_active r) \<noteq> []"
  shows "\<exists>r'. room_at t i = Some r' \<and> r_active r' = removeAll p (r_active r) \<and>
    (if r_owner r = p then r_owner r' = hd (r_active r') \<and> r_generation r' = r_generation r + 1
     else r_owner r' = r_owner r \<and> r_generation r' = r_generation r)"
proof -
  obtain r' where "room_at t i = Some r'" "r_active r' = removeAll p (r_active r)"
    "r_owner r = p \<Longrightarrow> r_owner r' = hd (r_active r') \<and> r_generation r' = r_generation r + 1"
    "r_owner r \<noteq> p \<Longrightarrow> r_owner r' = r_owner r \<and> r_generation r' = r_generation r"
    by (rule leave_elects [OF assms]) (rule that)
  then show ?thesis by (intro exI [of _ r']) simp
qed

theorem leave_hands_over_witness:
  "\<exists>t r'. leave X0 ID_A False server1 = Ret t \<and> room_at t ID_R = Some r' \<and>
    r_owner r' = ID_B \<and> r_generation r' = 4"
proof -
  obtain t where t: "leave X0 ID_A False server1 = Ret t" using holdsD [OF leaves_room0] by auto
  have "\<exists>r'. room_at t ID_R = Some r' \<and> r_active r' = removeAll ID_A (r_active room0) \<and>
    (if r_owner room0 = ID_A
     then r_owner r' = hd (r_active r') \<and> r_generation r' = r_generation room0 + 1
     else r_owner r' = r_owner room0 \<and> r_generation r' = r_generation room0)"
    by (rule leave_hands_over [OF t, of "player0 ID_A 1"])
      (simp_all add: server1_def player0_def room0_def host_lost_def)
  with t show ?thesis by (auto simp: room0_def)
qed

section \<open>Datagrams\<close>




text \<open>
  C10: What a relay datagram makes the server send goes to other active players of the sender's room
  and no one else, each at the endpoint of the session of its current connection, signed with that
  session's secret, naming the sender; with a target address, only to the player it names.
\<close>

theorem relay_stays_in_room:
  assumes "server_wf X s" "datagram_at X bs source t s = Ret (out, s')"
    and "dg_kind bs = 2" "(a, b) \<in> set out"
  shows "\<exists>c pl r u i q cid sender. dg_context s (dg_cid bs) = Some (c, pl, r, u) \<and>
    dg_authentic X u bs \<and> i \<in> set (r_active r) \<and> i \<noteq> p_id pl \<and>
    (nil_address (dg_address bs) \<or> i = x_uuid_text X (dg_address bs)) \<and>
    player_of s i = Some q \<and> p_connection q = Some cid \<and> x_uuid_parse X (p_id pl) = Some sender \<and>
    reaches X s t sender (dg_payload bs) (cid, p_version q) (a, b)"
  by (rule datagram_confined [OF assms(1) [unfolded server_wf_def] assms(2-4)])

theorem relay_stays_in_room_witness:
  "\<exists>a b i sender. i \<in> {ID_A, ID_B} \<and>
    (\<exists>q cid. player_of server2 i = Some q \<and>
       reaches X0 server2 100000 sender (dg_payload (packet0 2 [1, 2])) (cid, p_version q) (a, b))"
proof -
  obtain a b out s1 where
    "datagram_at X0 (packet0 2 [1, 2]) SOURCE 100000 server2 = Ret ((a, b) # out, s1)"
    using holdsD [OF relays_packet0] by (auto simp: neq_Nil_conv)
  from relay_stays_in_room [OF wf_server2 this kind_packet0, of a b]
  obtain c pl r u i q cid sender where
    *: "dg_context server2 (dg_cid (packet0 2 [1, 2])) = Some (c, pl, r, u)"
      "i \<in> set (r_active r)" "player_of server2 i = Some q"
      "reaches X0 server2 100000 sender (dg_payload (packet0 2 [1, 2])) (cid, p_version q) (a, b)"
    by auto
  from dg_contextD(8) [OF *(1)] have "set (r_active r) \<subseteq> {ID_A, ID_B}"
    by (auto simp: server2_def server1_def room0_def split: if_splits)
  with *(2) have "i \<in> {ID_A, ID_B}" by blast
  with *(3,4) show ?thesis by (intro exI conjI)
qed

text \<open>
  C11: A connection gets a datagram endpoint it did not have only by an authentic confirmation, sent
  from that very address, of the challenge the server sent to it, in time.
\<close>

theorem endpoint_is_proved:
  assumes "datagram_at X bs source t s = Ret (out, s')"
    and "conn_of s' j = Some d" "endpoint_of d = Some a"
  shows "(\<exists>c. conn_of s j = Some c \<and> endpoint_of c = Some a) \<or>
    (j = dg_cid bs \<and> a = source \<and> answers X bs source t s)"
  by (rule datagram_endpoint [OF assms])

theorem endpoint_is_proved_witness: "answers X0 (packet0 1 challenge0) SOURCE 100000 server5"
proof -
  obtain out s1 where r: "datagram_at X0 (packet0 1 challenge0) SOURCE 100000 server5 = Ret (out, s1)"
    and "Option.bind (conn_of s1 1) endpoint_of = Some SOURCE"
    using holdsD [OF confirms_packet0] unfolding endpoint_of_def by blast
  then obtain d where "conn_of s1 1 = Some d" "endpoint_of d = Some SOURCE"
    by (cases "conn_of s1 1") simp_all
  note * = endpoint_is_proved [OF r this]
  have "\<nexists>c. conn_of server5 1 = Some c \<and> endpoint_of c = Some SOURCE"
    by (simp add: server5_def endpoint_of_def session0_def)
  with * show ?thesis by blast
qed


text \<open>
  C12: The replay window accepts exactly the sequence numbers the specification accepts: those that
  are not zero, were not accepted before and are less than 64 below the highest accepted one.
\<close>

theorem replay_window_refines:
  "replay_run replay_default ns = spec_run {} (map unat ns)"
  by (rule replay_run_refines [OF replay_rel_default])

text \<open>
  C13: A packet budget of \<open>n\<close> per second lets at most twice \<open>n\<close> packets through in any second,
  wherever in its window the second starts.
\<close>

theorem budget_any_second:
  assumes "\<forall>t \<in> set ts. a \<le> t \<and> t < a + 1000"
  shows "count_list (rate_run cap r ts) True \<le> 2 * cap"
  using rate_run_any_second [OF assms, of cap r] by simp

theorem budget_any_second_witness: "count_list (rate_run 1 rate_default [5, 999, 1000, 1004]) True \<le> 2"
  using budget_any_second [of "[5, 999, 1000, 1004]" 5 1 rate_default] by simp

text \<open>
  C14: The receiver reads back from an encoded packet every field it was built from, and its tag is
  the one computed over the signed part, for every sixteen-byte address and 64-bit connection number.
\<close>

theorem packet_round_trip:
  assumes "length address = 16" "\<forall>m. length (x_hmac X secret m) = TAG" "cid < 2 ^ 64"
    and "bs = encode X secret kind cid sequence address payload"
  shows "take 4 bs = magic \<and> dg_kind bs = kind \<and> dg_cid bs = cid \<and> dg_sequence bs = sequence \<and>
    dg_address bs = address \<and> dg_payload bs = payload \<and>
    dg_tag bs = x_hmac X secret (dg_signed bs)"
  using encode_fields [OF assms(1) assms(2) [rule_format] assms(3,4)] by blast

theorem packet_round_trip_witness:
  "dg_payload (encode X0 (replicate 32 3) 2 1 1 nil_uuid [1, 2]) = [1, 2]"
proof -
  have "length nil_uuid = 16" "\<forall>m. length (x_hmac X0 (replicate 32 3) m) = TAG"
    by (auto simp: nil_uuid_def X0_def TAG_def min_def)
  from packet_round_trip [OF this, of 1 _ 2 1 "[1, 2]", OF _ refl] show ?thesis by simp
qed

section \<open>Files\<close>



text \<open>
  C16: An account that was saved is loaded back with its id, name, password and devices, out of any
  room, with no connection and with every device in the background.
\<close>

theorem account_save_load:
  assumes "save_account X p (st, w) = (True, st', w')" "imap_ok (st_files st)" "st_enabled st"
    and "x_from_slice X (x_to_vec X (account_json p)) = Some (account_json p)"
    and "disk_ok w2" "imap_ok (p_devices p)"
  shows "\<exists>q. fst (account X (p_id p) (st', w2)) = Some (Some q) \<and> retired p q"
proof -
  obtain q where "fst (account X (p_id p) (st', w2)) = Some (Some q)" "retired p q"
    by (rule save_account_load [OF assms]) (rule that)
  then show ?thesis by blast
qed

theorem account_save_load_witness:
  "\<exists>st q. fst (account (codec (account_json (player0 ID_A 1))) ID_A (st, W0)) = Some (Some q) \<and>
     retired (player0 ID_A 1) q"
proof -
  obtain st w where
    "save_account (codec (account_json (player0 ID_A 1))) (player0 ID_A 1) (store0, W0) = (True, st, w)"
    using holds_account by blast
  from account_save_load [OF this, of W0] show ?thesis
    by (auto simp: store0_def codec_def disk_ok_def W0_def player0_def)
qed

text \<open>
  C17: Wherever a write fails, the file holds either its old content or all of the new one; the new
  one exactly when the write reports success; and no other file but the temporary one is touched.
\<close>

theorem writes_are_atomic:
  assumes "atomic f parts (st, w) = (ok, st', w')" "imap_ok (st_files st)"
  shows "map_of (st_files st') f = (if ok then Some (concat parts) else map_of (st_files st) f) \<and>
    (\<forall>g. g \<noteq> f \<and> g \<noteq> tmp_of f \<longrightarrow> map_of (st_files st') g = map_of (st_files st) g)"
  using atomic_ok [OF assms] by (auto simp: only_files_def)

theorem writes_are_atomic_witness:
  "map_of (st_files (fst (snd (atomic (''a'', ''b'') [[1], [2]] (store0, W0))))) (''a'', ''b'') =
     (if fst (atomic (''a'', ''b'') [[1], [2]] (store0, W0)) then Some [1, 2] else None)"
proof -
  obtain ok st w where *: "atomic (''a'', ''b'') [[1], [2]] (store0, W0) = (ok, st, w)"
    by (rule prod_cases3)
  have "imap_ok (st_files store0)" "map_of (st_files store0) (''a'', ''b'') = None"
    by (simp_all add: store0_def)
  with writes_are_atomic [OF *] show ?thesis by (simp add: *)
qed


text \<open>
  C18: A commit of notices keeps memory and disk together: every job list in memory is the content of
  the room's file, whether the commit succeeds or fails, and a failed one changes no list.
\<close>

theorem commit_keeps_jobs_synced:
  assumes "commit X r n m (st, w) = (ok, st', w')" "jobs_synced X st"
    and "uuid_text (r_id r)" "ascii_lower (r_id r) = r_id r"
  shows "jobs_synced X st' \<and> (\<not> ok \<longrightarrow> st_jobs st' = st_jobs st)"
  using commit_synced [OF assms] by blast

theorem commit_keeps_jobs_synced_witness:
  "jobs_synced X0 (fst (snd (commit X0 room0 JNull JNull (store0, W0))))"
proof -
  obtain ok st w where *: "commit X0 room0 JNull JNull (store0, W0) = (ok, st, w)"
    by (rule prod_cases3)
  have "jobs_synced X0 store0" by (simp add: jobs_synced_def store0_def)
  moreover have "uuid_text (r_id room0)" "ascii_lower (r_id room0) = r_id room0"
    by (simp_all add: room0_def uuid_sample lower_sample)
  ultimately show ?thesis using commit_keeps_jobs_synced [OF *] by (simp add: *)
qed

text \<open>
  C19: Pruning never removes the file of a room that is in memory, and reports no such room.
\<close>

theorem prune_spares_active:
  assumes "prune X active (st, w) = (Some out, st', w')" "st_enabled st" "names_ok (st_files st)"
  shows "set out \<inter> set active = {} \<and>
    (\<forall>i \<in> set active. map_of (st_files st') (bin_of i) = map_of (st_files st) (bin_of i))"
  using prune_active [OF assms] by blast

theorem prune_spares_active_witness:
  "\<exists>out st' w'. prune X0 [ID_R] (store1, W0) = (Some out, st', w') \<and>
     map_of (st_files st') (bin_of ID_R) = map_of (st_files store1) (bin_of ID_R)"
proof -
  obtain out st' w' where *: "prune X0 [ID_R] (store1, W0) = (Some out, st', w')"
    using prunes_store1 by blast
  from prune_spares_active [OF * _ names_store1] show ?thesis using * by (simp add: store1_def)
qed

text \<open>
  C20: After pruning, the saved rooms fit in the configured quota, or the only room files left are
  those of rooms in memory.
\<close>

theorem prune_within_quota:
  assumes "prune X active (st, w) = (Some out, st', w')" "st_enabled st" "names_ok (st_files st)"
  shows "room_bytes (st_files st') \<le> st_max st \<or>
    (\<forall>i. uuid_text i \<and> map_of (st_files st') (bin_of i) \<noteq> None \<longrightarrow> i \<in> set active)"
  by (rule prune_fits [OF assms])

theorem prune_within_quota_witness:
  "\<exists>out st' w'. prune X0 [ID_R] (store1, W0) = (Some out, st', w') \<and>
     (room_bytes (st_files st') \<le> 4 \<or> map_of (st_files st') (bin_of ID_N) = None)"
proof -
  obtain out st' w' where *: "prune X0 [ID_R] (store1, W0) = (Some out, st', w')"
    using prunes_store1 by blast
  from prune_within_quota [OF * _ names_store1]
  have "room_bytes (st_files st') \<le> 4 \<or> map_of (st_files st') (bin_of ID_N) = None"
    using uuid_sample(4) ids_neq by (fastforce simp: store1_def)
  with * show ?thesis by blast
qed

text \<open>
  C21: Pruning goes by age: there is one time stamp per saved room that is not in memory, read from
  its file, and no room is removed while one with a smaller stamp is kept.
\<close>

theorem prune_by_age:
  assumes "prune X active (st, w) = (Some out, st', w')" "st_enabled st" "names_ok (st_files st)"
  shows "\<exists>entries. list_all (idle_entry active (st_files st)) entries \<and>
    covers active (st_files st) entries \<and> list_all (stamped X st) entries \<and>
    (\<forall>e \<in> set entries. \<forall>e' \<in> set entries.
       fst (snd e) \<in> set out \<and> fst (snd e') \<notin> set out \<longrightarrow> fst e \<le> fst e')"
proof -
  obtain entries where "list_all (idle_entry active (st_files st)) entries"
    "covers active (st_files st) entries" "list_all (stamped X st) entries"
    "\<forall>e \<in> set entries. \<forall>e' \<in> set entries.
       fst (snd e) \<in> set out \<and> fst (snd e') \<notin> set out \<longrightarrow> fst e \<le> fst e'"
    by (rule prune_oldest_first [OF assms])
  then show ?thesis by blast
qed

theorem prune_by_age_witness:
  "\<exists>entries. covers [ID_R] (st_files store1) entries \<and> list_all (stamped X0 store1) entries"
proof -
  obtain out st' w' where *: "prune X0 [ID_R] (store1, W0) = (Some out, st', w')"
    using prunes_store1 by blast
  from prune_by_age [OF * _ names_store1] show ?thesis by (auto simp: store1_def)
qed

section \<open>Notices\<close>

text \<open>
  C22: A pass of the push sender over a job that names its players once posts to a device at most
  once, whatever the other tasks do to the server between its steps and whatever the push service
  answers. The pass works on copies of the job and of each player's devices.
\<close>

theorem pass_posts_once:
  assumes "task_run X task" "task 0 = NextPlayer ps" "distinct (ps_targets ps)"
    and "\<And>k. k < n \<Longrightarrow> in_job (task k)" "m < n" "posting_to (task m) = Some (i, d)"
  shows "posting_to (task n) \<noteq> Some (i, d)"
  by (rule posted_once [OF assms(1) _ assms(4,6,5)]) (use assms(2,3) in simp_all)

theorem pass_posts_once_witness:
  "posting_to (walk [ID_A] 2) = Some (ID_A, ID_N) \<and> posting_to (walk [ID_A] 5) \<noteq> Some (ID_A, ID_N)"
proof (rule conjI [OF walk_posts])
  have "in_job (walk [ID_A] k)" if "k < 5" for k
    by (rule bspec [OF walk_in_job]) (use that in auto)
  then show "posting_to (walk [ID_A] 5) \<noteq> Some (ID_A, ID_N)"
    by (intro pass_posts_once [OF walk_run [of "[ID_A]"] _ _ _ _ walk_posts, of "pass0 [ID_A]"])
      (simp_all add: pass0_def)
qed

text \<open>
  C23: A pass of the push sender ends: whatever state the server is in at each of its queries and
  whatever the push service answers, the task waits for the next pass after finitely many steps.
\<close>

theorem pass_comes_to_an_end:
  assumes "task_run X task"
  shows "\<exists>n. task n = Waiting"
  by (rule task_run_ends [OF assms])

theorem pass_comes_to_an_end_witness: "\<exists>n. walk [ID_A, ID_B] n = Waiting"
  by (rule pass_comes_to_an_end [OF walk_run])



text \<open>
  C25: A recorded delivery is a receipt: it is in the job in memory, and a pass over a job that has it
  goes past the device without posting.
\<close>

theorem delivery_leaves_a_receipt:
  assumes "sound_jobs (store s)" "record_delivery X i job p d token invalid s = Ret t"
    and "find (same_job job) (room_jobs s i) = Some j" "idx j ''done'' = JArr ks"
  shows "\<exists>j'. find (same_job job) (room_jobs t i) = Some j' \<and> already_done j' p d \<and>
    (\<forall>ps ad s. ps_job ps = j' \<longrightarrow> ad_id ad = p \<longrightarrow> imap_ok (ad_devices ad) \<longrightarrow>
       posting_to (next_device ps ad s) \<noteq> Some (p, d))"
  by (rule record_delivery_receipt [OF assms]) (use receipt_respected in blast)

theorem delivery_leaves_a_receipt_witness:
  "\<exists>t j'. find (same_job (job_to [ID_A])) (room_jobs t ID_R) = Some j' \<and> already_done j' ID_A ID_N"
proof -
  obtain t where t: "record_delivery X0 ID_R (job_to [ID_A]) ID_A ID_N (JStr ''token'') False (server6 [ID_A]) = Ret t"
    using mark_done_same_books [OF sound_server6] unfolding record_delivery_def if_False by blast
  from delivery_leaves_a_receipt [OF sound_server6 t, of "job_to [ID_A]" "[]"] show ?thesis
    by (auto simp: room_jobs_def server6_def same_job_def job_to_def)
qed

text \<open>
  C26: A device is forgotten only when the push service called its token invalid and the device still
  has that token when the answer is recorded; nothing else of any player changes, and no room does.
\<close>

theorem only_invalid_tokens_forgotten:
  assumes "sound_jobs (store s)" "record_delivery X room_id job i d token invalid s = Ret t"
  shows "rooms t = rooms s \<and> (if invalid then forgets i d token s t else players t = players s)"
  using record_delivery_forgets [OF assms] by auto

theorem only_invalid_tokens_forgotten_witness:
  "\<exists>t. rooms t = rooms (server6 [ID_A]) \<and> forgets ID_A ID_N (JStr ''token'') (server6 [ID_A]) t \<and>
     map_option p_devices (player_of t ID_A) = Some []"
proof -
  have "holds (\<lambda>t. map_option p_devices (player_of t ID_A) = Some [])
      (record_delivery X0 ID_R (job_to [ID_A]) ID_A ID_N (JStr ''token'') True (server6 [ID_A]))"
    by code_simp
  then obtain t where t: "record_delivery X0 ID_R (job_to [ID_A]) ID_A ID_N (JStr ''token'') True
      (server6 [ID_A]) = Ret t" and "map_option p_devices (player_of t ID_A) = Some []"
    by (auto dest: holdsD)
  with only_invalid_tokens_forgotten [OF sound_server6 t] show ?thesis by auto
qed

section \<open>Starting\<close>



text \<open>
  C28: A configuration that loads is well-typed: every setting is there with the type of its default,
  every number is within its limit and zero only where zero is allowed; a datagram can carry the
  handshake and fits in an IP packet; and a signing key is empty or long enough.
\<close>

theorem loaded_config_is_typed:
  assumes "load_config env args = Some c"
  shows "config_typed c \<and> config_ok c \<and>
    85 \<le> cfg_n c ''udpMaxDatagramBytes'' \<and> cfg_n c ''udpMaxDatagramBytes'' \<le> 65507 \<and>
    (cfg_s c ''moderationSigningKey'' = [] \<or> key_text 32 (cfg_s c ''moderationSigningKey''))"
  using load_config_ok [OF assms] by blast

theorem loaded_config_is_typed_witness: "\<exists>c. load_config (\<lambda>_. Unset) [] = Some c \<and> config_typed c"
proof -
  obtain c where c: "load_config (\<lambda>_. Unset) [] = Some c" using default_config by blast
  with loaded_config_is_typed [OF c] show ?thesis by blast
qed



section \<open>Connections\<close>

text \<open>
  C30: With a configuration that has loaded the check of an upgrade always answers, tells no client
  anything, and lets a connection in exactly when it asks for the root path and its origin is among
  those allowed: a missing one only if the configuration says so, one that is no text never.
\<close>

theorem upgrade_is_checked:
  assumes "load_config env args = Some cf"
  shows "\<exists>ok t. check_upgrade X cf uri origin s = Ret (ok, t) \<and> quiet s t \<and>
    (ok \<longleftrightarrow> uri = ''/'' \<and> (case origin of
       None \<Rightarrow> cfg_b cf ''allowNoOrigin''
     | Some None \<Rightarrow> False
     | Some (Some y) \<Rightarrow> JStr y \<in> set (elems (idx cf ''allowedOrigins''))))"
  using check_upgrade_ok load_config_ok(1) [OF assms] by blast

theorem upgrade_is_checked_witness:
  "\<exists>cf ok t. load_config (\<lambda>_. Unset) [] = Some cf \<and>
    check_upgrade X0 cf ''/admin'' (Some None) server1 = Ret (ok, t) \<and> \<not> ok"
proof -
  obtain c where c: "load_config (\<lambda>_. Unset) [] = Some c" using default_config by blast
  from upgrade_is_checked [OF c, of X0 "''/admin''" "Some None" server1] c show ?thesis by auto
qed

section \<open>Session uploads\<close>

text \<open>
  C31: The chunks of an upload, sent in order by its owner, fill the buffer with exactly the bytes sent,
  up to the size announced, without touching what was there before or the room's revision.
\<close>

theorem chunks_assemble:
  assumes "may_go_on X p uid r u" "list_all (\<lambda>d. d \<noteq> []) ds"
    and "u_offset u + length (concat ds) = length (u_bytes u)" "length (u_bytes u) < 2 ^ 32"
  shows "\<exists>r' s' u'. uploads X p (chunk_frames uid (u_offset u) ds) (r, s) = Ret (r', s') \<and>
    r_upload r' = Some u' \<and> u_bytes u' = take (u_offset u) (u_bytes u) @ concat ds \<and>
    u_offset u' = length (u_bytes u') \<and> r_revision r' = r_revision r"
proof -
  obtain r' s' u' where "uploads X p (chunk_frames uid (u_offset u) ds) (r, s) = Ret (r', s')"
    "may_go_on X p uid r' u'" "u_bytes u' = take (u_offset u) (u_bytes u) @ concat ds"
    "u_offset u' = length (u_bytes u')" "u_id u' = u_id u" "u_revision u' = u_revision u"
    "r_revision r' = r_revision r"
    by (rule uploads_assemble [OF assms]) (rule that)
  then show ?thesis unfolding may_go_on_def by blast
qed

theorem chunks_assemble_witness:
  "\<exists>r' s' u'. uploads X0 ID_A (chunk_frames (uuid_bytes ID_N) 1 [[7, 8], [9]]) (room0, server1) = Ret (r', s') \<and>
    r_upload r' = Some u' \<and> u_bytes u' = [0, 7, 8, 9]"
proof -
  define u where "u = the (r_upload room0)"
  have u: "u_offset u = 1" "u_bytes u = [0, 0, 0, 0]" by (simp_all add: u_def room0_def)
  have "may_go_on X0 ID_A (uuid_bytes ID_N) room0 u"
    by (simp add: may_go_on_def u_def room0_def X0_def uuid_bytes_def upload_ok_def)
  from chunks_assemble [OF this, of "[[7, 8], [9]]" server1] show ?thesis
    unfolding u by auto
qed

text \<open>
  C32: A commit changes the revision only when a complete upload of the request is there: then the
  state is the uploaded bytes, the revision goes up by one, the upload is gone and the notices were
  stored.
\<close>

theorem commit_installs_upload:
  assumes "commit_session X p req d (r, s) = Ret (r', s')" "r_revision r' \<noteq> r_revision r"
  shows "\<exists>u. r_upload r = Some u \<and> upload_complete p req r \<and> r_state r' = u_bytes u \<and>
    r_revision r' = r_revision r + 1 \<and> r_upload r' = None \<and>
    fst (commit X r (idx d ''scheduled'') (idx d ''immediate'') (store s, world s))"
proof -
  obtain u where "r_upload r = Some u" "upload_complete p req r" "r_state r' = u_bytes u"
    "r_revision r' = r_revision r + 1" "r_upload r' = None"
    "fst (commit X r (idx d ''scheduled'') (idx d ''immediate'') (store s, world s))"
    by (rule commit_installs [OF assms])
  then show ?thesis by blast
qed

theorem commit_installs_upload_witness:
  "\<exists>r' s'. commit_session X0 ID_A (JStr ID_N) (JObj []) (room1, server1) = Ret (r', s') \<and>
    r_state r' = [0, 7, 8, 9]"
proof -
  obtain r' s' where *: "commit_session X0 ID_A (JStr ID_N) (JObj []) (room1, server1) = Ret (r', s')"
    "r_revision r' \<noteq> r_revision room1"
    using commits_room1 by blast
  from commit_installs_upload [OF this] * show ?thesis by (auto simp: room1_def)
qed

text \<open>
  C33: A session saved by the client of the tools comes back: when the chunks of \<open>Client::save\<close> have
  been taken up and the commit has gone through, \<open>Client::load\<close> ends and has exactly the bytes that
  were saved, in however many chunks the server's limits make it answer.
\<close>

theorem saved_session_comes_back:
  assumes "may_go_on X p uid r u" "u_offset u = 0" "length b = length (u_bytes u)" "length b < 2 ^ 32"
    and "uploads X p (save_frames uid b) (r, s) = Ret (r1, s1)"
    and "commit_session X p req d (r1, s1) = Ret (r2, s2)" "r_revision r2 \<noteq> r_revision r1"
    and "21 < limit t ''maxPayloadBytes''" "31 < limit t ''maxBufferedBytes''" "length uid' = 16"
  shows "load_bytes (chunk_reply t r2 uid') (length (r_state r2)) [] = Some b"
proof -
  obtain r' s' u' where u': "uploads X p (save_frames uid b) (r, s) = Ret (r', s')"
    "r_upload r' = Some u'" "u_bytes u' = b"
    by (rule saved_arrives [OF assms(1-4)])
  obtain v where v: "r_upload r1 = Some v" "r_state r2 = u_bytes v"
    by (rule commit_installs [OF assms(6,7)])
  from u' v assms(5) have b: "r_state r2 = b" by simp
  then show ?thesis
    using load_gets_state [OF assms(10) _ assms(8,9), of r2 "[]"] assms(4) by simp
qed

theorem saved_session_comes_back_witness:
  "\<exists>r2. load_bytes (chunk_reply server1 r2 (uuid_bytes ID_R)) (length (r_state r2)) [] = Some [7, 8, 9, 10]"
proof -
  define u where "u = the (r_upload room2)"
  have u: "u_offset u = 0" "length [7, 8, 9, 10 :: 8 word] = length (u_bytes u)"
    by (simp_all add: u_def room2_def)
  have "may_go_on X0 ID_A (uuid_bytes ID_N) room2 u"
    by (simp add: may_go_on_def u_def room2_def room0_def X0_def uuid_bytes_def upload_ok_def)
  note up = saved_session_comes_back [OF this u]
  have l: "21 < limit server1 ''maxPayloadBytes''" "31 < limit server1 ''maxBufferedBytes''"
    "length (uuid_bytes ID_R) = 16" by code_simp+
  obtain r1 s1 r2 s2 where
    "uploads X0 ID_A (save_frames (uuid_bytes ID_N) [7, 8, 9, 10]) (room2, server1) = Ret (r1, s1)"
    "commit_session X0 ID_A (JStr ID_N) (JObj []) (r1, s1) = Ret (r2, s2)" "r_revision r2 \<noteq> r_revision r1"
    using saves_room2 by blast
  from up [OF _ this l] show ?thesis by auto
qed

section \<open>The room list\<close>

text \<open>
  C34: A page of the room list holds the rooms that come first, at least one if there is any, and fits
  in one frame; its cursor is null exactly when nothing is left, and otherwise asking for the rooms
  after it gives exactly the rest.
\<close>

theorem pages_cover_the_list:
  assumes "server_wf X s" "page X s (listing p a s) [] JNull = Some (data, cursor)"
  shows "\<exists>k. k \<le> length (listing p a s) \<and> data = map (dto s) (take k (listing p a s)) \<and>
    (listing p a s \<noteq> [] \<longrightarrow> 0 < k \<and> encoded X s (rooms_msg data cursor) \<noteq> None) \<and>
    (cursor = JNull \<and> k = length (listing p a s) \<or>
     (\<exists>x. cursor = JStr x \<and> 0 < k \<and> listing p x s = drop k (listing p a s)))"
proof -
  obtain k where "k \<le> length (listing p a s)" "data = map (dto s) (take k (listing p a s))"
    "listing p a s \<noteq> [] \<Longrightarrow> 0 < k \<and> encoded X s (rooms_msg data cursor) \<noteq> None"
    "cursor = JNull \<and> k = length (listing p a s) \<or>
      (\<exists>x. cursor = JStr x \<and> 0 < k \<and> listing p x s = drop k (listing p a s))"
    by (rule page_continues [OF assms(1) [unfolded server_wf_def] assms(2)]) (rule that)
  then show ?thesis by blast
qed

theorem pages_cover_the_list_witness:
  "\<exists>data cursor k. page X0 server1 (listing ID_A '''' server1) [] JNull = Some (data, cursor) \<and>
     data = map (dto server1) (take k (listing ID_A '''' server1))"
proof -
  obtain data cursor where "page X0 server1 (listing ID_A '''' server1) [] JNull = Some (data, cursor)"
    using pages_server1 by blast
  with pages_cover_the_list [OF wf_server1 this] show ?thesis by blast
qed

section \<open>Diagnostics\<close>



text \<open>
  C36: An event never takes the log channel over its byte or line limit, keeps its byte count exact,
  and never keeps more than sixteen errors.
\<close>

theorem events_bounded:
  assumes "diag_bounded d"
  shows "diag_bounded (fst (event X e v (d, w)))"
  by (rule event_bounded [OF assms])

theorem events_bounded_witness: "diag_bounded (fst (event X0 ''room.created'' JNull (diag0, W0)))"
  by (rule events_bounded) (simp add: diag_bounded_def diag0_def)

text \<open>
  C37: A record that is written is the end of the log and the files stay within the configured total.
  What was there before is kept but for whole files, oldest first, and none is removed that left room
  enough. A record is replaced (by a note of its length) only when it is longer than the limits.
\<close>

theorem log_stays_within_its_limit:
  assumes "log_write X record (l, d, w) = (True, l', d', w')" "log_ok l d" "lg_total l \<le> lg_max l"
  shows "log_ok l' d' \<and> lg_total l' \<le> lg_max l' \<and>
    (\<exists>k line. stored d' (lg_files l') = stored d (drop k (lg_files l)) @ text_bytes line \<and>
       (\<forall>j < k. lg_max l < sum_list (map snd (drop j (lg_files l))) + length line) \<and>
       (line = record @ new_line \<or>
        min (lg_max l) LINE_MAX < length (record @ new_line)))"
  using log_write_ok [OF assms] by (simp add: min_less_iff_disj)

theorem log_stays_within_its_limit_witness:
  "\<exists>l' d' w'. log_write X0 ''line'' (logger0, [], W0) = (True, l', d', w') \<and> log_ok l' d' \<and>
    lg_total l' \<le> lg_max l'"
proof -
  have ok: "log_ok logger0 []" "lg_total logger0 \<le> lg_max logger0" by (simp_all add: log_ok_def logger0_def)
  have "disk_ok W0" "numbered logger0 []" "lg_seq logger0 + 1 < 2 ^ 64"
    by (simp_all add: disk_ok_def W0_def numbered_def logger0_def)
  from log_write_complete [OF this(1) ok(1) this(2,3)]
  obtain l' d' w' where 1: "log_write X0 ''line'' (logger0, [], W0) = (True, l', d', w')" by blast
  from log_stays_within_its_limit [OF 1 ok] 1 show ?thesis by blast
qed

section \<open>Telemetry\<close>



text \<open>
  C39: Closing delivers everything that is left, if the collector accepts nine batches: no event of
  the process is longer than two thousand bytes and at most 256 wait.
\<close>

theorem closing_delivers_the_rest:
  assumes "\<forall>v \<in> set (tm_queue (fst (Telemetry.enqueue X ''server.stopped''
      (JObj [(''telemetryDropped'', jnat (tm_dropped tm))]) (tm, w)))). event_bytes X v \<le> 2000"
    and "length replies \<ge> 9" "\<forall>c \<in> set replies. c = (\<lambda>_. Accepted)"
  shows "tm_queue (fst (close_telemetry X replies (tm, w))) = []"
  by (rule close_empties [OF assms])

theorem closing_delivers_the_rest_witness:
  "tm_queue (fst (close_telemetry X0 (replicate 9 (\<lambda>_. Accepted)) (telemetry0, W0))) = []"
  by (rule closing_delivers_the_rest) (code_simp, simp_all)

section \<open>Output\<close>

text \<open>
  C40: Sending to a connection keeps its output within the configured budget and its frames in order:
  nothing follows a close frame, and a closing connection is not changed at all.
\<close>

theorem sending_within_budget:
  assumes "conn_of s cid = Some c" "outbox_ok (out_limit s) c"
  shows "\<exists>d. conn_of (send_c X k v s) cid = Some d \<and> outbox_ok (out_limit s) d \<and>
    (c_closing c \<longrightarrow> d = c)"
  using send_c.budget [OF assms, of X k v] send_c.closing_frozen [OF assms(1), of X k v] assms by auto

theorem sending_within_budget_witness:
  "\<exists>d. conn_of (send_c X0 1 JNull server1) 1 = Some d \<and> outbox_ok (out_limit server1) d"
proof -
  have "conn_of server1 1 = Some (conn0 (Some ID_A))" by (simp add: server1_def)
  from sending_within_budget [OF this, of X0 1 JNull] show ?thesis
    by (auto simp: outbox_ok_def waiting_def conn0_def)
qed

end
